(* ===== verification/Prelude.thy ===== *)
theory Prelude
  imports Main "HOL-Library.Word" "HOL-Library.AList"
begin

unbundle bit_operations_syntax

text \<open>
  Shared vocabulary of the development: the machine types of the program, the
  result type with the program's faults, byte buffers with bounds-checked
  access, the write cursor that models \<^verbatim>\<open>memcpy(dest, ...); dest += n\<close>, the
  little-endian layout of 32-bit integers, the conversion between strings and
  bytes, and decimal printing.
\<close>

named_theorems buffer_simps \<open>reading and writing byte buffers\<close>
named_theorems codec_simps \<open>byte layout of integers, headers and strings\<close>
named_theorems handler_simps \<open>closed forms of the request and response handlers\<close>

section \<open>Machine types\<close>

type_synonym byte = "8 word"
type_synonym u32 = "32 word"
type_synonym bytes = "byte list"

section \<open>Results\<close>

text \<open>
  \<open>OutOfBounds\<close> is an access outside the buffer the code was given, undefined
  behaviour in C++; \<open>AssertFailure\<close> is a failing \<^verbatim>\<open>assert\<close>, which aborts.
\<close>

datatype fault = OutOfBounds | AssertFailure

type_synonym 'a result = "fault + 'a"

definition rbind :: "'a result \<Rightarrow> ('a \<Rightarrow> 'b result) \<Rightarrow> 'b result" where
  "rbind m f = (case m of Inl e \<Rightarrow> Inl e | Inr x \<Rightarrow> f x)"

lemma rbind_Inl [simp]: "rbind (Inl e) f = Inl e"
  by (simp add: rbind_def)

lemma rbind_Inr [simp]: "rbind (Inr x) f = f x"
  by (simp add: rbind_def)

lemma rbind_eq_Inr: "rbind m f = Inr y \<longleftrightarrow> (\<exists>x. m = Inr x \<and> f x = Inr y)"
  by (cases m) simp_all

lemma rbind_assoc: "rbind (rbind m f) g = rbind m (\<lambda>x. rbind (f x) g)"
  by (cases m) simp_all

lemma rbind_if: "rbind (if b then m else n) f = (if b then rbind m f else rbind n f)"
  by simp

section \<open>Byte buffers\<close>

text \<open>
  \<open>load_at buf off n\<close> reads \<open>n\<close> bytes at offset \<open>off\<close>; \<open>store_at\<close> overwrites
  the bytes at \<open>off\<close>. An access past the end is the fault \<open>OutOfBounds\<close>.
\<close>

definition load_at :: "'a list \<Rightarrow> nat \<Rightarrow> nat \<Rightarrow> 'a list result" where
  "load_at buf off n =
     (if off + n \<le> length buf then Inr (take n (drop off buf)) else Inl OutOfBounds)"

definition store_at :: "'a list \<Rightarrow> nat \<Rightarrow> 'a list \<Rightarrow> 'a list result" where
  "store_at buf off src =
     (if off + length src \<le> length buf
      then Inr (take off buf @ src @ drop (off + length src) buf)
      else Inl OutOfBounds)"

lemma load_at_append [buffer_simps]:
  "length pre = off \<Longrightarrow> length xs = n \<Longrightarrow> load_at (pre @ xs @ post) off n = Inr xs"
  by (simp add: load_at_def)

lemma load_at_prefix [buffer_simps]:
  "length xs = n \<Longrightarrow> load_at (xs @ post) 0 n = Inr xs"
  by (simp add: load_at_def)

lemma store_at_length: "store_at buf off src = Inr buf' \<Longrightarrow> length buf' = length buf"
  by (auto simp: store_at_def split: if_splits)

lemma load_store_same: "store_at buf off src = Inr buf' \<Longrightarrow> load_at buf' off (length src) = Inr src"
  by (auto simp: store_at_def load_at_def split: if_splits)

lemma take_store_at:
  assumes "store_at buf off src = Inr buf'"
  shows "take (off + length src) buf' = take off buf @ src"
  using assms by (auto simp: store_at_def split: if_splits)

lemma store_at_0 [buffer_simps]:
  "length src \<le> length buf \<Longrightarrow> store_at buf 0 src = Inr (src @ drop (length src) buf)"
  by (simp add: store_at_def)

section \<open>The write cursor\<close>

text \<open>
  A cursor is a buffer and the offset of the \<^verbatim>\<open>dest\<close> pointer; \<open>put\<close> copies the
  source bytes there and advances the pointer.
\<close>

type_synonym 'a cursor = "'a list \<times> nat"

definition put :: "'a cursor \<Rightarrow> 'a list \<Rightarrow> 'a cursor result" where
  "put c src = rbind (store_at (fst c) (snd c) src) (\<lambda>buf. Inr (buf, snd c + length src))"

text \<open>Advancing the pointer over bytes that are written later.\<close>

definition skip :: "'a cursor \<Rightarrow> nat \<Rightarrow> 'a cursor" where
  "skip c n = (fst c, snd c + n)"

lemma put_eq:
  "put (buf, off) src =
     (if off + length src \<le> length buf
      then Inr (take off buf @ src @ drop (off + length src) buf, off + length src)
      else Inl OutOfBounds)"
  by (simp add: put_def store_at_def)

lemma put_put: "rbind (put c xs) (\<lambda>c'. put c' ys) = put c (xs @ ys)"
  by (cases c) (auto simp: put_eq ac_simps)

lemma put_put_bind [buffer_simps]:
  "rbind (put c xs) (\<lambda>c'. rbind (put c' ys) f) = rbind (put c (xs @ ys)) f"
  by (simp add: put_put [symmetric] rbind_assoc)

lemma put_fits:
  "off + length src \<le> length buf \<Longrightarrow>
   put (buf, off) src = Inr (take off buf @ src @ drop (off + length src) buf, off + length src)"
  by (simp add: put_eq)

lemma put_overflow: "length buf < off + length src \<Longrightarrow> put (buf, off) src = Inl OutOfBounds"
  by (simp add: put_eq)

text \<open>A buffer after bytes are written from its start: the rest is unchanged.\<close>

definition sent :: "bytes \<Rightarrow> bytes \<Rightarrow> bytes" where
  "sent resp buf = resp @ drop (length resp) buf"

lemma put_start [handler_simps]:
  "rbind (put (buf, 0) xs) f =
     (if length xs \<le> length buf then f (sent xs buf, length xs) else Inl OutOfBounds)"
  by (simp add: put_eq sent_def)

text \<open>Filling in a header of \<open>n\<close> bytes in front of a body written earlier at offset \<open>n\<close>.\<close>

lemma put_then_header:
  assumes "length hdr = n"
  shows "rbind (put (buf, n) body) (\<lambda>c. store_at (fst c) 0 hdr) =
         (if n + length body \<le> length buf
          then Inr (hdr @ body @ drop (n + length body) buf) else Inl OutOfBounds)"
  using assms by (auto simp: put_eq store_at_def)

section \<open>Little-endian 32-bit integers\<close>

text \<open>The layout of \<^verbatim>\<open>uint32_t\<close> on the little-endian hosts the program runs on.\<close>

definition le32 :: "u32 \<Rightarrow> bytes" where
  "le32 w = [ucast w, ucast (drop_bit 8 w), ucast (drop_bit 16 w), ucast (drop_bit 24 w)]"

definition of_le32 :: "bytes \<Rightarrow> u32" where
  "of_le32 bs = foldr (\<lambda>b acc. ucast b OR push_bit 8 acc) bs 0"

definition load32 :: "bytes \<Rightarrow> nat \<Rightarrow> u32 result" where
  "load32 buf off = rbind (load_at buf off 4) (\<lambda>bs. Inr (of_le32 bs))"

lemma length_le32 [simp]: "length (le32 w) = 4"
  by (simp add: le32_def)

lemma of_le32_le32 [simp]: "of_le32 (le32 w) = w"
proof (rule bit_word_eqI)
  fix n assume "n < LENGTH(32)"
  then consider "n < 8" | "8 \<le> n" "n < 16" | "16 \<le> n" "n < 24" | "24 \<le> n" "n < 32"
    by fastforce
  then show "bit (of_le32 (le32 w)) n \<longleftrightarrow> bit w n"
    by cases (auto simp: le32_def of_le32_def bit_simps)
qed

lemma le32_inject [simp]: "le32 v = le32 w \<longleftrightarrow> v = w"
  by (metis of_le32_le32)

lemma load32_le32 [buffer_simps]:
  "length pre = off \<Longrightarrow> load32 (pre @ le32 w @ post) off = Inr w"
  by (simp add: load32_def load_at_append)

lemma load32_le32_prefix [buffer_simps]: "load32 (le32 w @ post) 0 = Inr w"
  by (simp add: load32_def load_at_prefix)

section \<open>Strings as bytes\<close>

text \<open>
  A \<^verbatim>\<open>std::string\<close> is a sequence of 8-bit characters, here a \<^typ>\<open>string\<close>; the
  casts between \<^verbatim>\<open>char*\<close> and \<^verbatim>\<open>uint8_t*\<close> are the two conversions below.
\<close>

definition byte_of_char :: "char \<Rightarrow> byte" where
  "byte_of_char c = word_of_nat (of_char c)"

definition char_of_byte :: "byte \<Rightarrow> char" where
  "char_of_byte b = char_of (unat b)"

definition bytes_of_string :: "string \<Rightarrow> bytes" where
  "bytes_of_string s = map byte_of_char s"

definition string_of_bytes :: "bytes \<Rightarrow> string" where
  "string_of_bytes bs = map char_of_byte bs"

lemma char_of_byte_of_char [simp]: "char_of_byte (byte_of_char c) = c"
  by (simp add: char_of_byte_def byte_of_char_def unat_of_nat)

lemma byte_of_char_of_byte [simp]: "byte_of_char (char_of_byte b) = b"
proof -
  have "unat b < 256"
    using unsigned_less [of b, where ?'a = nat] by simp
  then show ?thesis
    by (simp add: char_of_byte_def byte_of_char_def)
qed

lemma string_of_bytes_of_string [simp]: "string_of_bytes (bytes_of_string s) = s"
  by (simp add: string_of_bytes_def bytes_of_string_def comp_def)

lemma bytes_of_string_of_bytes [simp]: "bytes_of_string (string_of_bytes bs) = bs"
  by (simp add: string_of_bytes_def bytes_of_string_def comp_def)

lemma length_bytes_of_string [simp]: "length (bytes_of_string s) = length s"
  by (simp add: bytes_of_string_def)

lemma length_string_of_bytes [simp]: "length (string_of_bytes bs) = length bs"
  by (simp add: string_of_bytes_def)

section \<open>Decimal printing\<close>

text \<open>What \<^verbatim>\<open>cout <<\<close> and \<^verbatim>\<open>to_string\<close> print for an unsigned integer.\<close>

fun show_nat :: "nat \<Rightarrow> string" where
  "show_nat n =
     (if n < 10 then [char_of (48 + n)] else show_nat (n div 10) @ [char_of (48 + n mod 10)])"

declare show_nat.simps [simp del]

definition show_u32 :: "u32 \<Rightarrow> string" where
  "show_u32 w = show_nat (unat w)"

section \<open>32-bit lengths\<close>

text \<open>Lengths below \<open>2 ^ 32\<close> survive the conversion to \<^verbatim>\<open>length_t\<close>.\<close>

lemma unat_of_nat_u32 [simp]: "n < 4294967296 \<Longrightarrow> unat (word_of_nat n :: u32) = n"
  by (simp add: unat_of_nat)

lemma word_of_nat_u32_eq_0 [simp]: "n < 4294967296 \<Longrightarrow> (word_of_nat n :: u32) = 0 \<longleftrightarrow> n = 0"
  by (simp add: word_unat_eq_iff)

section \<open>Association lists\<close>

lemma update_fresh: "k \<notin> fst ` set al \<Longrightarrow> AList.update k v al = al @ [(k, v)]"
  by (induction al) auto

lemma length_update:
  "length (AList.update k v al) = (if k \<in> fst ` set al then length al else Suc (length al))"
  by (induction al) auto

end
