(* ===== verification/Common.thy ===== *)
theory Common
  imports Prelude
begin

text \<open>
  \<^verbatim>\<open>common/common.h\<close>: the packet types and send statuses of the binary protocol,
  the packed five-byte header, the message and user records the server keeps,
  and the fixed payload lengths of the requests.
\<close>

type_synonym length_t = u32
type_synonym user_id_t = u32

section \<open>Enumerations\<close>

text \<open>
  A \<^verbatim>\<open>PacketType\<close> variable filled from raw memory can hold any byte, so a header
  stores the byte and \<open>PacketType_of\<close> is the \<^verbatim>\<open>switch\<close> on it.
\<close>

datatype PacketType =
    kRequestRegister | kRequestUsers | kRequestSend | kRequestRecv
  | kRespRegister | kRespUsers | kRespSend | kRespRecv

fun PacketType_code :: "PacketType \<Rightarrow> byte" where
  "PacketType_code kRequestRegister = 0"
| "PacketType_code kRequestUsers = 1"
| "PacketType_code kRequestSend = 2"
| "PacketType_code kRequestRecv = 3"
| "PacketType_code kRespRegister = 0xF0"
| "PacketType_code kRespUsers = 0xF1"
| "PacketType_code kRespSend = 0xF2"
| "PacketType_code kRespRecv = 0xF3"

definition PacketType_all :: "PacketType list" where
  "PacketType_all =
     [kRequestRegister, kRequestUsers, kRequestSend, kRequestRecv,
      kRespRegister, kRespUsers, kRespSend, kRespRecv]"

definition PacketType_of :: "byte \<Rightarrow> PacketType option" where
  "PacketType_of b = find (\<lambda>t. PacketType_code t = b) PacketType_all"

lemma PacketType_of_code [simp]: "PacketType_of (PacketType_code t) = Some t"
  by (cases t) (simp_all add: PacketType_of_def PacketType_all_def)

lemma PacketType_code_inject [simp]: "PacketType_code s = PacketType_code t \<longleftrightarrow> s = t"
  by (metis PacketType_of_code option.inject)

lemma PacketType_of_Some: "PacketType_of b = Some t \<Longrightarrow> PacketType_code t = b"
  by (auto simp: PacketType_of_def find_Some_iff)

text \<open>The enumerators compare as their underlying \<^verbatim>\<open>uint8_t\<close> values do.\<close>

instantiation PacketType :: linorder
begin

definition less_eq_PacketType :: "PacketType \<Rightarrow> PacketType \<Rightarrow> bool" where
  "less_eq_PacketType s t \<longleftrightarrow> PacketType_code s \<le> PacketType_code t"

definition less_PacketType :: "PacketType \<Rightarrow> PacketType \<Rightarrow> bool" where
  "less_PacketType s t \<longleftrightarrow> PacketType_code s < PacketType_code t"

instance
  by standard (auto simp: less_eq_PacketType_def less_PacketType_def less_le)

end

datatype SendStatus = kSuccess | kErrSrcId | kErrTrgtId

fun SendStatus_code :: "SendStatus \<Rightarrow> byte" where
  "SendStatus_code kSuccess = 0"
| "SendStatus_code kErrSrcId = 1"
| "SendStatus_code kErrTrgtId = 2"

definition SendStatus_of :: "byte \<Rightarrow> SendStatus option" where
  "SendStatus_of b = find (\<lambda>t. SendStatus_code t = b) [kSuccess, kErrSrcId, kErrTrgtId]"

lemma SendStatus_of_code [simp]: "SendStatus_of (SendStatus_code t) = Some t"
  by (cases t) (simp_all add: SendStatus_of_def)

section \<open>Header\<close>

record Header =
  hdr_type :: byte
  hdr_len :: length_t

text \<open>\<^verbatim>\<open>__attribute__((packed))\<close>: one byte for the type, four for the length, no padding.\<close>

definition sizeof_Header :: nat where
  "sizeof_Header = 5"

definition Header_bytes :: "Header \<Rightarrow> bytes" where
  "Header_bytes h = hdr_type h # le32 (hdr_len h)"

definition load_Header :: "bytes \<Rightarrow> nat \<Rightarrow> Header result" where
  "load_Header buf off =
     rbind (load_at buf off sizeof_Header)
       (\<lambda>bs. Inr \<lparr>hdr_type = hd bs, hdr_len = of_le32 (tl bs)\<rparr>)"

lemma length_Header_bytes [simp]: "length (Header_bytes h) = 5"
  by (simp add: Header_bytes_def)

lemma load_Header_bytes [codec_simps]:
  "load_Header (Header_bytes h @ post) 0 = Inr h"
  by (simp add: load_Header_def sizeof_Header_def load_at_prefix)
    (simp add: Header_bytes_def)

section \<open>Messages and users\<close>

record Msg =
  sender_id :: user_id_t
  msg :: string

record UserMetadata =
  username :: string
  msg_q :: "Msg list"

definition kReqUsersPayloadLen :: length_t where
  "kReqUsersPayloadLen = 4"

definition kReqSendMinPayloadLen :: length_t where
  "kReqSendMinPayloadLen = 8"

definition kReqRecvPayloadLen :: length_t where
  "kReqRecvPayloadLen = 4"

end
