(* ===== verification/Database.thy ===== *)
theory Database
  imports Common "HOL-Library.Multiset"
begin

text \<open>
  \<^verbatim>\<open>server/database.h\<close> and \<^verbatim>\<open>server/database.cpp\<close>: the server's store of users and
  their pending messages. \<open>user_map_\<close> is the \<^verbatim>\<open>std::unordered_map\<close> as an association
  list with distinct keys. The iteration order of an unordered map is not
  specified, so every operation that iterates takes it as the argument \<open>iter\<close>, a
  permutation of the entries (\<open>iteration_order\<close>).
\<close>

section \<open>State and operations\<close>

record Database =
  next_id :: user_id_t
  user_map :: "(user_id_t \<times> UserMetadata) list"

definition Database_init :: Database where
  "Database_init = \<lparr>next_id = 0, user_map = []\<rparr>"

text \<open>
  \<^verbatim>\<open>getInstance\<close> constructs its static object at the first call (\<open>None\<close>) and gives the same one
  afterwards.
\<close>

definition Database_getInstance :: "Database option \<Rightarrow> Database" where
  [simp]: "Database_getInstance s = (case s of None \<Rightarrow> Database_init | Some d \<Rightarrow> d)"

definition iteration_order :: "('a list \<Rightarrow> 'a list) \<Rightarrow> bool" where
  "iteration_order iter \<longleftrightarrow> (\<forall>xs. mset (iter xs) = mset xs)"

definition registerUser :: "Database \<Rightarrow> string \<Rightarrow> Database \<times> user_id_t" where
  "registerUser db name =
     (let db' = db\<lparr>user_map :=
                  AList.update (next_id db) \<lparr>username = name, msg_q = []\<rparr> (user_map db)\<rparr>
      in (db'\<lparr>next_id := next_id db + 1\<rparr>, next_id db))"

definition userExists :: "Database \<Rightarrow> user_id_t \<Rightarrow> bool" where
  "userExists db i \<longleftrightarrow> map_of (user_map db) i \<noteq> None"

definition getNumUsers :: "Database \<Rightarrow> user_id_t" where
  "getNumUsers db = word_of_nat (length (user_map db))"

text \<open>
  \<^verbatim>\<open>operator[]\<close> returns a reference to the entry and default-constructs a missing
  one: \<open>Database_at\<close> is the entry read through the reference, \<open>Database_ref\<close> the
  database after the access, \<open>Database_set\<close> an assignment through the reference.
\<close>

definition Database_at :: "Database \<Rightarrow> user_id_t \<Rightarrow> UserMetadata" where
  "Database_at db i =
     (case map_of (user_map db) i of None \<Rightarrow> \<lparr>username = [], msg_q = []\<rparr> | Some u \<Rightarrow> u)"

definition Database_set :: "Database \<Rightarrow> user_id_t \<Rightarrow> UserMetadata \<Rightarrow> Database" where
  "Database_set db i u = db\<lparr>user_map := AList.update i u (user_map db)\<rparr>"

definition Database_ref :: "Database \<Rightarrow> user_id_t \<Rightarrow> Database" where
  "Database_ref db i = Database_set db i (Database_at db i)"

definition queueMsg :: "Database \<Rightarrow> user_id_t \<Rightarrow> Msg \<Rightarrow> Database \<times> bool" where
  "queueMsg db recepient_id m =
     (if map_of (user_map db) recepient_id = None then (db, False)
      else (let u = Database_at db recepient_id
            in (Database_set db recepient_id (u\<lparr>msg_q := msg_q u @ [m]\<rparr>), True)))"

text \<open>\<^verbatim>\<open>db_[id].msg_q.clear()\<close>, the last statement of the receive handler.\<close>

definition clearMsgs :: "Database \<Rightarrow> user_id_t \<Rightarrow> Database" where
  "clearMsgs db i = Database_set db i ((Database_at db i)\<lparr>msg_q := []\<rparr>)"

text \<open>
  \<^verbatim>\<open>getUsername\<close> compares \<^verbatim>\<open>find(id)\<close> with \<^verbatim>\<open>find(id)\<close>; an iterator is the position of
  the entry found, the length of the container standing for \<^verbatim>\<open>end()\<close>.
\<close>

definition find_pos :: "Database \<Rightarrow> user_id_t \<Rightarrow> nat" where
  "find_pos db i = length (takeWhile (\<lambda>e. fst e \<noteq> i) (user_map db))"

definition getUsername :: "Database \<Rightarrow> user_id_t \<Rightarrow> string" where
  "getUsername db i =
     (if find_pos db i \<noteq> find_pos db i then username (Database_at db i) else [])"

section \<open>Iteration\<close>

text \<open>
  \<^verbatim>\<open>ConstIterator\<close> wraps a \<^verbatim>\<open>const_iterator\<close>: here the position in the iteration
  sequence. \<open>for_each\<close> is the range-for loop over \<^verbatim>\<open>begin()\<close> and \<^verbatim>\<open>end()\<close>.
\<close>

record ConstIterator =
  it_pos :: nat

definition Database_begin :: "(user_id_t \<times> UserMetadata) list \<Rightarrow> ConstIterator" where
  "Database_begin es = \<lparr>it_pos = 0\<rparr>"

definition Database_end :: "(user_id_t \<times> UserMetadata) list \<Rightarrow> ConstIterator" where
  "Database_end es = \<lparr>it_pos = length es\<rparr>"

definition ConstIterator_deref ::
    "(user_id_t \<times> UserMetadata) list \<Rightarrow> ConstIterator \<Rightarrow> (user_id_t \<times> UserMetadata) result" where
  "ConstIterator_deref es it =
     (if it_pos it < length es then Inr (es ! it_pos it) else Inl OutOfBounds)"

definition ConstIterator_next :: "ConstIterator \<Rightarrow> ConstIterator" where
  "ConstIterator_next it = it\<lparr>it_pos := Suc (it_pos it)\<rparr>"

definition ConstIterator_neq :: "ConstIterator \<Rightarrow> ConstIterator \<Rightarrow> bool" where
  "ConstIterator_neq a b \<longleftrightarrow> it_pos b \<noteq> it_pos a"

text \<open>
  The loop with fuel: \<open>None\<close> when the fuel runs out before the iterator reaches
  \<^verbatim>\<open>end()\<close>; \<open>for_each_from_drop\<close> shows that one more unit than entries is enough.
\<close>

fun for_each_from ::
    "nat \<Rightarrow> (user_id_t \<times> UserMetadata) list \<Rightarrow> ConstIterator \<Rightarrow>
     ('s \<Rightarrow> user_id_t \<times> UserMetadata \<Rightarrow> 's) \<Rightarrow> 's \<Rightarrow> 's result option" where
  "for_each_from 0 es it body s = None"
| "for_each_from (Suc fuel) es it body s =
     (if ConstIterator_neq it (Database_end es)
      then (case ConstIterator_deref es it of
              Inl e \<Rightarrow> Some (Inl e)
            | Inr e \<Rightarrow> for_each_from fuel es (ConstIterator_next it) body (body s e))
      else Some (Inr s))"

section \<open>Printing\<close>

text \<open>\<^verbatim>\<open>endl\<close> ends a line; the output is the list of characters written to \<^verbatim>\<open>cout\<close>.\<close>

definition endl :: string where
  "endl = [char_of (10 :: nat)]"

definition print_msg :: "nat \<Rightarrow> Msg \<Rightarrow> string" where
  "print_msg msg_count m =
     ''Message #'' @ show_nat msg_count @ '': '' @ endl @
     ''Sender ID: '' @ show_u32 (sender_id m) @ endl @
     ''Message: '' @ msg m @ endl @ endl"

text \<open>The source declares \<^verbatim>\<open>msg_count = 1\<close> and never increments it.\<close>

definition print_user :: "user_id_t \<times> UserMetadata \<Rightarrow> string" where
  "print_user grp =
     ''User ID: '' @ show_u32 (fst grp) @ endl @
     ''Username : '' @ username (snd grp) @ endl @
     concat (map (print_msg 1) (msg_q (snd grp))) @
     ''--------------------------------'' @ endl"

definition Database_print ::
    "((user_id_t \<times> UserMetadata) list \<Rightarrow> (user_id_t \<times> UserMetadata) list) \<Rightarrow> Database \<Rightarrow> string" where
  "Database_print iter db = concat (map print_user (iter (user_map db)))"

section \<open>The mailbox contract\<close>

text \<open>
  What the request handlers rely on: a store of inboxes, in which queueing appends
  to one inbox and flushing empties one, and nothing else changes.
\<close>

definition deliver :: "('s \<Rightarrow> 'k \<Rightarrow> 'm \<Rightarrow> 's \<times> bool) \<Rightarrow> 's \<Rightarrow> ('k \<times> 'm) list \<Rightarrow> 's" where
  "deliver enqueue s ops = foldl (\<lambda>s (k, m). fst (enqueue s k m)) s ops"

lemma deliver_Nil [simp]: "deliver enqueue s [] = s"
  by (simp add: deliver_def)

lemma deliver_Cons [simp]:
  "deliver enqueue s ((k, m) # ops) = deliver enqueue (fst (enqueue s k m)) ops"
  by (simp add: deliver_def)

definition addressed_to :: "'k \<Rightarrow> ('k \<times> 'm) list \<Rightarrow> 'm list" where
  "addressed_to k ops = map snd (filter (\<lambda>e. fst e = k) ops)"

locale mailbox =
  fixes inv :: "'s \<Rightarrow> bool"
    and known :: "'s \<Rightarrow> 'k \<Rightarrow> bool"
    and inbox :: "'s \<Rightarrow> 'k \<Rightarrow> 'm list"
    and enqueue :: "'s \<Rightarrow> 'k \<Rightarrow> 'm \<Rightarrow> 's \<times> bool"
    and flush :: "'s \<Rightarrow> 'k \<Rightarrow> 's"
  assumes inv_enqueue: "inv s \<Longrightarrow> inv (fst (enqueue s k m))"
    and enqueue_status: "snd (enqueue s k m) \<longleftrightarrow> known s k"
    and known_enqueue: "known (fst (enqueue s k m)) j \<longleftrightarrow> known s j"
    and enqueue_unknown: "\<not> known s k \<Longrightarrow> fst (enqueue s k m) = s"
    and inbox_enqueue: "known s k \<Longrightarrow>
          inbox (fst (enqueue s k m)) j = inbox s j @ (if j = k then [m] else [])"
    and inv_flush: "inv s \<Longrightarrow> known s k \<Longrightarrow> inv (flush s k)"
    and known_flush: "known s k \<Longrightarrow> known (flush s k) j \<longleftrightarrow> known s j"
    and inbox_flush: "known s k \<Longrightarrow> inbox (flush s k) j = (if j = k then [] else inbox s j)"
begin

lemma inv_deliver: "inv s \<Longrightarrow> inv (deliver enqueue s ops)"
proof (induction ops arbitrary: s)
  case (Cons e ops)
  then show ?case by (cases e) (simp add: inv_enqueue)
qed simp

lemma known_deliver: "known (deliver enqueue s ops) j \<longleftrightarrow> known s j"
proof (induction ops arbitrary: s)
  case (Cons e ops)
  then show ?case by (cases e) (simp add: known_enqueue)
qed simp

lemma inbox_deliver:
  "known s j \<Longrightarrow> inbox (deliver enqueue s ops) j = inbox s j @ addressed_to j ops"
proof (induction ops arbitrary: s)
  case Nil
  then show ?case by (simp add: addressed_to_def)
next
  case (Cons e ops)
  obtain k m where e: "e = (k, m)" by force
  have "inbox (deliver enqueue s (e # ops)) j
          = inbox (deliver enqueue (fst (enqueue s k m)) ops) j"
    by (simp add: e)
  also have "\<dots> = inbox (fst (enqueue s k m)) j @ addressed_to j ops"
    using Cons by (simp add: known_enqueue)
  also have "\<dots> = inbox s j @ addressed_to j (e # ops)"
    using Cons.prems
    by (cases "known s k") (auto simp: e inbox_enqueue enqueue_unknown addressed_to_def)
  finally show ?case .
qed

lemma inbox_flush_deliver:
  assumes "known s j"
  shows "inbox (deliver enqueue (flush s j) ops) j = addressed_to j ops"
  using assms inbox_deliver [of "flush s j" j ops] by (simp add: known_flush inbox_flush)

end

text \<open>A registry adds users: the new id, where one is free, and what registering changes.\<close>

locale registry = mailbox inv known inbox enqueue flush
  for inv :: "'s \<Rightarrow> bool" and known :: "'s \<Rightarrow> 'k \<Rightarrow> bool" and inbox :: "'s \<Rightarrow> 'k \<Rightarrow> 'm list"
    and enqueue :: "'s \<Rightarrow> 'k \<Rightarrow> 'm \<Rightarrow> 's \<times> bool" and flush :: "'s \<Rightarrow> 'k \<Rightarrow> 's" +
  fixes saturated :: "'s \<Rightarrow> bool"
    and register :: "'s \<Rightarrow> 'n \<Rightarrow> 's \<times> 'k"
    and name_of :: "'s \<Rightarrow> 'k \<Rightarrow> 'n"
  assumes inv_register: "inv s \<Longrightarrow> inv (fst (register s n))"
    and register_fresh: "inv s \<Longrightarrow> \<not> saturated s \<Longrightarrow> \<not> known s (snd (register s n))"
    and known_register: "known (fst (register s n)) j \<longleftrightarrow> known s j \<or> j = snd (register s n)"
    and inbox_register: "inbox (fst (register s n)) j =
          (if j = snd (register s n) then [] else inbox s j)"
    and name_register: "name_of (fst (register s n)) j =
          (if j = snd (register s n) then n else name_of s j)"
begin

lemma register_keeps_users:
  assumes "inv s" "\<not> saturated s" "known s j"
  shows "known (fst (register s n)) j \<and> inbox (fst (register s n)) j = inbox s j
         \<and> name_of (fst (register s n)) j = name_of s j"
  using assms register_fresh [of s n]
  by (auto simp: known_register inbox_register name_register)

lemma register_then_deliver:
  "inbox (deliver enqueue (fst (register s n)) ops) (snd (register s n))
     = addressed_to (snd (register s n)) ops"
  by (simp add: inbox_deliver known_register inbox_register)

end

section \<open>The database meets the contract\<close>

definition user_ids :: "Database \<Rightarrow> user_id_t set" where
  "user_ids db = fst ` set (user_map db)"

definition inbox_of :: "Database \<Rightarrow> user_id_t \<Rightarrow> Msg list" where
  "inbox_of db i = msg_q (Database_at db i)"

definition name_in :: "Database \<Rightarrow> user_id_t \<Rightarrow> string" where
  "name_in db i = username (Database_at db i)"

text \<open>All \<open>2 ^ 32\<close> ids are taken: the counter has wrapped around.\<close>

definition db_full :: "Database \<Rightarrow> bool" where
  "db_full db \<longleftrightarrow> length (user_map db) = 2 ^ 32"

text \<open>
  The invariant: the keys are distinct and are exactly the ids below the counter,
  or, once the counter has wrapped, all ids.
\<close>

definition db_inv :: "Database \<Rightarrow> bool" where
  "db_inv db \<longleftrightarrow> distinct (map fst (user_map db)) \<and>
     (user_ids db = {k. k < next_id db} \<or> user_ids db = UNIV)"

lemma userExists_iff: "userExists db i \<longleftrightarrow> i \<in> user_ids db"
  by (force simp: userExists_def user_ids_def map_of_eq_None_iff)

lemma user_ids_set [simp]: "user_ids (Database_set db i u) = insert i (user_ids db)"
  by (simp add: user_ids_def Database_set_def dom_update)

lemma next_id_set [simp]: "next_id (Database_set db i u) = next_id db"
  by (simp add: Database_set_def)

lemma Database_at_set [simp]: "Database_at (Database_set db i u) j = (if j = i then u else Database_at db j)"
  by (simp add: Database_at_def Database_set_def update_conv')

lemma distinct_set: "distinct (map fst (user_map db)) \<Longrightarrow>
    distinct (map fst (user_map (Database_set db i u)))"
  by (simp add: Database_set_def distinct_update)

lemma db_inv_set: "db_inv db \<Longrightarrow> i \<in> user_ids db \<Longrightarrow> db_inv (Database_set db i u)"
  by (auto simp: db_inv_def distinct_set insert_absorb)

lemma Database_ref_known: "db_inv db \<Longrightarrow> userExists db i \<Longrightarrow> Database_ref db i = db"
  by (auto simp: Database_ref_def Database_set_def Database_at_def userExists_def update_triv)

lemma queueMsg_eq:
  "queueMsg db i m =
     (if userExists db i
      then (Database_set db i ((Database_at db i)\<lparr>msg_q := inbox_of db i @ [m]\<rparr>), True)
      else (db, False))"
  by (simp add: queueMsg_def userExists_def Let_def inbox_of_def)

lemma registerUser_eq:
  "registerUser db name =
     ((Database_set db (next_id db) \<lparr>username = name, msg_q = []\<rparr>)\<lparr>next_id := next_id db + 1\<rparr>,
      next_id db)"
  by (simp add: registerUser_def Database_set_def Let_def)

lemma user_ids_next_id [simp]: "user_ids (db\<lparr>next_id := n\<rparr>) = user_ids db"
  by (simp add: user_ids_def)

lemma Database_at_next_id [simp]: "Database_at (db\<lparr>next_id := n\<rparr>) = Database_at db"
  by (simp add: Database_at_def fun_eq_iff)

lemma length_user_map: "distinct (map fst (user_map db)) \<Longrightarrow> length (user_map db) = card (user_ids db)"
  by (metis distinct_card length_map list.set_map user_ids_def)

lemma db_full_iff: "db_inv db \<Longrightarrow> db_full db \<longleftrightarrow> user_ids db = UNIV"
proof -
  assume inv: "db_inv db"
  then have len: "length (user_map db) = card (user_ids db)"
    by (simp add: db_inv_def length_user_map)
  have all: "card (UNIV :: user_id_t set) = 2 ^ 32"
    by (simp add: card_word)
  show ?thesis
  proof
    assume "db_full db"
    then have "card (user_ids db) = card (UNIV :: user_id_t set)"
      using len all by (simp add: db_full_def)
    then show "user_ids db = UNIV"
      by (intro card_subset_eq) auto
  next
    assume "user_ids db = UNIV"
    then show "db_full db"
      using len all by (simp add: db_full_def)
  qed
qed

lemma ids_after_register:
  fixes n :: user_id_t
  shows "insert n {k. k < n} = {k. k < n + 1} \<or> insert n {k. k < n} = UNIV"
proof (cases "n + 1 = 0")
  case True
  then have "n = - 1"
    by (simp add: eq_neg_iff_add_eq_0)
  then have "insert n {k. k < n} = UNIV"
    by (auto simp: less_le)
  then show ?thesis ..
next
  case False
  then have "unat (n + 1) = Suc (unat n)"
    using unatSuc [of n] by (simp add: add.commute)
  then have "\<And>k. k < n + 1 \<longleftrightarrow> k < n \<or> k = n"
    by (auto simp: word_less_nat_alt less_Suc_eq word_unat_eq_iff)
  then show ?thesis by auto
qed

lemma db_inv_init: "db_inv Database_init"
  by (simp add: db_inv_def Database_init_def user_ids_def)

lemma db_inv_register: "db_inv db \<Longrightarrow> db_inv (fst (registerUser db name))"
proof -
  assume inv: "db_inv db"
  then have "user_ids db = {k. k < next_id db} \<or> user_ids db = UNIV"
    by (simp add: db_inv_def)
  then have "insert (next_id db) (user_ids db) = {k. k < next_id db + 1}
           \<or> insert (next_id db) (user_ids db) = UNIV"
    using ids_after_register [of "next_id db"] by auto
  with inv show ?thesis
    using distinct_set [of db "next_id db" "\<lparr>username = name, msg_q = []\<rparr>"]
    by (simp add: db_inv_def registerUser_eq)
qed

lemma register_fresh_id: "db_inv db \<Longrightarrow> \<not> db_full db \<Longrightarrow> next_id db \<notin> user_ids db"
  by (auto simp: db_full_iff db_inv_def)

text \<open>The laws of the mailbox and of the registry hold for the database.\<close>

interpretation db: registry db_inv userExists inbox_of queueMsg clearMsgs
    db_full registerUser name_in
proof unfold_locales
  fix s :: Database and k j :: user_id_t and m :: Msg and n :: string
  show "db_inv s \<Longrightarrow> db_inv (fst (queueMsg s k m))"
    by (simp add: queueMsg_eq db_inv_set userExists_iff)
  show "snd (queueMsg s k m) \<longleftrightarrow> userExists s k"
    by (simp add: queueMsg_eq)
  show "userExists (fst (queueMsg s k m)) j \<longleftrightarrow> userExists s j"
    by (auto simp: queueMsg_eq userExists_iff)
  show "\<not> userExists s k \<Longrightarrow> fst (queueMsg s k m) = s"
    by (simp add: queueMsg_eq)
  show "userExists s k \<Longrightarrow>
      inbox_of (fst (queueMsg s k m)) j = inbox_of s j @ (if j = k then [m] else [])"
    by (simp add: queueMsg_eq inbox_of_def)
  show "db_inv s \<Longrightarrow> userExists s k \<Longrightarrow> db_inv (clearMsgs s k)"
    by (simp add: clearMsgs_def db_inv_set userExists_iff)
  show "userExists s k \<Longrightarrow> userExists (clearMsgs s k) j \<longleftrightarrow> userExists s j"
    by (auto simp: clearMsgs_def userExists_iff)
  show "userExists s k \<Longrightarrow> inbox_of (clearMsgs s k) j = (if j = k then [] else inbox_of s j)"
    by (simp add: clearMsgs_def inbox_of_def)
  show "db_inv s \<Longrightarrow> db_inv (fst (registerUser s n))"
    by (rule db_inv_register)
  show "db_inv s \<Longrightarrow> \<not> db_full s \<Longrightarrow> \<not> userExists s (snd (registerUser s n))"
    by (simp add: registerUser_eq userExists_iff register_fresh_id)
  show "userExists (fst (registerUser s n)) j \<longleftrightarrow> userExists s j \<or> j = snd (registerUser s n)"
    by (auto simp: registerUser_eq userExists_iff)
  show "inbox_of (fst (registerUser s n)) j =
      (if j = snd (registerUser s n) then [] else inbox_of s j)"
    by (simp add: registerUser_eq inbox_of_def)
  show "name_in (fst (registerUser s n)) j =
      (if j = snd (registerUser s n) then n else name_in s j)"
    by (simp add: registerUser_eq name_in_def)
qed

section \<open>Runs of the database\<close>

text \<open>The operations the handlers perform, and the states they reach from the empty database.\<close>

datatype db_op = OpRegister string | OpQueue user_id_t Msg | OpClear user_id_t

text \<open>The handlers clear an inbox only after checking that the user exists.\<close>

fun db_step :: "Database \<Rightarrow> db_op \<Rightarrow> Database" where
  "db_step db (OpRegister name) = fst (registerUser db name)"
| "db_step db (OpQueue i m) = fst (queueMsg db i m)"
| "db_step db (OpClear i) = (if userExists db i then clearMsgs db i else db)"

lemma db_inv_step: "db_inv db \<Longrightarrow> db_inv (db_step db x)"
  by (cases x) (simp_all add: db.inv_register db.inv_enqueue db.inv_flush)

lemma db_inv_run: "db_inv db \<Longrightarrow> db_inv (foldl db_step db xs)"
  by (induction xs arbitrary: db) (simp_all add: db_inv_step)

lemma userExists_step: "userExists db i \<Longrightarrow> userExists (db_step db x) i"
  by (cases x) (simp_all add: db.known_register db.known_enqueue db.known_flush)

lemma userExists_run: "userExists db i \<Longrightarrow> userExists (foldl db_step db xs) i"
  by (induction xs arbitrary: db) (simp_all add: userExists_step)

text \<open>The ids handed out by a sequence of registrations.\<close>

fun register_all :: "Database \<Rightarrow> string list \<Rightarrow> Database \<times> user_id_t list" where
  "register_all db [] = (db, [])"
| "register_all db (n # ns) =
     (let (db1, i) = registerUser db n; (db2, is) = register_all db1 ns in (db2, i # is))"

lemma register_all_ids:
  "snd (register_all db ns) = map (\<lambda>j. next_id db + word_of_nat j) [0..<length ns]"
proof (induction ns arbitrary: db)
  case (Cons n ns)
  let ?db1 = "fst (registerUser db n)"
  have "next_id ?db1 = next_id db + 1"
    by (simp add: registerUser_eq)
  then have "snd (register_all db (n # ns)) =
      next_id db # map (\<lambda>j. next_id db + 1 + word_of_nat j) [0..<length ns]"
    using Cons [of ?db1] by (simp add: registerUser_eq case_prod_beta Let_def)
  also have "\<dots> = map (\<lambda>j. next_id db + word_of_nat j) (0 # map Suc [0..<length ns])"
    by (simp add: add.assoc)
  also have "0 # map Suc [0..<length ns] = [0..<length (n # ns)]"
    by (simp add: map_Suc_upt upt_conv_Cons del: upt_Suc)
  finally show ?case .
qed simp

lemma word_of_nat_inj_on: "n \<le> 2 ^ 32 \<Longrightarrow> inj_on (\<lambda>j. word_of_nat j :: u32) {0..<n}"
proof (rule inj_onI)
  fix i j :: nat
  assume "n \<le> 2 ^ 32" "i \<in> {0..<n}" "j \<in> {0..<n}" and eq: "(word_of_nat i :: u32) = word_of_nat j"
  then have "i < 4294967296" "j < 4294967296" by simp_all
  then have "i = unat (word_of_nat i :: u32)" "j = unat (word_of_nat j :: u32)"
    by (simp_all only: unat_of_nat_u32)
  with eq show "i = j" by metis
qed

section \<open>Range-for over the database\<close>

lemma for_each_from_drop:
  "p \<le> length es \<Longrightarrow> length es - p < fuel \<Longrightarrow>
   for_each_from fuel es \<lparr>it_pos = p\<rparr> body s = Some (Inr (foldl body s (drop p es)))"
proof (induction fuel arbitrary: p s)
  case (Suc fuel)
  show ?case
  proof (cases "p = length es")
    case True
    then show ?thesis by (simp add: ConstIterator_neq_def Database_end_def)
  next
    case False
    with Suc.prems have "p < length es" by simp
    then have "for_each_from (Suc fuel) es \<lparr>it_pos = p\<rparr> body s
        = for_each_from fuel es \<lparr>it_pos = Suc p\<rparr> body (body s (es ! p))"
      by (simp add: ConstIterator_neq_def Database_end_def ConstIterator_deref_def
          ConstIterator_next_def)
    also have "\<dots> = Some (Inr (foldl body (body s (es ! p)) (drop (Suc p) es)))"
      using Suc \<open>p < length es\<close> by simp
    also have "foldl body (body s (es ! p)) (drop (Suc p) es) = foldl body s (drop p es)"
      using \<open>p < length es\<close> by (simp add: Cons_nth_drop_Suc [symmetric])
    finally show ?thesis .
  qed
qed simp

lemma foldl_snoc: "foldl (\<lambda>acc e. acc @ [e]) acc es = acc @ es"
  by (induction es arbitrary: acc) auto

section \<open>Properties\<close>

text \<open>
  C17. Registering a user while ids are left gives an id nobody has, makes that user
  known with the given name and an empty inbox, changes no other user, and keeps
  the invariant.
\<close>

theorem registerUser_fresh:
  assumes "db_inv db" "\<not> db_full db" "registerUser db name = (db', i)"
  shows "\<not> userExists db i \<and> userExists db' i \<and> name_in db' i = name \<and> inbox_of db' i = []
    \<and> db_inv db'
    \<and> (\<forall>j. userExists db j \<longrightarrow> userExists db' j \<and> inbox_of db' j = inbox_of db j
              \<and> name_in db' j = name_in db j)"
proof -
  have [simp]: "fst (registerUser db name) = db'" "snd (registerUser db name) = i"
    using assms(3) by simp_all
  show ?thesis
    using assms(1,2) db.register_fresh [of db name] db.inv_register [of db name]
      db.known_register [of db name] db.inbox_register [of db name]
      db.name_register [of db name] db.register_keeps_users [of db _ name]
    by auto
qed

theorem registerUser_fresh_witness:
  "\<not> userExists Database_init 0
   \<and> name_in (fst (registerUser Database_init ''ann'')) 0 = ''ann''"
proof -
  have "\<not> db_full Database_init"
    by (simp add: db_full_def Database_init_def)
  moreover have "registerUser Database_init ''ann'' = (fst (registerUser Database_init ''ann''), 0)"
    by (simp add: registerUser_def Database_init_def Let_def)
  ultimately show ?thesis
    using registerUser_fresh [OF db_inv_init] by blast
qed

text \<open>
  The first \<open>n\<close> users registered, for \<open>n\<close> up to \<open>2 ^ 32\<close>, get the ids
  \<open>0, 1, ..., n - 1\<close> in order, all different.
\<close>

lemma register_all_distinct:
  assumes "length ns \<le> 2 ^ 32"
  shows "snd (register_all Database_init ns) = map word_of_nat [0..<length ns]
    \<and> distinct (snd (register_all Database_init ns))"
  using word_of_nat_inj_on [OF assms]
  by (simp add: register_all_ids distinct_map Database_init_def)

lemma register_all_distinct_example:
  "snd (register_all Database_init [''ann'', ''bob'']) = [0, 1]"
proof -
  have "length [''ann'', ''bob''] \<le> 2 ^ 32" by simp
  from register_all_distinct [OF this] show ?thesis by (simp add: upt_rec)
qed

text \<open>
  Once all ids are taken the counter has wrapped around: the next registration
  returns an id that already belongs to a user, drops that user's pending messages
  and replaces the name, and no id is added.
\<close>

lemma registerUser_wraps:
  assumes "db_inv db" "db_full db" "registerUser db name = (db', i)"
  shows "userExists db i \<and> name_in db' i = name \<and> inbox_of db' i = []
    \<and> user_ids db' = user_ids db"
proof -
  have "user_ids db = UNIV"
    using assms(1,2) by (simp add: db_full_iff)
  with assms(3) show ?thesis
    by (auto simp: registerUser_eq userExists_iff name_in_def inbox_of_def)
qed

definition crowded :: Database where
  "crowded = \<lparr>next_id = 0,
     user_map = map (\<lambda>j. (word_of_nat j, \<lparr>username = ''u'', msg_q = [\<lparr>sender_id = 0, msg = ''hi''\<rparr>]\<rparr>))
                  [0..<2 ^ 32]\<rparr>"

lemma crowded_full: "db_full crowded"
  by (simp add: db_full_def crowded_def)

lemma crowded_inv: "db_inv crowded"
proof -
  have keys: "map fst (user_map crowded) = map word_of_nat [0..<2 ^ 32]"
    by (simp add: crowded_def comp_def)
  have dist: "distinct (map fst (user_map crowded))"
    unfolding keys using word_of_nat_inj_on [of "2 ^ 32"] by (simp add: distinct_map)
  then have "card (user_ids crowded) = card (UNIV :: user_id_t set)"
    using length_user_map [of crowded] by (simp add: crowded_def card_word)
  then have "user_ids crowded = UNIV"
    by (intro card_subset_eq) auto
  with dist show ?thesis
    by (simp add: db_inv_def)
qed

lemma registerUser_wraps_example:
  "userExists crowded 0 \<and> inbox_of (fst (registerUser crowded ''eve'')) 0 = []"
proof -
  have "registerUser crowded ''eve'' = (fst (registerUser crowded ''eve''), 0)"
    by (simp add: registerUser_def crowded_def Let_def)
  from registerUser_wraps [OF crowded_inv crowded_full this] show ?thesis by simp
qed

text \<open>
  Messages are delivered in order: after any sequence of queueing operations, to
  any recipients, known or not, the inbox of a user holds what it held before,
  followed by exactly the messages addressed to that user, in the order they were
  queued.
\<close>

lemma queueMsg_fifo:
  assumes "userExists db j"
  shows "inbox_of (deliver queueMsg db ops) j = inbox_of db j @ addressed_to j ops"
  using assms by (rule db.inbox_deliver)

lemma queueMsg_fifo_example:
  "inbox_of (deliver queueMsg (fst (registerUser Database_init ''ann''))
      [(0, \<lparr>sender_id = 0, msg = ''a''\<rparr>), (7, \<lparr>sender_id = 0, msg = ''b''\<rparr>),
       (0, \<lparr>sender_id = 0, msg = ''c''\<rparr>)]) 0
   = [\<lparr>sender_id = 0, msg = ''a''\<rparr>, \<lparr>sender_id = 0, msg = ''c''\<rparr>]"
proof -
  let ?db = "fst (registerUser Database_init ''ann'')"
  have "userExists ?db 0" and box: "inbox_of ?db 0 = []"
    by (simp_all add: registerUser_def Database_init_def Let_def userExists_def inbox_of_def
        Database_at_def)
  from queueMsg_fifo [OF this(1)] show ?thesis
    by (simp add: box addressed_to_def del: deliver_Cons)
qed

text \<open>
  Every database the handlers can reach satisfies the invariant, and a user once
  registered is never removed by any further operation.
\<close>

lemma database_reachable:
  "db_inv (foldl db_step Database_init xs)
   \<and> user_ids (foldl db_step Database_init xs) \<subseteq> user_ids (foldl db_step Database_init (xs @ ys))"
proof -
  have "userExists (foldl db_step (foldl db_step Database_init xs) ys) i"
    if "userExists (foldl db_step Database_init xs) i" for i
    using that by (rule userExists_run)
  then show ?thesis
    by (auto simp: db_inv_run db_inv_init userExists_iff [symmetric])
qed

text \<open>
  The range-for loop over the database ends, dereferences only valid iterators,
  and visits every entry exactly once, in whatever order the container iterates.
\<close>

lemma for_each_visits_all:
  assumes "iteration_order iter"
  shows "\<exists>xs. for_each_from (Suc (length (user_map db))) (iter (user_map db))
               (Database_begin (iter (user_map db))) (\<lambda>acc e. acc @ [e]) [] = Some (Inr xs)
             \<and> mset xs = mset (user_map db)"
proof -
  have ms: "mset (iter (user_map db)) = mset (user_map db)"
    using assms by (simp add: iteration_order_def)
  then have "length (iter (user_map db)) = length (user_map db)"
    by (rule mset_eq_length)
  then have "for_each_from (Suc (length (user_map db))) (iter (user_map db))
      (Database_begin (iter (user_map db))) (\<lambda>acc e. acc @ [e]) []
      = Some (Inr (iter (user_map db)))"
    by (simp add: Database_begin_def for_each_from_drop foldl_snoc del: for_each_from.simps)
  with ms show ?thesis by blast
qed

lemma for_each_visits_all_example:
  "\<exists>xs. for_each_from 2 (rev (user_map (fst (registerUser Database_init ''ann''))))
          \<lparr>it_pos = 0\<rparr> (\<lambda>acc e. acc @ [e]) [] = Some (Inr xs)
        \<and> mset xs = {#(0, \<lparr>username = ''ann'', msg_q = []\<rparr>)#}"
proof -
  have "iteration_order rev" by (simp add: iteration_order_def)
  from for_each_visits_all [OF this, of "fst (registerUser Database_init ''ann'')"]
  show ?thesis
    by (simp add: registerUser_def Database_init_def Let_def Database_begin_def numeral_2_eq_2
        del: for_each_from.simps)
qed

text \<open>
  \<^verbatim>\<open>getUsername\<close> compares an iterator with itself, so it returns the empty string
  also for the user just registered, whatever the name.
\<close>

lemma getUsername_misses_name:
  "registerUser db name = (db', i) \<Longrightarrow> name \<noteq> [] \<Longrightarrow> getUsername db' i \<noteq> name_in db' i"
  by (auto simp: getUsername_def registerUser_eq name_in_def)

end
