(* ===== verification/Mcc_Spec.thy ===== *)
theory Mcc_Spec
  imports Database
begin

text \<open>
  The service the binary protocol provides, without bytes and buffers: requests,
  responses, and what the server does with each request. The byte layout of a
  request and of a response is given next to it, and the locale \<open>mcc_service\<close> is
  the contract a client relies on.
\<close>

section \<open>Requests and responses\<close>

datatype mcc_request =
    ReqRegister string
  | ReqUsers user_id_t
  | ReqSend user_id_t user_id_t string
  | ReqRecv user_id_t

datatype mcc_response =
    RegisterOk user_id_t
  | UsersErr
  | UsersOk "(user_id_t \<times> string) list"
  | SendResp SendStatus
  | RecvErr
  | RecvOk "Msg list"

definition other_users :: "user_id_t \<Rightarrow> (user_id_t \<times> UserMetadata) list \<Rightarrow> (user_id_t \<times> string) list" where
  "other_users i es = map (\<lambda>e. (fst e, username (snd e))) (filter (\<lambda>e. fst e \<noteq> i) es)"

fun serve ::
    "((user_id_t \<times> UserMetadata) list \<Rightarrow> (user_id_t \<times> UserMetadata) list) \<Rightarrow>
     Database \<Rightarrow> mcc_request \<Rightarrow> Database \<times> mcc_response" where
  "serve iter d (ReqRegister name) = (let (d', i) = registerUser d name in (d', RegisterOk i))"
| "serve iter d (ReqUsers i) =
     (d, if userExists d i then UsersOk (other_users i (iter (user_map d))) else UsersErr)"
| "serve iter d (ReqSend src trgt m) =
     (if \<not> userExists d src then (d, SendResp kErrSrcId)
      else if \<not> userExists d trgt then (d, SendResp kErrTrgtId)
      else (fst (queueMsg d trgt \<lparr>sender_id = src, msg = m\<rparr>), SendResp kSuccess))"
| "serve iter d (ReqRecv i) =
     (if userExists d i then (clearMsgs d i, RecvOk (inbox_of d i)) else (d, RecvErr))"

lemma serve_inv: "db_inv d \<Longrightarrow> db_inv (fst (serve iter d r))"
  by (cases r) (auto simp: case_prod_beta Let_def db_inv_register db.inv_enqueue db.inv_flush)

section \<open>Byte layout\<close>

fun request_bytes :: "mcc_request \<Rightarrow> bytes" where
  "request_bytes (ReqRegister name) =
     Header_bytes \<lparr>hdr_type = PacketType_code kRequestRegister, hdr_len = word_of_nat (length name)\<rparr>
       @ bytes_of_string name"
| "request_bytes (ReqUsers i) =
     Header_bytes \<lparr>hdr_type = PacketType_code kRequestUsers, hdr_len = 4\<rparr> @ le32 i"
| "request_bytes (ReqSend src trgt m) =
     Header_bytes \<lparr>hdr_type = PacketType_code kRequestSend, hdr_len = word_of_nat (8 + length m)\<rparr>
       @ le32 src @ le32 trgt @ bytes_of_string m"
| "request_bytes (ReqRecv i) =
     Header_bytes \<lparr>hdr_type = PacketType_code kRequestRecv, hdr_len = 4\<rparr> @ le32 i"

text \<open>
  Requests whose length field can hold the payload length; a send needs a
  message, since the server asserts that the payload is longer than the two ids.
\<close>

fun request_ok :: "mcc_request \<Rightarrow> bool" where
  "request_ok (ReqRegister name) \<longleftrightarrow> length name < 2 ^ 32"
| "request_ok (ReqUsers i) \<longleftrightarrow> True"
| "request_ok (ReqSend src trgt m) \<longleftrightarrow> m \<noteq> [] \<and> 8 + length m < 2 ^ 32"
| "request_ok (ReqRecv i) \<longleftrightarrow> True"

definition counted_entry :: "u32 \<Rightarrow> string \<Rightarrow> bytes" where
  "counted_entry i t = le32 i @ le32 (word_of_nat (length t)) @ bytes_of_string t"

definition users_payload :: "(user_id_t \<times> string) list \<Rightarrow> bytes" where
  "users_payload us = concat (map (\<lambda>(i, t). counted_entry i t) us)"

definition recv_payload :: "Msg list \<Rightarrow> bytes" where
  "recv_payload ms = concat (map (\<lambda>m. counted_entry (sender_id m) (msg m)) ms)"

text \<open>
  The payload of a response, and the value of its length field. For a non-empty
  list of users and for every list of messages the length field counts the
  header too (\<^verbatim>\<open>curr_payload_len\<close> and \<^verbatim>\<open>resp_pl\<close> start at \<^verbatim>\<open>sizeof(Header)\<close>).
\<close>

fun response_type :: "mcc_response \<Rightarrow> PacketType" where
  "response_type (RegisterOk i) = kRespRegister"
| "response_type UsersErr = kRespUsers"
| "response_type (UsersOk us) = kRespUsers"
| "response_type (SendResp st) = kRespSend"
| "response_type RecvErr = kRespRecv"
| "response_type (RecvOk ms) = kRespRecv"

fun response_payload :: "mcc_response \<Rightarrow> bytes" where
  "response_payload (RegisterOk i) = [0] @ le32 i"
| "response_payload UsersErr = [1]"
| "response_payload (UsersOk us) = [0] @ le32 (word_of_nat (length us)) @ users_payload us"
| "response_payload (SendResp st) = [SendStatus_code st]"
| "response_payload RecvErr = [1]"
| "response_payload (RecvOk ms) = [0] @ le32 (word_of_nat (length ms)) @ recv_payload ms"

fun counts_header :: "mcc_response \<Rightarrow> bool" where
  "counts_header (UsersOk us) \<longleftrightarrow> us \<noteq> []"
| "counts_header (RecvOk ms) \<longleftrightarrow> True"
| "counts_header _ \<longleftrightarrow> False"

definition response_len :: "mcc_response \<Rightarrow> length_t" where
  "response_len resp =
     word_of_nat (length (response_payload resp) + (if counts_header resp then 5 else 0))"

definition response_bytes :: "mcc_response \<Rightarrow> bytes" where
  "response_bytes resp =
     Header_bytes \<lparr>hdr_type = PacketType_code (response_type resp), hdr_len = response_len resp\<rparr>
       @ response_payload resp"

text \<open>The size a handler returns: the header and whatever the length field says.\<close>

definition response_size :: "mcc_response \<Rightarrow> nat" where
  "response_size resp = 5 + unat (response_len resp)"

lemma length_response_bytes: "length (response_bytes resp) = 5 + length (response_payload resp)"
  by (simp add: response_bytes_def)

text \<open>Responses whose counts and lengths fit their 32-bit fields.\<close>

fun response_ok :: "mcc_response \<Rightarrow> bool" where
  "response_ok (UsersOk us) \<longleftrightarrow>
     length us < 2 ^ 32 \<and> list_all (\<lambda>u. length (snd u) < 2 ^ 32) us"
| "response_ok (RecvOk ms) \<longleftrightarrow>
     length ms < 2 ^ 32 \<and> list_all (\<lambda>m. length (msg m) < 2 ^ 32) ms"
| "response_ok _ \<longleftrightarrow> True"

lemma response_size_exact:
  assumes "length (response_payload resp) + 5 < 2 ^ 32"
  shows "response_size resp =
    length (response_bytes resp) + (if counts_header resp then 5 else 0)"
  using assms by (auto simp: response_size_def response_len_def length_response_bytes
      simp del: of_nat_add of_nat_numeral)

section \<open>The service contract\<close>

text \<open>
  A server answers every well-formed request that sits at the front of its receive
  memory with the response the service prescribes, provided the response fits its
  transmit buffer \<open>out\<close>.
\<close>

locale mcc_service =
  fixes inv :: "'s \<Rightarrow> bool"
    and view :: "'s \<Rightarrow> Database"
    and out :: "'s \<Rightarrow> bytes"
    and respond :: "'s \<Rightarrow> bytes \<Rightarrow> ('s \<times> nat) result"
    and iter :: "(user_id_t \<times> UserMetadata) list \<Rightarrow> (user_id_t \<times> UserMetadata) list"
  assumes respond_serves:
    "\<lbrakk>inv s; request_ok r; serve iter (view s) r = (d, resp); response_ok resp;
      length (response_bytes resp) \<le> length (out s)\<rbrakk> \<Longrightarrow>
     \<exists>s' rest'. respond s (request_bytes r @ rest) = Inr (s', response_size resp)
       \<and> inv s' \<and> view s' = d \<and> length (out s') = length (out s)
       \<and> out s' = response_bytes resp @ rest'"

end
