(* ===== verification/Packet.thy ===== *)
theory Packet
  imports Common
begin

text \<open>
  \<^verbatim>\<open>common/packet.proto\<close>: the messages of the protocol-buffer protocol, one record
  per message with an option for each optional field (field presence) and a list
  for each repeated one, and the accessors of the generated API that the program
  calls: an accessor of an unset field reads the default instance.

  The serialiser and the parser come from the protocol-buffer library, which is
  not part of the repository: the components take them as arguments, and the
  locale \<open>packet_codec\<close> states what they rely on.
\<close>

section \<open>Messages\<close>

text \<open>
  An enumeration of proto3 is open: a value without a name is kept, here as
  \<open>PACKET_TYPE_OTHER\<close>.
\<close>

datatype mcc_PacketType =
    PACKET_TYPE_REQUEST_REGISTER
  | PACKET_TYPE_REQUEST_USERS
  | PACKET_TYPE_REQUEST_SEND
  | PACKET_TYPE_REQUEST_RECV
  | PACKET_TYPE_RESP_REGISTER
  | PACKET_TYPE_RESP_USERS
  | PACKET_TYPE_RESP_SEND
  | PACKET_TYPE_RESP_RECV
  | PACKET_TYPE_OTHER u32

record OnlineUser =
  ou_user_id :: "u32 option"
  ou_username :: "string option"

record mcc_Header =
  hdr_packet_type :: "mcc_PacketType option"

record UserMessage =
  um_user_id :: "u32 option"
  um_message :: "string option"

record RequestRegister =
  reg_username :: "string option"

record RequestUsers =
  users_requestor_id :: "u32 option"

record RequestSend =
  send_source_id :: "u32 option"
  send_target_id :: "u32 option"
  send_message :: "string option"

record RequestRecv =
  recv_requestor_id :: "u32 option"

record RespRegister =
  reg_resp_value :: "u32 option"
  reg_assigned_id :: "u32 option"

record RespUsers =
  users_resp_value :: "u32 option"
  users_online_users :: "OnlineUser list"

record RespSend =
  send_resp_value :: "u32 option"

record RespRecv =
  recv_resp_value :: "u32 option"
  recv_messages :: "UserMessage list"

record Packet =
  hdr :: "mcc_Header option"
  req_reg :: "RequestRegister option"
  req_users :: "RequestUsers option"
  req_send :: "RequestSend option"
  req_recv :: "RequestRecv option"
  resp_reg :: "RespRegister option"
  resp_users :: "RespUsers option"
  resp_send :: "RespSend option"
  resp_recv :: "RespRecv option"

section \<open>Default instances and accessors\<close>

definition get_or :: "'a \<Rightarrow> 'a option \<Rightarrow> 'a" where
  "get_or d x = (case x of None \<Rightarrow> d | Some v \<Rightarrow> v)"

lemma get_or_simps [simp]: "get_or d None = d" "get_or d (Some v) = v"
  by (simp_all add: get_or_def)

definition Packet_empty :: Packet where
  "Packet_empty = \<lparr>hdr = None, req_reg = None, req_users = None, req_send = None,
     req_recv = None, resp_reg = None, resp_users = None, resp_send = None, resp_recv = None\<rparr>"

text \<open>\<^verbatim>\<open>mutable_hdr()->set_packet_type(t)\<close> on a packet whose header is unset.\<close>

definition Packet_of_type :: "mcc_PacketType \<Rightarrow> Packet" where
  "Packet_of_type t = Packet_empty\<lparr>hdr := Some \<lparr>hdr_packet_type = Some t\<rparr>\<rparr>"

text \<open>\<^verbatim>\<open>packet.hdr().packet_type()\<close>: the first enumerator when anything is missing.\<close>

definition packet_type_of :: "mcc_Header \<Rightarrow> mcc_PacketType" where
  "packet_type_of h = get_or PACKET_TYPE_REQUEST_REGISTER (hdr_packet_type h)"

definition packet_type :: "Packet \<Rightarrow> mcc_PacketType" where
  "packet_type p = packet_type_of (get_or \<lparr>hdr_packet_type = None\<rparr> (hdr p))"

definition get_req_reg :: "Packet \<Rightarrow> RequestRegister" where
  "get_req_reg p = get_or \<lparr>reg_username = None\<rparr> (req_reg p)"

definition get_req_users :: "Packet \<Rightarrow> RequestUsers" where
  "get_req_users p = get_or \<lparr>users_requestor_id = None\<rparr> (req_users p)"

definition get_req_recv :: "Packet \<Rightarrow> RequestRecv" where
  "get_req_recv p = get_or \<lparr>recv_requestor_id = None\<rparr> (req_recv p)"

definition get_resp_reg :: "Packet \<Rightarrow> RespRegister" where
  "get_resp_reg p = get_or \<lparr>reg_resp_value = None, reg_assigned_id = None\<rparr> (resp_reg p)"

definition get_resp_users :: "Packet \<Rightarrow> RespUsers" where
  "get_resp_users p = get_or \<lparr>users_resp_value = None, users_online_users = []\<rparr> (resp_users p)"

definition get_resp_send :: "Packet \<Rightarrow> RespSend" where
  "get_resp_send p = get_or \<lparr>send_resp_value = None\<rparr> (resp_send p)"

definition get_resp_recv :: "Packet \<Rightarrow> RespRecv" where
  "get_resp_recv p = get_or \<lparr>recv_resp_value = None, recv_messages = []\<rparr> (resp_recv p)"

lemmas packet_accessors =
  packet_type_def packet_type_of_def get_req_reg_def get_req_users_def get_req_recv_def
  get_resp_reg_def get_resp_users_def get_resp_send_def get_resp_recv_def
  Packet_of_type_def Packet_empty_def

section \<open>The library's codec\<close>

text \<open>
  \<open>ser p\<close> is what \<^verbatim>\<open>SerializeToArray\<close> writes, so that \<^verbatim>\<open>ByteSizeLong\<close> is its length,
  and \<open>parse bs\<close> is the content of the message after \<^verbatim>\<open>ParseFromArray\<close> on these bytes
  (the program never reads the returned flag). Every receiver of the program hands
  its whole, zero-filled buffer to the parser: a zero tag ends a message, so the
  padding adds no field.
\<close>

locale packet_codec =
  fixes ser :: "Packet \<Rightarrow> bytes"
    and parse :: "bytes \<Rightarrow> Packet"
    and wf_packet :: "Packet \<Rightarrow> bool"
  assumes parse_padded: "wf_packet p \<Longrightarrow> parse (ser p @ replicate k 0) = p"
    and ser_nonempty: "wf_packet p \<Longrightarrow> hdr p \<noteq> None \<Longrightarrow> ser p \<noteq> []"
begin

lemma parse_ser: "wf_packet p \<Longrightarrow> parse (ser p) = p"
  using parse_padded [of p 0] by simp

lemma ser_inject: "wf_packet p \<Longrightarrow> wf_packet q \<Longrightarrow> ser p = ser q \<longleftrightarrow> p = q"
  by (metis parse_ser)

end

text \<open>
  \<^verbatim>\<open>SerializeToArray(buf, capacity)\<close> writes the message at the start of the array when
  it fits the capacity and otherwise writes nothing and returns false.
\<close>

definition SerializeToArray :: "(Packet \<Rightarrow> bytes) \<Rightarrow> Packet \<Rightarrow> bytes \<Rightarrow> bytes \<times> bool" where
  "SerializeToArray ser p buf =
     (if length (ser p) \<le> length buf then (ser p @ drop (length (ser p)) buf, True)
      else (buf, False))"

definition ByteSizeLong :: "(Packet \<Rightarrow> bytes) \<Rightarrow> Packet \<Rightarrow> nat" where
  "ByteSizeLong ser p = length (ser p)"

lemma SerializeToArray_fits:
  "length (ser p) \<le> length buf \<Longrightarrow>
   SerializeToArray ser p buf = (ser p @ drop (length (ser p)) buf, True)"
  by (simp add: SerializeToArray_def)

lemma length_SerializeToArray [simp]: "length (fst (SerializeToArray ser p buf)) = length buf"
  by (simp add: SerializeToArray_def)

end
