(* ===== verification/Mcc_Server.thy ===== *)
theory Mcc_Server
  imports Mcc_Spec Packet
begin

text \<open>
  \<^verbatim>\<open>server/server.h\<close> and \<^verbatim>\<open>server/server.cpp\<close>: the server side of the binary protocol.
  A handler reads the request from the memory behind its \<^verbatim>\<open>data\<close> pointer, updates
  the database, writes the response into \<open>tx_buffer\<close> and returns its size. The
  result is a fault where the code reads or writes outside its buffers or fails an
  assertion. \<open>log\<close> holds the lines written to \<^verbatim>\<open>cout\<close> and \<^verbatim>\<open>cerr\<close>.
\<close>

section \<open>State\<close>

record MccServer =
  db :: Database
  tx_buffer :: bytes
  log :: "string list"

definition MccServer_new :: "Database \<Rightarrow> bytes \<Rightarrow> MccServer" where
  [simp]: "MccServer_new d buf = \<lparr>db = d, tx_buffer = buf, log = []\<rparr>"

definition log_line :: "string \<Rightarrow> MccServer \<Rightarrow> MccServer" where
  "log_line l s = s\<lparr>log := log s @ [l]\<rparr>"

section \<open>Register\<close>

text \<open>The response both register handlers build: header, response value, id.\<close>

definition register_reply :: "MccServer \<Rightarrow> user_id_t \<Rightarrow> (MccServer \<times> nat) result" where
  "register_reply s i =
     (let resp_value = (0 :: byte);
          payload_size = (1 + 4 :: length_t);
          resp_hdr = \<lparr>hdr_type = PacketType_code kRespRegister, hdr_len = payload_size\<rparr>
      in rbind (put (tx_buffer s, 0) (Header_bytes resp_hdr)) (\<lambda>dest.
         rbind (put dest [resp_value]) (\<lambda>dest.
         rbind (put dest (le32 i)) (\<lambda>dest.
         Inr (s\<lparr>tx_buffer := fst dest\<rparr>, sizeof_Header + unat payload_size)))))"

definition parseRequestRegister ::
    "MccServer \<Rightarrow> bytes \<Rightarrow> length_t \<Rightarrow> (MccServer \<times> nat) result" where
  "parseRequestRegister s data payload_len =
     rbind (load_at data 0 (unat payload_len)) (\<lambda>raw.
     let (db', i) = registerUser (db s) (string_of_bytes raw)
     in register_reply (s\<lparr>db := db'\<rparr>) i)"

text \<open>
  \<^verbatim>\<open>ParseFromIstream\<close> of the library: the flag, the message, and what is left in the
  stream. Neither error message stops the handler.
\<close>

definition parseRequestRegisterProto ::
    "(bytes \<Rightarrow> bool \<times> mcc_Header \<times> bytes) \<Rightarrow> (bytes \<Rightarrow> bool \<times> RequestRegister \<times> bytes) \<Rightarrow>
     MccServer \<Rightarrow> bytes \<Rightarrow> (MccServer \<times> nat) result" where
  "parseRequestRegisterProto parse_hdr parse_req s rx_buffer =
     (let (ok1, h, iss) = parse_hdr rx_buffer;
          s = (if \<not> ok1 then log_line ''ERR parsing from istream #1'' s else s);
          s = (if packet_type_of h \<noteq> PACKET_TYPE_REQUEST_REGISTER
               then log_line ''ERR: packet type does not match intended.'' s else s);
          (ok2, req, iss) = parse_req iss;
          s = (if \<not> ok2 then log_line ''ERR parsing from istream #2'' s else s);
          s = (if reg_username req = None then log_line ''ERR: NO USERNAME'' s else s);
          name = get_or [] (reg_username req);
          s = log_line (''username received; '' @ name) s;
          (db', i) = registerUser (db s) name
      in register_reply (s\<lparr>db := db'\<rparr>) i)"

section \<open>Users\<close>

text \<open>The loop over the database: the write position and \<^verbatim>\<open>curr_payload_len\<close>.\<close>

fun users_loop ::
    "user_id_t \<Rightarrow> (user_id_t \<times> UserMetadata) list \<Rightarrow> byte cursor \<times> length_t \<Rightarrow>
     (byte cursor \<times> length_t) result" where
  "users_loop i [] st = Inr st"
| "users_loop i (e # es) (dest, curr_payload_len) =
     (if fst e = i then users_loop i es (dest, curr_payload_len)
      else rbind (put dest (le32 (fst e))) (\<lambda>dest.
           rbind (put dest (le32 (word_of_nat (length (username (snd e)))))) (\<lambda>dest.
           rbind (put dest (bytes_of_string (username (snd e)))) (\<lambda>dest.
           users_loop i es
             (dest, curr_payload_len + word_of_nat (4 + 4 + length (username (snd e))))))))"

definition parseRequestUsers ::
    "((user_id_t \<times> UserMetadata) list \<Rightarrow> (user_id_t \<times> UserMetadata) list) \<Rightarrow>
     MccServer \<Rightarrow> bytes \<Rightarrow> length_t \<Rightarrow> (MccServer \<times> nat) result" where
  "parseRequestUsers iter s data payload_len =
     (if payload_len \<noteq> 4 then Inl AssertFailure else
      rbind (load32 data 0) (\<lambda>i.
      let dest = (tx_buffer s, 0) in
      if \<not> userExists (db s) i then
        let resp_value = (1 :: byte); resp_len = (1 :: length_t)
        in rbind (put dest (Header_bytes
                    \<lparr>hdr_type = PacketType_code kRespUsers, hdr_len = resp_len\<rparr>)) (\<lambda>dest.
           rbind (put dest [resp_value]) (\<lambda>dest.
           Inr (s\<lparr>tx_buffer := fst dest\<rparr>, sizeof_Header + unat resp_len)))
      else
      let resp_value = (0 :: byte);
          num_users = getNumUsers (db s) - 1
      in if num_users = 0 then
           let resp_len = (1 + 4 :: length_t)
           in rbind (put dest (Header_bytes
                       \<lparr>hdr_type = PacketType_code kRespUsers, hdr_len = resp_len\<rparr>)) (\<lambda>dest.
              rbind (put dest [resp_value]) (\<lambda>dest.
              rbind (put dest (le32 num_users)) (\<lambda>dest.
              Inr (s\<lparr>tx_buffer := fst dest\<rparr>, sizeof_Header + unat resp_len))))
         else
           let curr_payload_len = (word_of_nat sizeof_Header :: length_t);
               dest = skip dest sizeof_Header
           in rbind (put dest [resp_value]) (\<lambda>dest.
              rbind (put dest (le32 num_users)) (\<lambda>dest.
              rbind (users_loop i (iter (user_map (db s))) (dest, curr_payload_len + 1 + 4))
                (\<lambda>(dest, curr_payload_len).
              rbind (store_at (fst dest) 0 (Header_bytes
                       \<lparr>hdr_type = PacketType_code kRespUsers, hdr_len = curr_payload_len\<rparr>)) (\<lambda>buf.
              Inr (s\<lparr>tx_buffer := buf\<rparr>, sizeof_Header + unat curr_payload_len)))))))"

section \<open>Send\<close>

definition parseRequestSend ::
    "MccServer \<Rightarrow> bytes \<Rightarrow> length_t \<Rightarrow> (MccServer \<times> nat) result" where
  "parseRequestSend s data payload_len =
     (if \<not> 4 * 2 < unat payload_len then Inl AssertFailure else
      let msg_len = unat payload_len - 4 * 2 in
      rbind (load32 data 0) (\<lambda>source_id.
      rbind (load32 data 4) (\<lambda>target_id.
      rbind (load_at data 8 msg_len) (\<lambda>raw.
      let m = string_of_bytes raw;
          s = log_line (''Received message : '' @ m) s;
          s = log_line (''From: '' @ show_u32 source_id @ '', for: '' @ show_u32 target_id) s;
          (resp_value, db') =
            (if \<not> userExists (db s) source_id then (1 :: byte, db s)
             else if \<not> userExists (db s) target_id then (2, db s)
             else (0, fst (queueMsg (db s) target_id \<lparr>sender_id = source_id, msg = m\<rparr>)))
      in rbind (put (tx_buffer s, 0) (Header_bytes
                  \<lparr>hdr_type = PacketType_code kRespSend, hdr_len = 1\<rparr>)) (\<lambda>dest.
         rbind (put dest [resp_value]) (\<lambda>dest.
         Inr (s\<lparr>db := db', tx_buffer := fst dest\<rparr>, sizeof_Header + 1)))))))"

section \<open>Receive\<close>

text \<open>The loop over the inbox. \<^verbatim>\<open>msg_len\<close> is the size of the message as a \<^verbatim>\<open>uint32_t\<close>.\<close>

fun recv_loop ::
    "Msg list \<Rightarrow> byte cursor \<times> length_t \<Rightarrow> (byte cursor \<times> length_t) result" where
  "recv_loop [] st = Inr st"
| "recv_loop (m # ms) (dest, resp_pl) =
     (let msg_len = word_of_nat (length (msg m)) :: u32
      in rbind (put dest (le32 (sender_id m))) (\<lambda>dest.
         rbind (put dest (le32 msg_len)) (\<lambda>dest.
         rbind (put dest (take (unat msg_len) (bytes_of_string (msg m)))) (\<lambda>dest.
         recv_loop ms (dest, resp_pl + 4 + 4 + msg_len)))))"

definition parseRequestRecv ::
    "MccServer \<Rightarrow> bytes \<Rightarrow> length_t \<Rightarrow> (MccServer \<times> nat) result" where
  "parseRequestRecv s data payload_len =
     (if payload_len \<noteq> 4 then Inl AssertFailure else
      rbind (load32 data 0) (\<lambda>i.
      let dest = (tx_buffer s, 0) in
      if \<not> userExists (db s) i then
        let resp_value = (1 :: byte); resp_len = (1 :: length_t)
        in rbind (put dest (Header_bytes
                    \<lparr>hdr_type = PacketType_code kRespRecv, hdr_len = resp_len\<rparr>)) (\<lambda>dest.
           rbind (put dest [resp_value]) (\<lambda>dest.
           Inr (s\<lparr>tx_buffer := fst dest\<rparr>, sizeof_Header + unat resp_len)))
      else
      let resp_pl = (0 :: length_t);
          dest = skip dest sizeof_Header;
          resp_pl = resp_pl + word_of_nat sizeof_Header;
          resp_value = (0 :: byte);
          num_messages = word_of_nat (length (msg_q (Database_at (db s) i))) :: u32
      in rbind (put dest [resp_value]) (\<lambda>dest.
         rbind (put dest (le32 num_messages)) (\<lambda>dest.
         rbind (recv_loop (msg_q (Database_at (db s) i)) (dest, resp_pl + 1 + 4))
           (\<lambda>(dest, resp_pl).
         rbind (store_at (fst dest) 0 (Header_bytes
                  \<lparr>hdr_type = PacketType_code kRespRecv, hdr_len = resp_pl\<rparr>)) (\<lambda>buf.
         Inr (s\<lparr>db := clearMsgs (db s) i, tx_buffer := buf\<rparr>, sizeof_Header + unat resp_pl)))))))"

section \<open>Dispatch\<close>

text \<open>
  The response types fall through to \<^verbatim>\<open>default\<close>, which treats the packet as a
  protocol-buffer registration.
\<close>

definition parse ::
    "(bytes \<Rightarrow> bool \<times> mcc_Header \<times> bytes) \<Rightarrow> (bytes \<Rightarrow> bool \<times> RequestRegister \<times> bytes) \<Rightarrow>
     ((user_id_t \<times> UserMetadata) list \<Rightarrow> (user_id_t \<times> UserMetadata) list) \<Rightarrow>
     MccServer \<Rightarrow> bytes \<Rightarrow> nat \<Rightarrow> (MccServer \<times> nat) result" where
  "parse parse_hdr parse_req iter s data sz =
     rbind (load_Header data 0) (\<lambda>h.
     let payload = drop sizeof_Header data;
         unknown = (\<lambda>s. let s = log_line ''ERR: Server received unknown packet type '' s
                        in rbind (load_at data 0 sz) (\<lambda>rx_buffer.
                           parseRequestRegisterProto parse_hdr parse_req s rx_buffer))
     in case PacketType_of (hdr_type h) of
          Some kRequestRegister \<Rightarrow> parseRequestRegister s payload (hdr_len h)
        | Some kRequestUsers \<Rightarrow> parseRequestUsers iter s payload (hdr_len h)
        | Some kRequestSend \<Rightarrow> parseRequestSend s payload (hdr_len h)
        | Some kRequestRecv \<Rightarrow> parseRequestRecv s payload (hdr_len h)
        | None \<Rightarrow> unknown s
        | Some _ \<Rightarrow> unknown (log_line ''ERR: Server received packet type meant for client'' s))"

section \<open>Closed forms of the handlers\<close>

lemma log_line_sel [simp]:
  "db (log_line l s) = db s" "tx_buffer (log_line l s) = tx_buffer s"
  "log (log_line l s) = log s @ [l]"
  by (simp_all add: log_line_def)

definition register_resp :: "user_id_t \<Rightarrow> bytes" where
  "register_resp i =
     Header_bytes \<lparr>hdr_type = PacketType_code kRespRegister, hdr_len = 5\<rparr> @ [0] @ le32 i"

lemma length_register_resp [simp]: "length (register_resp i) = 10"
  by (simp add: register_resp_def)

lemma register_reply_eq [handler_simps]:
  "register_reply s i =
     (if 10 \<le> length (tx_buffer s)
      then Inr (s\<lparr>tx_buffer := sent (register_resp i) (tx_buffer s)\<rparr>, 10)
      else Inl OutOfBounds)"
  by (simp add: register_reply_def Let_def buffer_simps sizeof_Header_def)
    (simp add: handler_simps register_resp_def)

text \<open>The body of a users response: the entries of the other users, in iteration order.\<close>

definition users_entry :: "user_id_t \<times> UserMetadata \<Rightarrow> bytes" where
  "users_entry e = le32 (fst e) @ le32 (word_of_nat (length (username (snd e))))
                     @ bytes_of_string (username (snd e))"

definition users_body :: "user_id_t \<Rightarrow> (user_id_t \<times> UserMetadata) list \<Rightarrow> bytes" where
  "users_body i es = concat (map users_entry (filter (\<lambda>e. fst e \<noteq> i) es))"

lemma users_body_simps [simp]:
  "users_body i [] = []"
  "users_body i (e # es) = (if fst e = i then [] else users_entry e) @ users_body i es"
  by (simp_all add: users_body_def)

lemma length_users_entry: "length (users_entry e) = 8 + length (username (snd e))"
  by (simp add: users_entry_def)

lemma users_loop_eq:
  "rbind (put c xs) (\<lambda>c. rbind (users_loop i es (c, n)) f) =
   rbind (put c (xs @ users_body i es))
     (\<lambda>c. f (c, n + word_of_nat (length (users_body i es))))"
proof (induction es arbitrary: xs n)
  case (Cons e es)
  show ?case
  proof (cases "fst e = i")
    case False
    then have "rbind (put c xs) (\<lambda>c. rbind (users_loop i (e # es) (c, n)) f) =
        rbind (put c (xs @ users_entry e)) (\<lambda>c. rbind (users_loop i es
          (c, n + word_of_nat (4 + 4 + length (username (snd e))))) f)"
      by (simp add: rbind_assoc put_put_bind users_entry_def)
    with False show ?thesis
      unfolding Cons by (simp add: length_users_entry add.assoc)
  qed (simp add: Cons)
qed simp

definition recv_entry :: "Msg \<Rightarrow> bytes" where
  "recv_entry m = le32 (sender_id m) @ le32 (word_of_nat (length (msg m)))
     @ take (unat (word_of_nat (length (msg m)) :: u32)) (bytes_of_string (msg m))"

lemma length_recv_entry:
  "word_of_nat (length (recv_entry m)) = (4 + 4 + word_of_nat (length (msg m)) :: u32)"
proof -
  have "unat (word_of_nat (length (msg m)) :: u32) \<le> length (msg m)"
    by (simp add: unsigned_of_nat take_bit_nat_less_eq_self)
  then show ?thesis
    by (simp add: recv_entry_def min_absorb2)
qed

lemma recv_loop_eq:
  "rbind (put c xs) (\<lambda>c. rbind (recv_loop ms (c, n)) f) =
   rbind (put c (xs @ concat (map recv_entry ms)))
     (\<lambda>c. f (c, n + word_of_nat (length (concat (map recv_entry ms)))))"
proof (induction ms arbitrary: xs n)
  case (Cons m ms)
  have "rbind (put c xs) (\<lambda>c. rbind (recv_loop (m # ms) (c, n)) f) =
      rbind (put c (xs @ recv_entry m)) (\<lambda>c. rbind (recv_loop ms
        (c, n + 4 + 4 + word_of_nat (length (msg m)))) f)"
    by (simp add: rbind_assoc put_put_bind recv_entry_def Let_def)
  also have "\<dots> = rbind (put c ((xs @ recv_entry m) @ concat (map recv_entry ms)))
      (\<lambda>c. f (c, n + 4 + 4 + word_of_nat (length (msg m))
                   + word_of_nat (length (concat (map recv_entry ms)))))"
    by (rule Cons)
  finally show ?case
    by (simp add: length_recv_entry del: length_concat recv_loop.simps)
      (simp add: ac_simps del: length_concat recv_loop.simps)
qed simp

section \<open>The handlers implement the service\<close>

lemma users_body_payload: "users_body i es = users_payload (other_users i es)"
  by (simp add: users_body_def users_payload_def other_users_def users_entry_def [abs_def]
      counted_entry_def comp_def)

lemma recv_entry_counted:
  "length (msg m) < 2 ^ 32 \<Longrightarrow> recv_entry m = counted_entry (sender_id m) (msg m)"
  by (simp add: recv_entry_def counted_entry_def)

lemma recv_entries_payload:
  "list_all (\<lambda>m. length (msg m) < 2 ^ 32) ms \<Longrightarrow> concat (map recv_entry ms) = recv_payload ms"
  by (induction ms) (simp_all add: recv_payload_def recv_entry_counted)

text \<open>The number of other users, as the handler computes it.\<close>

lemma num_other_users:
  assumes "db_inv d" "userExists d i" "iteration_order iter"
  shows "getNumUsers d - 1 = word_of_nat (length (other_users i (iter (user_map d))))"
proof -
  let ?keep = "\<lambda>e. fst e \<noteq> i"
  have "mset (iter (user_map d)) = mset (user_map d)"
    using assms(3) by (simp add: iteration_order_def)
  then have "length (filter ?keep (iter (user_map d))) = length (filter ?keep (user_map d))"
    by (metis mset_filter size_mset)
  moreover have "length (filter (\<lambda>e. fst e = i) (user_map d)) = 1"
  proof -
    have "distinct (map fst (user_map d))" "i \<in> set (map fst (user_map d))"
      using assms(1,2) by (simp_all add: db_inv_def userExists_iff user_ids_def)
    then have "count_list (map fst (user_map d)) i = 1"
      by (simp add: distinct_count_atmost_1 count_mset [symmetric])
    then show ?thesis
      by (simp add: count_list_eq_length_filter filter_map comp_def eq_commute)
  qed
  ultimately have "length (user_map d) = Suc (length (other_users i (iter (user_map d))))"
    using sum_length_filter_compl [of ?keep "user_map d"] by (simp add: other_users_def)
  then show ?thesis
    by (simp add: getNumUsers_def)
qed

text \<open>
  One lemma per handler: on the payload of a well-formed request it succeeds
  exactly when the response fits the transmit buffer.
\<close>

definition answered :: "MccServer \<Rightarrow> Database \<Rightarrow> mcc_response \<Rightarrow> (MccServer \<times> nat) result \<Rightarrow> bool" where
  "answered s d resp res \<longleftrightarrow>
     (if length (response_bytes resp) \<le> length (tx_buffer s)
      then \<exists>s'. res = Inr (s', response_size resp) \<and> db s' = d
             \<and> tx_buffer s' = sent (response_bytes resp) (tx_buffer s)
      else res = Inl OutOfBounds)"

lemma parseRequestRegister_serves:
  assumes "length name < 2 ^ 32" "registerUser (db s) name = (d, i)"
  shows "answered s d (RegisterOk i)
    (parseRequestRegister s (bytes_of_string name @ rest) (word_of_nat (length name)))"
proof -
  have "response_bytes (RegisterOk i) = register_resp i"
    by (simp add: response_bytes_def register_resp_def response_len_def)
  with assms show ?thesis
    by (simp add: answered_def parseRequestRegister_def buffer_simps handler_simps
        response_size_def response_len_def)
qed

lemma store_header_after:
  "length h = 5 \<Longrightarrow>
   rbind (put (skip (buf, 0) 5) body) (\<lambda>c. rbind (store_at (fst c) 0 h) f) =
     (if 5 + length body \<le> length buf then f (sent (h @ body) buf) else Inl OutOfBounds)"
  by (simp add: rbind_assoc [symmetric] skip_def put_then_header sent_def)

lemma parseRequestUsers_unknown:
  assumes "\<not> userExists (db s) i"
  shows "answered s (db s) UsersErr (parseRequestUsers iter s (le32 i @ rest) 4)"
  using assms
  by (simp add: answered_def parseRequestUsers_def buffer_simps response_bytes_def response_len_def
      response_size_def sizeof_Header_def) (simp add: handler_simps)

lemma parseRequestUsers_alone:
  assumes "userExists (db s) i" "getNumUsers (db s) - 1 = 0"
  shows "answered s (db s) (UsersOk []) (parseRequestUsers iter s (le32 i @ rest) 4)"
  using assms
  by (simp add: answered_def parseRequestUsers_def buffer_simps response_bytes_def response_len_def
      response_size_def sizeof_Header_def users_payload_def) (simp add: handler_simps)

lemma parseRequestUsers_others:
  assumes "userExists (db s) i" "getNumUsers (db s) - 1 = word_of_nat (length us)"
    and "us = other_users i (iter (user_map (db s)))" "0 < length us" "length us < 2 ^ 32"
  shows "answered s (db s) (UsersOk us) (parseRequestUsers iter s (le32 i @ rest) 4)"
proof -
  let ?body = "[0] @ le32 (word_of_nat (length us)) @ users_payload us"
  let ?hdr = "Header_bytes \<lparr>hdr_type = PacketType_code kRespUsers,
                            hdr_len = 10 + word_of_nat (length (users_payload us))\<rparr>"
  have bytes: "response_bytes (UsersOk us) = ?hdr @ ?body"
    and len: "response_len (UsersOk us) = 10 + word_of_nat (length (users_payload us))"
    using assms(4) by (auto simp: response_bytes_def response_len_def)
  have "(word_of_nat (length us) :: u32) \<noteq> 0"
    using assms(4,5) by simp
  then have "parseRequestUsers iter s (le32 i @ rest) 4 =
      rbind (put (skip (tx_buffer s, 0) 5) ?body) (\<lambda>c.
      rbind (store_at (fst c) 0 ?hdr) (\<lambda>buf.
      Inr (s\<lparr>tx_buffer := buf\<rparr>, response_size (UsersOk us))))"
    using assms(1,2)
    by (simp add: parseRequestUsers_def buffer_simps Let_def users_loop_eq users_body_payload
        sizeof_Header_def response_size_def len assms(3) [symmetric])
  then show ?thesis
    by (simp add: store_header_after answered_def bytes)
qed

lemma parseRequestUsers_serves:
  assumes "db_inv (db s)" "iteration_order iter" "userExists (db s) i"
    and "us = other_users i (iter (user_map (db s)))" "length us < 2 ^ 32"
  shows "answered s (db s) (UsersOk us) (parseRequestUsers iter s (le32 i @ rest) 4)"
proof -
  have num: "getNumUsers (db s) - 1 = word_of_nat (length us)"
    using assms num_other_users by blast
  show ?thesis
  proof (cases "us = []")
    case True
    with num have "getNumUsers (db s) - 1 = 0" by simp
    with True assms(3) show ?thesis
      using parseRequestUsers_alone by blast
  next
    case False
    then have "0 < length us" by simp
    with assms(3,4,5) num show ?thesis
      using parseRequestUsers_others by blast
  qed
qed

lemma parseRequestSend_serves:
  assumes "m \<noteq> []" "8 + length m < 2 ^ 32"
  shows "answered s (fst (serve iter (db s) (ReqSend src trgt m)))
    (snd (serve iter (db s) (ReqSend src trgt m)))
    (parseRequestSend s (le32 src @ le32 trgt @ bytes_of_string m @ rest) (word_of_nat (8 + length m)))"
proof -
  have len: "unat (word_of_nat (8 + length m) :: u32) = 8 + length m"
    using assms(2) unat_of_nat_u32 [of "8 + length m"] by simp
  have d8: "load_at (le32 src @ le32 trgt @ bytes_of_string m @ rest) 8 (length m)
      = Inr (bytes_of_string m)"
    using load_at_append [of "le32 src @ le32 trgt" 8 "bytes_of_string m" "length m" rest] by simp
  have d4: "load32 (le32 src @ le32 trgt @ bytes_of_string m @ rest) 4 = Inr trgt"
    by (rule load32_le32) simp
  show ?thesis
    using assms(1)
    by (simp add: parseRequestSend_def len load32_le32_prefix d4 d8 buffer_simps del: of_nat_add)
      (simp add: handler_simps answered_def response_bytes_def response_len_def response_size_def
        sizeof_Header_def)
qed

lemma parseRequestRecv_unknown:
  assumes "\<not> userExists (db s) i"
  shows "answered s (db s) RecvErr (parseRequestRecv s (le32 i @ rest) 4)"
  using assms
  by (simp add: answered_def parseRequestRecv_def buffer_simps response_bytes_def response_len_def
      response_size_def sizeof_Header_def) (simp add: handler_simps)

lemma parseRequestRecv_serves:
  assumes "userExists (db s) i" "ms = inbox_of (db s) i"
    and "list_all (\<lambda>m. length (msg m) < 2 ^ 32) ms"
  shows "answered s (clearMsgs (db s) i) (RecvOk ms) (parseRequestRecv s (le32 i @ rest) 4)"
proof -
  let ?body = "[0] @ le32 (word_of_nat (length ms)) @ recv_payload ms"
  let ?hdr = "Header_bytes \<lparr>hdr_type = PacketType_code kRespRecv,
                            hdr_len = 10 + word_of_nat (length (recv_payload ms))\<rparr>"
  have bytes: "response_bytes (RecvOk ms) = ?hdr @ ?body"
    and len: "response_len (RecvOk ms) = 10 + word_of_nat (length (recv_payload ms))"
    by (auto simp: response_bytes_def response_len_def)
  have "parseRequestRecv s (le32 i @ rest) 4 =
      rbind (put (skip (tx_buffer s, 0) 5) ?body) (\<lambda>c.
      rbind (store_at (fst c) 0 ?hdr) (\<lambda>buf.
      Inr (s\<lparr>db := clearMsgs (db s) i, tx_buffer := buf\<rparr>, response_size (RecvOk ms))))"
    using assms(1)
    by (simp add: parseRequestRecv_def buffer_simps Let_def recv_loop_eq
        recv_entries_payload [OF assms(3)] sizeof_Header_def response_size_def len
        assms(2) [unfolded inbox_of_def, symmetric] del: length_concat)
  then show ?thesis
    by (simp add: store_header_after answered_def bytes)
qed

lemma parse_header:
  "parse ph pr iter s (Header_bytes h @ payload) sz =
     (let unknown = (\<lambda>s. rbind (load_at (Header_bytes h @ payload) 0 sz)
        (\<lambda>rx. parseRequestRegisterProto ph pr (log_line ''ERR: Server received unknown packet type '' s) rx))
      in case PacketType_of (hdr_type h) of
          Some kRequestRegister \<Rightarrow> parseRequestRegister s payload (hdr_len h)
        | Some kRequestUsers \<Rightarrow> parseRequestUsers iter s payload (hdr_len h)
        | Some kRequestSend \<Rightarrow> parseRequestSend s payload (hdr_len h)
        | Some kRequestRecv \<Rightarrow> parseRequestRecv s payload (hdr_len h)
        | None \<Rightarrow> unknown s
        | Some _ \<Rightarrow> unknown (log_line ''ERR: Server received packet type meant for client'' s))"
  by (simp add: parse_def codec_simps sizeof_Header_def Let_def)

lemma PacketType_of_requests [simp]:
  "PacketType_of 0 = Some kRequestRegister" "PacketType_of 1 = Some kRequestUsers"
  "PacketType_of 2 = Some kRequestSend" "PacketType_of 3 = Some kRequestRecv"
  using PacketType_of_code [of kRequestRegister] PacketType_of_code [of kRequestUsers]
    PacketType_of_code [of kRequestSend] PacketType_of_code [of kRequestRecv]
  by simp_all

text \<open>For a list of messages only the lengths of the texts matter, not their number.\<close>

fun entries_short :: "mcc_response \<Rightarrow> bool" where
  "entries_short (RecvOk ms) \<longleftrightarrow> list_all (\<lambda>m. length (msg m) < 2 ^ 32) ms"
| "entries_short resp \<longleftrightarrow> response_ok resp"

lemma response_ok_entries: "response_ok resp \<Longrightarrow> entries_short resp"
  by (cases resp) simp_all

lemma parse_serves_entries:
  assumes "db_inv (db s)" "iteration_order iter" "request_ok r"
    and "serve iter (db s) r = (d, resp)" "entries_short resp"
  shows "answered s d resp (parse ph pr iter s (request_bytes r @ rest) sz)"
proof (cases r)
  case (ReqRegister name)
  with assms parseRequestRegister_serves [of name s d] show ?thesis
    by (auto simp: parse_header split: prod.splits)
next
  case (ReqUsers i)
  with assms parseRequestUsers_serves [of s iter i] parseRequestUsers_unknown [of s i iter]
  show ?thesis
    by (auto simp: parse_header split: if_splits)
next
  case (ReqSend src trgt m)
  with assms parseRequestSend_serves [of m s iter src trgt rest] show ?thesis
    by (simp add: parse_header del: serve.simps of_nat_add)
next
  case (ReqRecv i)
  with assms parseRequestRecv_serves [of s i] parseRequestRecv_unknown [of s i]
  show ?thesis
    by (auto simp: parse_header split: if_splits)
qed

lemma parse_serves:
  assumes "db_inv (db s)" "iteration_order iter" "request_ok r"
    and "serve iter (db s) r = (d, resp)" "response_ok resp"
  shows "answered s d resp (parse ph pr iter s (request_bytes r @ rest) sz)"
  using assms parse_serves_entries response_ok_entries by blast

interpretation server: mcc_service "\<lambda>s. db_inv (db s) \<and> iteration_order iter" db
    tx_buffer "\<lambda>s data. parse ph pr iter s data sz" iter
  for ph pr iter sz
proof unfold_locales
  fix s :: MccServer and r d resp rest
  assume inv: "db_inv (db s) \<and> iteration_order iter" and r: "request_ok r"
    and srv: "serve iter (db s) r = (d, resp)" and ok: "response_ok resp"
    and room: "length (response_bytes resp) \<le> length (tx_buffer s)"
  from inv r srv ok have "answered s d resp (parse ph pr iter s (request_bytes r @ rest) sz)"
    by (intro parse_serves) simp_all
  with room obtain s' where s': "parse ph pr iter s (request_bytes r @ rest) sz = Inr (s', response_size resp)"
    "db s' = d" "tx_buffer s' = sent (response_bytes resp) (tx_buffer s)"
    by (auto simp: answered_def)
  moreover have "db_inv d"
    using inv serve_inv [of "db s" iter r] srv by simp
  ultimately show "\<exists>s' rest'. parse ph pr iter s (request_bytes r @ rest) sz = Inr (s', response_size resp)
      \<and> (db_inv (db s') \<and> iteration_order iter) \<and> db s' = d
      \<and> length (tx_buffer s') = length (tx_buffer s) \<and> tx_buffer s' = response_bytes resp @ rest'"
    using inv room by (auto simp: sent_def)
qed

section \<open>Effect of any packet on the database\<close>

text \<open>
  Whatever bytes arrive, a packet that is handled changes the database as one
  request of the service does.
\<close>

lemma register_reply_db: "register_reply s i = Inr (s', n) \<Longrightarrow> db s' = db s"
  by (auto simp: register_reply_eq split: if_splits)

lemma parseRequestRegister_db:
  "parseRequestRegister s data len = Inr (s', n) \<Longrightarrow> \<exists>name. db s' = fst (registerUser (db s) name)"
  by (auto simp: parseRequestRegister_def rbind_eq_Inr case_prod_beta Let_def
      dest!: register_reply_db)

definition proto_log :: "bool \<Rightarrow> mcc_Header \<Rightarrow> bool \<Rightarrow> RequestRegister \<Rightarrow> string list" where
  "proto_log ok1 h ok2 req =
     (if ok1 then [] else [''ERR parsing from istream #1'']) @
     (if packet_type_of h = PACKET_TYPE_REQUEST_REGISTER then []
      else [''ERR: packet type does not match intended.'']) @
     (if ok2 then [] else [''ERR parsing from istream #2'']) @
     (if reg_username req = None then [''ERR: NO USERNAME''] else []) @
     [''username received; '' @ get_or [] (reg_username req)]"

lemma parseRequestRegisterProto_eq:
  assumes "ph rx = (ok1, h, iss)" "pr iss = (ok2, req, iss')"
    and "registerUser (db s) (get_or [] (reg_username req)) = (d, i)"
  shows "parseRequestRegisterProto ph pr s rx =
    register_reply (s\<lparr>log := log s @ proto_log ok1 h ok2 req, db := d\<rparr>) i"
  using assms by (auto simp: parseRequestRegisterProto_def proto_log_def log_line_def Let_def)

lemma parseRequestRegisterProto_db:
  assumes "parseRequestRegisterProto ph pr s rx = Inr (s', n)"
  shows "\<exists>name. db s' = fst (registerUser (db s) name)"
proof -
  obtain ok1 h iss where ph: "ph rx = (ok1, h, iss)" by (cases "ph rx")
  obtain ok2 req iss' where pr: "pr iss = (ok2, req, iss')" by (cases "pr iss")
  obtain d i where reg: "registerUser (db s) (get_or [] (reg_username req)) = (d, i)" by force
  from assms have "db s' = d"
    by (auto simp: parseRequestRegisterProto_eq [where ph = ph and pr = pr, OF ph pr reg]
        dest: register_reply_db)
  with reg show ?thesis by (metis fst_conv)
qed

lemma parseRequestUsers_db: "parseRequestUsers iter s data len = Inr (s', n) \<Longrightarrow> db s' = db s"
  by (auto simp: parseRequestUsers_def rbind_eq_Inr Let_def split: if_splits)

lemma parseRequestSend_db:
  assumes "parseRequestSend s data len = Inr (s', n)"
  shows "\<exists>src trgt m. db s' = fst (serve iter (db s) (ReqSend src trgt m))"
proof -
  from assms obtain src trgt raw where l: "load32 data 0 = Inr src" "load32 data 4 = Inr trgt"
    "load_at data 8 (unat len - 8) = Inr raw"
    by (auto simp: parseRequestSend_def rbind_eq_Inr Let_def split: if_splits)
  with assms have "db s' = fst (serve iter (db s) (ReqSend src trgt (string_of_bytes raw)))"
    by (auto simp: parseRequestSend_def rbind_eq_Inr Let_def case_prod_beta split: if_splits)
  then show ?thesis by blast
qed

lemma parseRequestRecv_db:
  assumes "parseRequestRecv s data len = Inr (s', n)"
  shows "\<exists>i. db s' = fst (serve iter (db s) (ReqRecv i))"
proof -
  from assms obtain i where i: "load32 data 0 = Inr i"
    by (auto simp: parseRequestRecv_def rbind_eq_Inr split: if_splits)
  with assms have "db s' = fst (serve iter (db s) (ReqRecv i))"
    by (auto simp: parseRequestRecv_def rbind_eq_Inr Let_def split: if_splits)
  then show ?thesis by blast
qed

lemma serve_register_db: "fst (registerUser d name) = fst (serve iter d (ReqRegister name))"
  by (simp add: case_prod_beta)

lemma serve_users_db: "d = fst (serve iter d (ReqUsers 0))"
  by simp

lemma parse_db:
  assumes "parse ph pr iter s data sz = Inr (s', n)"
  shows "\<exists>r. db s' = fst (serve iter (db s) r)"
proof -
  from assms obtain h where h: "load_Header data 0 = Inr h"
    by (auto simp: parse_def rbind_eq_Inr)
  consider len payload where "parseRequestRegister s payload len = Inr (s', n)"
    | len payload where "parseRequestUsers iter s payload len = Inr (s', n)"
    | len payload where "parseRequestSend s payload len = Inr (s', n)"
    | len payload where "parseRequestRecv s payload len = Inr (s', n)"
    | s1 rx where "db s1 = db s" "parseRequestRegisterProto ph pr s1 rx = Inr (s', n)"
  proof (cases "PacketType_of (hdr_type h)")
    case None
    with assms show thesis
      by (auto simp: parse_def h Let_def rbind_eq_Inr intro!: that(5) [rotated])
  next
    case (Some t)
    with assms that(1-4) show thesis
      by (cases t) (auto simp: parse_def h Let_def rbind_eq_Inr intro!: that(5) [rotated])
  qed
  then show ?thesis
    using serve_register_db serve_users_db
    by cases (metis parseRequestRegister_db parseRequestUsers_db parseRequestSend_db
        parseRequestRecv_db parseRequestRegisterProto_db)+
qed

text \<open>Every message in an inbox comes from a registered user.\<close>

definition senders_known :: "Database \<Rightarrow> bool" where
  "senders_known d \<longleftrightarrow> (\<forall>i. \<forall>m \<in> set (inbox_of d i). userExists d (sender_id m))"

lemma senders_known_serve: "senders_known d \<Longrightarrow> senders_known (fst (serve iter d r))"
proof (cases r)
  case (ReqRegister name)
  then show "senders_known d \<Longrightarrow> ?thesis"
    by (auto simp: senders_known_def case_prod_beta db.known_register db.inbox_register)
next
  case (ReqSend src trgt m)
  then show "senders_known d \<Longrightarrow> ?thesis"
    by (auto simp: senders_known_def db.known_enqueue db.inbox_enqueue)
next
  case (ReqRecv i)
  then show "senders_known d \<Longrightarrow> ?thesis"
    by (auto simp: senders_known_def db.known_flush db.inbox_flush)
qed simp

text \<open>The states of a server that has handled any packets, without a fault.\<close>

inductive reachable_server ::
    "(bytes \<Rightarrow> bool \<times> mcc_Header \<times> bytes) \<Rightarrow> (bytes \<Rightarrow> bool \<times> RequestRegister \<times> bytes) \<Rightarrow>
     ((user_id_t \<times> UserMetadata) list \<Rightarrow> (user_id_t \<times> UserMetadata) list) \<Rightarrow> MccServer \<Rightarrow> bool"
  for ph pr iter where
  start: "reachable_server ph pr iter (MccServer_new Database_init buf)"
| packet: "reachable_server ph pr iter s \<Longrightarrow> parse ph pr iter s data sz = Inr (s', n) \<Longrightarrow>
     reachable_server ph pr iter s'"

inductive_cases reachable_serverE: "reachable_server ph pr iter s"

section \<open>Properties\<close>

definition fresh_server :: "nat \<Rightarrow> MccServer" where
  "fresh_server n = MccServer_new Database_init (replicate n 0)"

text \<open>Two users, and a third message for the second of them: the database of the examples.\<close>

definition two_users :: Database where
  "two_users = fst (queueMsg (fst (registerUser (fst (registerUser Database_init ''ann'')) ''bob''))
                     1 \<lparr>sender_id = 0, msg = ''hi''\<rparr>)"

lemma two_users_eq:
  "two_users = \<lparr>next_id = 2, user_map =
     [(0, \<lparr>username = ''ann'', msg_q = []\<rparr>),
      (1, \<lparr>username = ''bob'', msg_q = [\<lparr>sender_id = 0, msg = ''hi''\<rparr>]\<rparr>)]\<rparr>"
  by (simp add: two_users_def registerUser_def queueMsg_def Database_init_def Let_def
      Database_at_def Database_set_def)

lemma two_users_inv: "db_inv two_users"
  unfolding two_users_def
  by (intro db.inv_enqueue db_inv_register db_inv_init)

definition no_hdr :: "bytes \<Rightarrow> bool \<times> mcc_Header \<times> bytes" where
  "no_hdr bs = (True, \<lparr>hdr_packet_type = None\<rparr>, [])"

definition no_req :: "bytes \<Rightarrow> bool \<times> RequestRegister \<times> bytes" where
  "no_req bs = (True, \<lparr>reg_username = None\<rparr>, [])"

text \<open>
  C1. The server implements the service: on a well-formed request at the front of its
  receive memory, with a response that fits the transmit buffer, \<^verbatim>\<open>parse\<close> returns
  without a fault, updates the database as the service prescribes, keeps its
  invariant, and leaves the bytes of the prescribed response at the front of the
  transmit buffer.
\<close>

theorem parse_implements_service:
  assumes "db_inv (db s)" "iteration_order iter" "request_ok r"
    and "serve iter (db s) r = (d, resp)" "response_ok resp"
    and "length (response_bytes resp) \<le> length (tx_buffer s)"
  shows "\<exists>s' rest'. parse ph pr iter s (request_bytes r @ rest) sz = Inr (s', response_size resp)
    \<and> db s' = d \<and> db_inv d \<and> tx_buffer s' = response_bytes resp @ rest'
    \<and> length (tx_buffer s') = length (tx_buffer s)"
  using server.respond_serves [of s iter r d resp ph pr rest sz] assms by auto

theorem parse_implements_service_witness:
  "\<exists>s' rest'. parse no_hdr no_req rev \<lparr>db = two_users, tx_buffer = replicate 64 0, log = []\<rparr>
      (request_bytes (ReqRecv 1) @ []) 9 = Inr (s', 25)
    \<and> db s' = clearMsgs two_users 1
    \<and> tx_buffer s' = response_bytes (RecvOk [\<lparr>sender_id = 0, msg = ''hi''\<rparr>]) @ rest'"
proof -
  let ?s = "\<lparr>db = two_users, tx_buffer = replicate 64 0, log = []\<rparr>"
  let ?resp = "RecvOk [\<lparr>sender_id = 0, msg = ''hi''\<rparr>]"
  have "iteration_order rev" by (simp add: iteration_order_def)
  moreover have "serve rev (db ?s) (ReqRecv 1) = (clearMsgs two_users 1, ?resp)"
    by (simp add: two_users_eq userExists_def inbox_of_def Database_at_def)
  moreover have "length (response_bytes ?resp) \<le> length (tx_buffer ?s)"
    by (simp add: length_response_bytes recv_payload_def counted_entry_def)
  moreover have "response_size ?resp = 25"
    by (simp add: response_size_def response_len_def recv_payload_def counted_entry_def)
  ultimately show ?thesis
    using parse_implements_service [of ?s rev "ReqRecv 1" "clearMsgs two_users 1" ?resp no_hdr no_req "[]" 9]
    by (auto simp: two_users_inv)
qed

text \<open>
  C37. The size \<^verbatim>\<open>parse\<close> returns is the length of the response for registrations, sends,
  refusals and an empty list of users; for a list of messages and a non-empty list
  of users it is five bytes too many, because the length field counts the header
  as well.
\<close>

theorem parse_size:
  assumes "db_inv (db s)" "iteration_order iter" "request_ok r"
    and "serve iter (db s) r = (d, resp)" "response_ok resp"
    and "length (response_payload resp) + 5 < 2 ^ 32"
    and "parse ph pr iter s (request_bytes r @ rest) sz = Inr (s', n)"
  shows "n = length (response_bytes resp) + (if counts_header resp then 5 else 0)"
proof -
  have "answered s d resp (Inr (s', n))"
    using parse_serves [OF assms(1-5), of ph pr rest sz] assms(7) by simp
  then have "n = response_size resp"
    by (simp add: answered_def split: if_splits)
  then show ?thesis
    using response_size_exact [OF assms(6)] by simp
qed

theorem parse_size_witness:
  "\<exists>s'. parse no_hdr no_req rev \<lparr>db = two_users, tx_buffer = replicate 64 0, log = []\<rparr>
      (request_bytes (ReqRecv 1) @ []) 9 = Inr (s', 25)
    \<and> 25 = length (response_bytes (RecvOk [\<lparr>sender_id = 0, msg = ''hi''\<rparr>])) + 5"
proof -
  let ?s = "\<lparr>db = two_users, tx_buffer = replicate 64 0, log = []\<rparr>"
  let ?resp = "RecvOk [\<lparr>sender_id = 0, msg = ''hi''\<rparr>]"
  have inv: "db_inv (db ?s)" "iteration_order rev" "request_ok (ReqRecv 1)"
    by (simp_all add: two_users_inv iteration_order_def)
  have srv: "serve rev (db ?s) (ReqRecv 1) = (clearMsgs two_users 1, ?resp)"
    by (simp add: two_users_eq userExists_def inbox_of_def Database_at_def)
  have small: "response_ok ?resp" "length (response_payload ?resp) + 5 < 2 ^ 32"
    "length (response_bytes ?resp) = 20"
    by (simp_all add: length_response_bytes recv_payload_def counted_entry_def)
  then obtain s' n where r: "parse no_hdr no_req rev ?s (request_bytes (ReqRecv 1) @ []) 9 = Inr (s', n)"
    using parse_serves [OF inv srv small(1), of no_hdr no_req "[]" 9] by (auto simp: answered_def)
  show ?thesis
    using parse_size [OF inv srv small(1,2) r] r small(3) by simp
qed

text \<open>
  C26. No handler checks the size of the transmit buffer: a well-formed request whose
  response is longer than the buffer makes the server write past its end, for every
  kind of request.
\<close>

theorem parse_writes_past_buffer:
  assumes "db_inv (db s)" "iteration_order iter" "request_ok r"
    and "serve iter (db s) r = (d, resp)" "response_ok resp"
    and "length (tx_buffer s) < length (response_bytes resp)"
  shows "parse ph pr iter s (request_bytes r @ rest) sz = Inl OutOfBounds"
  using parse_serves [OF assms(1-5), of ph pr rest sz] assms(6) by (simp add: answered_def)

theorem parse_writes_past_buffer_witness:
  "parse no_hdr no_req rev \<lparr>db = two_users, tx_buffer = replicate 16 0, log = []\<rparr>
     (request_bytes (ReqUsers 0) @ []) 9 = Inl OutOfBounds"
proof -
  let ?s = "\<lparr>db = two_users, tx_buffer = replicate 16 0, log = []\<rparr>"
  have "iteration_order rev" by (simp add: iteration_order_def)
  moreover have "serve rev (db ?s) (ReqUsers 0) = (two_users, UsersOk [(1, ''bob'')])"
    by (simp add: two_users_eq userExists_def other_users_def)
  moreover have "length (tx_buffer ?s) < length (response_bytes (UsersOk [(1, ''bob'')]))"
    by (simp add: length_response_bytes users_payload_def counted_entry_def)
  ultimately show ?thesis
    using parse_writes_past_buffer [of ?s rev "ReqUsers 0" two_users "UsersOk [(1, ''bob'')]"
        no_hdr no_req "[]" 9]
    by (simp add: two_users_inv)
qed

text \<open>
  Malformed requests: a users or receive request whose length field is not 4, and
  a send request whose length field is at most 8, fail an assertion; a register
  request whose length field exceeds the memory behind the header reads past it.
\<close>

lemma parse_malformed:
  assumes "data = Header_bytes h @ payload"
  shows "(hdr_type h = PacketType_code kRequestUsers \<and> hdr_len h \<noteq> 4 \<longrightarrow>
            parse ph pr iter s data sz = Inl AssertFailure)
       \<and> (hdr_type h = PacketType_code kRequestRecv \<and> hdr_len h \<noteq> 4 \<longrightarrow>
            parse ph pr iter s data sz = Inl AssertFailure)
       \<and> (hdr_type h = PacketType_code kRequestSend \<and> unat (hdr_len h) \<le> 8 \<longrightarrow>
            parse ph pr iter s data sz = Inl AssertFailure)
       \<and> (hdr_type h = PacketType_code kRequestRegister \<and> length payload < unat (hdr_len h) \<longrightarrow>
            parse ph pr iter s data sz = Inl OutOfBounds)"
  using assms
  by (simp add: parse_header parseRequestUsers_def parseRequestRecv_def parseRequestSend_def
      parseRequestRegister_def load_at_def)

lemma parse_malformed_example:
  "parse no_hdr no_req rev (fresh_server 16) [2, 8, 0, 0, 0, 1, 0, 0, 0, 2, 0, 0, 0] 13 = Inl AssertFailure
   \<and> parse no_hdr no_req rev (fresh_server 16) [0, 9, 0, 0, 0, 97] 6 = Inl OutOfBounds"
proof -
  have "[2, 8, 0, 0, 0, 1, 0, 0, 0, 2, 0, 0, 0]
      = Header_bytes \<lparr>hdr_type = 2, hdr_len = 8\<rparr> @ [1, 0, 0, 0, 2, 0, 0, 0]"
    and "[0, 9, 0, 0, 0, 97] = Header_bytes \<lparr>hdr_type = 0, hdr_len = 9\<rparr> @ [97]"
    by (simp_all add: Header_bytes_def le32_def)
  from this [THEN parse_malformed] show ?thesis by simp
qed

text \<open>
  C9. Whatever packets a server has handled, its database satisfies the invariant, and
  every message waiting in an inbox names a registered user as its sender.
\<close>

theorem reachable_server_safe:
  assumes "reachable_server ph pr iter s"
  shows "db_inv (db s) \<and> senders_known (db s)"
  using assms
proof (induction rule: reachable_server.induct)
  case (start buf)
  show ?case
    using db_inv_init by (simp add: senders_known_def inbox_of_def Database_at_def Database_init_def)
next
  case (packet s data sz s' n)
  then obtain r where "db s' = fst (serve iter (db s) r)"
    using parse_db by blast
  with packet.IH show ?case
    by (simp add: serve_inv senders_known_serve)
qed

theorem reachable_server_safe_witness:
  "\<exists>s'. parse no_hdr no_req rev (fresh_server 64) (request_bytes (ReqRegister ''ann'') @ []) 8 = Inr (s', 10)
     \<and> db_inv (db s') \<and> senders_known (db s')"
proof -
  have "reachable_server no_hdr no_req rev (fresh_server 64)"
    unfolding fresh_server_def by (rule reachable_server.start)
  moreover obtain s' where s': "parse no_hdr no_req rev (fresh_server 64)
      (request_bytes (ReqRegister ''ann'') @ []) 8 = Inr (s', 10)"
    by (simp add: parse_header parseRequestRegister_def handler_simps load_at_def fresh_server_def
        case_prod_beta Let_def)
  ultimately have "reachable_server no_hdr no_req rev s'"
    by (rule reachable_server.packet)
  with s' show ?thesis
    using reachable_server_safe by blast
qed

text \<open>
  A packet of unknown type is handed to the protocol-buffer registration, whose
  first parse consumes the stream: if a successful parse leaves nothing in the
  stream, and an empty stream parses to a message without a name, the user is
  registered with an empty name whatever the packet held.
\<close>

lemma proto_register_loses_name:
  assumes "\<And>bs h rest. ph bs = (True, h, rest) \<Longrightarrow> rest = []"
    and "pr [] = (True, \<lparr>reg_username = None\<rparr>, [])"
    and "ph rx = (True, h, iss)" and "10 \<le> length (tx_buffer s)"
  shows "\<exists>s'. parseRequestRegisterProto ph pr s rx = Inr (s', 10)
    \<and> db s' = fst (registerUser (db s) []) \<and> ''ERR: NO USERNAME'' \<in> set (log s')"
proof -
  obtain d i where reg: "registerUser (db s) [] = (d, i)" by force
  have "iss = []" using assms(1,3) by blast
  with assms(2,3) have eq: "parseRequestRegisterProto ph pr s rx =
      register_reply (s\<lparr>log := log s @ proto_log True h True \<lparr>reg_username = None\<rparr>, db := d\<rparr>) i"
    by (intro parseRequestRegisterProto_eq [where iss = "[]" and iss' = "[]"]) (simp_all add: reg)
  show ?thesis
    using assms(4) unfolding eq by (simp add: handler_simps reg proto_log_def)
qed

lemma proto_register_loses_name_example:
  "\<exists>s'. parseRequestRegisterProto no_hdr no_req (fresh_server 16) [8, 0, 10, 1, 97] = Inr (s', 10)
    \<and> db s' = fst (registerUser Database_init [])"
  using proto_register_loses_name [of no_hdr no_req "[8, 0, 10, 1, 97]" "\<lparr>hdr_packet_type = None\<rparr>" "[]"
      "fresh_server 16"]
  by (auto simp: no_hdr_def no_req_def fresh_server_def)

end
