(* ===== verification/Mcc_Client.thy ===== *)
theory Mcc_Client
  imports Mcc_Spec
begin

text \<open>
  \<^verbatim>\<open>client/client.h\<close> and \<^verbatim>\<open>client/client.cpp\<close>: the client side of the binary protocol.
  The encoders write a request into the transmit buffer and return its size; the
  handlers read the response from the receive buffer. \<open>c_log\<close> holds the lines
  written to \<^verbatim>\<open>cerr\<close>.
\<close>

section \<open>State\<close>

record MccClient =
  c_tx :: bytes
  c_rx :: bytes
  c_log :: "string list"

definition MccClient_new :: "bytes \<Rightarrow> bytes \<Rightarrow> MccClient" where
  [simp]: "MccClient_new tx rx = \<lparr>c_tx = tx, c_rx = rx, c_log = []\<rparr>"

definition c_err :: "string \<Rightarrow> MccClient \<Rightarrow> MccClient" where
  "c_err l c = c\<lparr>c_log := c_log c @ [l]\<rparr>"

section \<open>Encoders\<close>

definition encodeRequestRegister :: "MccClient \<Rightarrow> string \<Rightarrow> (MccClient \<times> nat) result" where
  "encodeRequestRegister c name =
     (let h = \<lparr>hdr_type = PacketType_code kRequestRegister, hdr_len = word_of_nat (length name)\<rparr>
      in rbind (put (c_tx c, 0) (Header_bytes h)) (\<lambda>pDest.
         rbind (put pDest (bytes_of_string name)) (\<lambda>pDest.
         Inr (c\<lparr>c_tx := fst pDest\<rparr>, sizeof_Header + length name))))"

definition encodeRequestUsers :: "MccClient \<Rightarrow> user_id_t \<Rightarrow> (MccClient \<times> nat) result" where
  "encodeRequestUsers c i =
     (let h = \<lparr>hdr_type = PacketType_code kRequestUsers, hdr_len = kReqUsersPayloadLen\<rparr>
      in rbind (put (c_tx c, 0) (Header_bytes h)) (\<lambda>pDest.
         rbind (put pDest (le32 i)) (\<lambda>pDest.
         Inr (c\<lparr>c_tx := fst pDest\<rparr>, sizeof_Header + unat kReqUsersPayloadLen))))"

definition encodeRequestSend ::
    "MccClient \<Rightarrow> user_id_t \<Rightarrow> user_id_t \<Rightarrow> string \<Rightarrow> (MccClient \<times> nat) result" where
  "encodeRequestSend c src_id target_id m =
     (let h = \<lparr>hdr_type = PacketType_code kRequestSend,
               hdr_len = word_of_nat (unat kReqSendMinPayloadLen + length m)\<rparr>
      in rbind (put (c_tx c, 0) (Header_bytes h)) (\<lambda>pDest.
         rbind (put pDest (le32 src_id)) (\<lambda>pDest.
         rbind (put pDest (le32 target_id)) (\<lambda>pDest.
         rbind (put pDest (bytes_of_string m)) (\<lambda>pDest.
         Inr (c\<lparr>c_tx := fst pDest\<rparr>, sizeof_Header + unat kReqSendMinPayloadLen + length m))))))"

definition encodeRequestRecv :: "MccClient \<Rightarrow> user_id_t \<Rightarrow> (MccClient \<times> nat) result" where
  "encodeRequestRecv c i =
     (let h = \<lparr>hdr_type = PacketType_code kRequestRecv, hdr_len = kReqRecvPayloadLen\<rparr>
      in rbind (put (c_tx c, 0) (Header_bytes h)) (\<lambda>pDest.
         rbind (put pDest (le32 i)) (\<lambda>pDest.
         Inr (c\<lparr>c_tx := fst pDest\<rparr>, sizeof_Header + unat kReqRecvPayloadLen))))"

section \<open>Response handlers\<close>

definition validateRespHeader :: "MccClient \<Rightarrow> PacketType \<Rightarrow> bool result" where
  "validateRespHeader c expected_type =
     rbind (load_Header (c_rx c) 0) (\<lambda>h. Inr (hdr_type h = PacketType_code expected_type))"

text \<open>The flag returned and the out-parameter after the call.\<close>

definition handleRespRegister ::
    "MccClient \<Rightarrow> user_id_t \<Rightarrow> (MccClient \<times> bool \<times> user_id_t) result" where
  "handleRespRegister c i =
     rbind (validateRespHeader c kRespRegister) (\<lambda>ok.
     if \<not> ok then Inr (c_err ''ERR: Unexpected response type, expected kRespRegister'' c, False, i)
     else rbind (load_at (c_rx c) sizeof_Header 1) (\<lambda>resp_value.
       if resp_value \<noteq> [0]
       then Inr (c_err ''ERR: Unexpected response value in handleRespRegister'' c, False, i)
       else rbind (load32 (c_rx c) (sizeof_Header + 1)) (\<lambda>i'. Inr (c, True, i'))))"

fun respUsers_loop ::
    "nat \<Rightarrow> bytes \<Rightarrow> nat \<Rightarrow> (string \<times> user_id_t) list \<Rightarrow> (string \<times> user_id_t) list result" where
  "respUsers_loop 0 buf payload name_to_id = Inr name_to_id"
| "respUsers_loop (Suc n) buf payload name_to_id =
     rbind (load32 buf payload) (\<lambda>curr_user_id.
     rbind (load32 buf (payload + 4)) (\<lambda>username_size.
     rbind (load_at buf (payload + 8) (unat username_size)) (\<lambda>name.
     respUsers_loop n buf (payload + 8 + unat username_size)
       (AList.update (string_of_bytes name) curr_user_id name_to_id))))"

definition handleRespUsers ::
    "MccClient \<Rightarrow> (string \<times> user_id_t) list \<Rightarrow> (MccClient \<times> bool \<times> (string \<times> user_id_t) list) result" where
  "handleRespUsers c name_to_id =
     rbind (validateRespHeader c kRespUsers) (\<lambda>ok.
     if \<not> ok then Inr (c_err ''ERR: Unexpected response type, expected kRespUsers'' c, False, name_to_id)
     else rbind (load_at (c_rx c) sizeof_Header 1) (\<lambda>resp_value.
       if resp_value \<noteq> [0]
       then Inr (c_err ''ERR: Users response failed'' c, False, name_to_id)
       else rbind (load32 (c_rx c) (sizeof_Header + 1)) (\<lambda>num_users.
            rbind (respUsers_loop (unat num_users) (c_rx c) (sizeof_Header + 5) []) (\<lambda>m.
            Inr (c, True, m)))))"

text \<open>\<open>stat\<close> is the byte cast to \<^verbatim>\<open>SendStatus\<close>; it may be no enumerator.\<close>

definition handleRespSend :: "MccClient \<Rightarrow> byte \<Rightarrow> (MccClient \<times> bool \<times> byte) result" where
  "handleRespSend c stat =
     rbind (validateRespHeader c kRespSend) (\<lambda>ok.
     if \<not> ok then Inr (c_err ''ERR: Unexpected response type, expected kResSend'' c, False, stat)
     else rbind (load_at (c_rx c) sizeof_Header 1) (\<lambda>payload. Inr (c, True, hd payload)))"

fun respRecv_loop :: "nat \<Rightarrow> bytes \<Rightarrow> nat \<Rightarrow> Msg list \<Rightarrow> Msg list result" where
  "respRecv_loop 0 buf payload msgs = Inr msgs"
| "respRecv_loop (Suc n) buf payload msgs =
     rbind (load32 buf payload) (\<lambda>i.
     rbind (load32 buf (payload + 4)) (\<lambda>msg_len.
     rbind (load_at buf (payload + 8) (unat msg_len)) (\<lambda>m.
     respRecv_loop n buf (payload + 8 + unat msg_len)
       (msgs @ [\<lparr>sender_id = i, msg = string_of_bytes m\<rparr>]))))"

text \<open>A negative response is reported, and the handler goes on to read the messages.\<close>

definition handleRespRecv :: "MccClient \<Rightarrow> Msg list \<Rightarrow> (MccClient \<times> bool \<times> Msg list) result" where
  "handleRespRecv c msgs =
     rbind (validateRespHeader c kRespRecv) (\<lambda>ok.
     if \<not> ok then Inr (c_err ''ERR: Unexpected response type, expected kRespRecv'' c, False, msgs)
     else rbind (load_at (c_rx c) sizeof_Header 1) (\<lambda>resp_val.
       let c = (if 0 < hd resp_val
                then c_err ''ERR: server returned negative response in response receive'' c else c)
       in rbind (load32 (c_rx c) (sizeof_Header + 1)) (\<lambda>num_messages.
          rbind (respRecv_loop (unat num_messages) (c_rx c) (sizeof_Header + 5) msgs) (\<lambda>ms.
          Inr (c, True, ms)))))"

end
