(* ===== verification/Mcc_Protocol.thy ===== *)
theory Mcc_Protocol
  imports Mcc_Server Mcc_Client
begin

text \<open>
  Client and server of the binary protocol together: the encoders produce the
  request bytes the service expects, the response handlers read back what the
  service answered, and a call (encode, exchange, handle) has the effect the
  service prescribes. The calls are proved once for any server that keeps the
  contract \<open>mcc_service\<close> and hold for \<^verbatim>\<open>MccServer\<close> through its interpretation.
\<close>

section \<open>Encoders\<close>

lemmas encode_defs =
  encodeRequestRegister_def encodeRequestUsers_def encodeRequestSend_def encodeRequestRecv_def
  kReqUsersPayloadLen_def kReqSendMinPayloadLen_def kReqRecvPayloadLen_def sizeof_Header_def

fun encode :: "MccClient \<Rightarrow> mcc_request \<Rightarrow> (MccClient \<times> nat) result" where
  "encode c (ReqRegister name) = encodeRequestRegister c name"
| "encode c (ReqUsers i) = encodeRequestUsers c i"
| "encode c (ReqSend src trgt m) = encodeRequestSend c src trgt m"
| "encode c (ReqRecv i) = encodeRequestRecv c i"

lemma encode_eq:
  "encode c r =
     (if length (request_bytes r) \<le> length (c_tx c)
      then Inr (c\<lparr>c_tx := sent (request_bytes r) (c_tx c)\<rparr>, length (request_bytes r))
      else Inl OutOfBounds)"
  by (cases r) (simp_all add: encode_defs buffer_simps Let_def, simp_all add: handler_simps)

section \<open>Response handlers\<close>

lemma load_payload_byte:
  "length h = 5 \<Longrightarrow> load_at (h @ b # rest) 5 (Suc 0) = Inr [b]"
  using load_at_append [of h 5 "[b]" 1 rest] by simp

lemma load_payload_u32:
  "length h = 5 \<Longrightarrow> load32 (h @ b # le32 w @ rest) 6 = Inr w"
  using load32_le32 [of "h @ [b]" 6 w rest] by simp

lemma load_counted_entry:
  assumes "length t < 2 ^ 32"
  shows "load32 (pre @ counted_entry i t @ post) (length pre) = Inr i"
    and "load32 (pre @ counted_entry i t @ post) (length pre + 4) = Inr (word_of_nat (length t))"
    and "load_at (pre @ counted_entry i t @ post) (length pre + 8) (length t) = Inr (bytes_of_string t)"
proof -
  show "load32 (pre @ counted_entry i t @ post) (length pre) = Inr i"
    using load32_le32 [of pre "length pre" i] by (simp add: counted_entry_def)
  show "load32 (pre @ counted_entry i t @ post) (length pre + 4) = Inr (word_of_nat (length t))"
    using load32_le32 [of "pre @ le32 i"] by (simp add: counted_entry_def)
  show "load_at (pre @ counted_entry i t @ post) (length pre + 8) (length t) = Inr (bytes_of_string t)"
    using load_at_append [of "pre @ le32 i @ le32 (word_of_nat (length t))" "length pre + 8"]
    by (simp add: counted_entry_def)
qed

lemma length_counted_entry [simp]: "length (counted_entry i t) = 8 + length t"
  by (simp add: counted_entry_def)

definition name_map :: "(user_id_t \<times> string) list \<Rightarrow> (string \<times> user_id_t) list \<Rightarrow> (string \<times> user_id_t) list" where
  "name_map us m = foldl (\<lambda>m (i, t). AList.update t i m) m us"

lemma respUsers_loop_payload:
  "list_all (\<lambda>u. length (snd u) < 2 ^ 32) us \<Longrightarrow>
   respUsers_loop (length us) (pre @ users_payload us @ post) (length pre) m = Inr (name_map us m)"
proof (induction us arbitrary: pre m)
  case (Cons u us)
  obtain i t where u: "u = (i, t)" by force
  let ?buf = "pre @ counted_entry i t @ users_payload us @ post"
  have "length t < 2 ^ 32" using Cons.prems u by simp
  note entry = load_counted_entry [OF this, of pre i "users_payload us @ post"]
  have "respUsers_loop (length (u # us)) ?buf (length pre) m
      = respUsers_loop (length us) ((pre @ counted_entry i t) @ users_payload us @ post)
          (length (pre @ counted_entry i t)) (AList.update t i m)"
    using \<open>length t < 2 ^ 32\<close> by (simp add: entry add.assoc)
  also have "\<dots> = Inr (name_map us (AList.update t i m))"
    using Cons.prems by (intro Cons.IH) simp
  finally show ?case
    by (simp add: u users_payload_def name_map_def)
qed (simp add: name_map_def)

lemma respRecv_loop_payload:
  "list_all (\<lambda>m. length (msg m) < 2 ^ 32) ms \<Longrightarrow>
   respRecv_loop (length ms) (pre @ recv_payload ms @ post) (length pre) acc = Inr (acc @ ms)"
proof (induction ms arbitrary: pre acc)
  case (Cons m ms)
  obtain i t where m: "m = \<lparr>sender_id = i, msg = t\<rparr>" by (cases m)
  let ?e = "counted_entry i t"
  let ?buf = "pre @ ?e @ recv_payload ms @ post"
  have "length t < 2 ^ 32" using Cons.prems m by simp
  note entry = load_counted_entry [OF this, of pre i "recv_payload ms @ post"]
  have "respRecv_loop (length (m # ms)) ?buf (length pre) acc
      = respRecv_loop (length ms) ((pre @ ?e) @ recv_payload ms @ post) (length (pre @ ?e)) (acc @ [m])"
    using \<open>length t < 2 ^ 32\<close> by (simp add: entry add.assoc m)
  also have "\<dots> = Inr ((acc @ [m]) @ ms)"
    using Cons.prems by (intro Cons.IH) simp
  finally show ?case
    by (simp add: recv_payload_def m)
qed simp

lemma validate_response:
  "c_rx c = response_bytes resp @ rest \<Longrightarrow>
   validateRespHeader c t = Inr (response_type resp = t)"
  by (simp add: validateRespHeader_def response_bytes_def load_Header_bytes)

lemma handleRespRegister_ok:
  "c_rx c = response_bytes (RegisterOk i) @ rest \<Longrightarrow> handleRespRegister c j = Inr (c, True, i)"
  by (simp add: handleRespRegister_def validate_response)
    (simp add: response_bytes_def load_payload_byte load_payload_u32 sizeof_Header_def)

lemma handleRespUsers_err:
  "c_rx c = response_bytes UsersErr @ rest \<Longrightarrow>
   handleRespUsers c m = Inr (c_err ''ERR: Users response failed'' c, False, m)"
  by (simp add: handleRespUsers_def validate_response)
    (simp add: response_bytes_def load_payload_byte sizeof_Header_def)

lemma handleRespUsers_ok:
  assumes "c_rx c = response_bytes (UsersOk us) @ rest" "response_ok (UsersOk us)"
  shows "handleRespUsers c m = Inr (c, True, name_map us [])"
proof -
  let ?h = "Header_bytes \<lparr>hdr_type = PacketType_code kRespUsers, hdr_len = response_len (UsersOk us)\<rparr>"
  let ?pre = "?h @ [0] @ le32 (word_of_nat (length us))"
  have rx: "c_rx c = ?pre @ users_payload us @ rest"
    using assms(1) by (simp add: response_bytes_def)
  have "respUsers_loop (length us) (c_rx c) 10 [] = Inr (name_map us [])"
    using respUsers_loop_payload [of us ?pre rest "[]"] assms(2) by (simp add: rx)
  moreover have "validateRespHeader c kRespUsers = Inr True"
    using assms(1) by (simp add: validate_response)
  moreover have "load_at (c_rx c) 5 1 = Inr [0]" "load32 (c_rx c) 6 = Inr (word_of_nat (length us))"
    by (simp_all add: rx load_payload_byte load_payload_u32)
  ultimately show ?thesis
    using assms(2) by (simp add: handleRespUsers_def sizeof_Header_def)
qed

lemma handleRespSend_ok:
  "c_rx c = response_bytes (SendResp st) @ rest \<Longrightarrow>
   handleRespSend c x = Inr (c, True, SendStatus_code st)"
  by (simp add: handleRespSend_def validate_response)
    (simp add: response_bytes_def load_payload_byte sizeof_Header_def)

lemma handleRespRecv_ok:
  assumes "c_rx c = response_bytes (RecvOk ms) @ rest" "response_ok (RecvOk ms)"
  shows "handleRespRecv c acc = Inr (c, True, acc @ ms)"
proof -
  let ?h = "Header_bytes \<lparr>hdr_type = PacketType_code kRespRecv, hdr_len = response_len (RecvOk ms)\<rparr>"
  let ?pre = "?h @ [0] @ le32 (word_of_nat (length ms))"
  have rx: "c_rx c = ?pre @ recv_payload ms @ rest"
    using assms(1) by (simp add: response_bytes_def)
  have "respRecv_loop (length ms) (c_rx c) 10 acc = Inr (acc @ ms)"
    using respRecv_loop_payload [of ms ?pre rest acc] assms(2) by (simp add: rx)
  moreover have "validateRespHeader c kRespRecv = Inr True"
    using assms(1) by (simp add: validate_response)
  moreover have "load_at (c_rx c) 5 1 = Inr [0]" "load32 (c_rx c) 6 = Inr (word_of_nat (length ms))"
    by (simp_all add: rx load_payload_byte load_payload_u32)
  ultimately show ?thesis
    using assms(2) by (simp add: handleRespRecv_def sizeof_Header_def)
qed

section \<open>Calls\<close>

text \<open>
  The first \<open>n\<close> bytes of the client's transmit buffer reach the server, and as many
  bytes of its transmit buffer as it reports come back into the receive buffer.
\<close>

definition exchange ::
    "('s \<Rightarrow> bytes \<Rightarrow> ('s \<times> nat) result) \<Rightarrow> ('s \<Rightarrow> bytes) \<Rightarrow> 's \<Rightarrow> MccClient \<Rightarrow> nat \<Rightarrow>
     ('s \<times> MccClient) result" where
  "exchange respond out s c n =
     rbind (load_at (c_tx c) 0 n) (\<lambda>req.
     rbind (respond s req) (\<lambda>(s', m).
     rbind (load_at (out s') 0 m) (\<lambda>resp.
     rbind (store_at (c_rx c) 0 resp) (\<lambda>rx.
     Inr (s', c\<lparr>c_rx := rx\<rparr>)))))"

definition call ::
    "('s \<Rightarrow> bytes \<Rightarrow> ('s \<times> nat) result) \<Rightarrow> ('s \<Rightarrow> bytes) \<Rightarrow> 's \<Rightarrow> MccClient \<Rightarrow> mcc_request \<Rightarrow>
     ('s \<times> MccClient) result" where
  "call respond out s c r = rbind (encode c r) (\<lambda>(c, n). exchange respond out s c n)"

text \<open>The buffers of both sides hold the request and what the server reports as the response.\<close>

definition call_fits :: "bytes \<Rightarrow> MccClient \<Rightarrow> mcc_request \<Rightarrow> mcc_response \<Rightarrow> bool" where
  "call_fits outbuf c r resp \<longleftrightarrow>
     length (request_bytes r) \<le> length (c_tx c) \<and> length (response_payload resp) + 5 < 2 ^ 32
     \<and> response_size resp \<le> length outbuf \<and> response_size resp \<le> length (c_rx c)"

context mcc_service
begin

lemma call_serves:
  assumes "inv s" "request_ok r" "serve iter (view s) r = (d, resp)" "response_ok resp"
    and "call_fits (out s) c r resp"
  shows "\<exists>s' c' rest. call respond out s c r = Inr (s', c') \<and> inv s' \<and> view s' = d
    \<and> length (out s') = length (out s) \<and> c_rx c' = response_bytes resp @ rest
    \<and> length (c_rx c') = length (c_rx c) \<and> length (c_tx c') = length (c_tx c)"
proof -
  let ?n = "response_size resp"
  have fits: "length (request_bytes r) \<le> length (c_tx c)" "?n \<le> length (out s)" "?n \<le> length (c_rx c)"
    and n: "length (response_bytes resp) \<le> ?n"
    using assms(5) response_size_exact [of resp] by (auto simp: call_fits_def)
  obtain s' rest' where s': "respond s (request_bytes r) = Inr (s', ?n)" "inv s'" "view s' = d"
    "length (out s') = length (out s)" "out s' = response_bytes resp @ rest'"
    using respond_serves [OF assms(1-4), of "[]"] fits(2) n by auto
  have tx: "load_at (sent (request_bytes r) (c_tx c)) 0 (length (request_bytes r)) = Inr (request_bytes r)"
    unfolding sent_def by (rule load_at_prefix) simp
  obtain extra where got: "load_at (out s') 0 ?n = Inr (response_bytes resp @ extra)"
    and len: "length (response_bytes resp @ extra) = ?n"
    using s'(4,5) fits(2) n by (auto simp: load_at_def)
  let ?c' = "c\<lparr>c_tx := sent (request_bytes r) (c_tx c),
               c_rx := (response_bytes resp @ extra) @ drop ?n (c_rx c)\<rparr>"
  have "call respond out s c r = Inr (s', ?c')"
    using fits len
    by (simp add: call_def encode_eq exchange_def tx s'(1) got store_at_0)
  with s' fits len show ?thesis
    by (intro exI [of _ s'] exI [of _ ?c'] exI [of _ "extra @ drop ?n (c_rx c)"])
      (auto simp: sent_def)
qed

end

section \<open>Properties\<close>

abbreviation server_call ::
    "(bytes \<Rightarrow> bool \<times> mcc_Header \<times> bytes) \<Rightarrow> (bytes \<Rightarrow> bool \<times> RequestRegister \<times> bytes) \<Rightarrow>
     ((user_id_t \<times> UserMetadata) list \<Rightarrow> (user_id_t \<times> UserMetadata) list) \<Rightarrow> nat \<Rightarrow>
     MccServer \<Rightarrow> MccClient \<Rightarrow> mcc_request \<Rightarrow> (MccServer \<times> MccClient) result" where
  "server_call ph pr iter sz \<equiv> call (\<lambda>s data. parse ph pr iter s data sz) tx_buffer"

text \<open>
  Registration end to end: the client learns exactly the id the database assigned
  to the name it sent, and the server has registered that name.
\<close>

lemma register_roundtrip:
  assumes "db_inv (db s)" "iteration_order iter" "length name < 2 ^ 32"
    and "registerUser (db s) name = (d, i)"
    and "call_fits (tx_buffer s) c (ReqRegister name) (RegisterOk i)"
  shows "\<exists>s' c'. server_call ph pr iter sz s c (ReqRegister name) = Inr (s', c')
    \<and> db s' = d \<and> handleRespRegister c' j = Inr (c', True, i)"
proof -
  have "serve iter (db s) (ReqRegister name) = (d, RegisterOk i)"
    using assms(4) by simp
  then obtain s' c' rest where "server_call ph pr iter sz s c (ReqRegister name) = Inr (s', c')"
    "db s' = d" "c_rx c' = response_bytes (RegisterOk i) @ rest"
    using server.call_serves [of s iter "ReqRegister name" d "RegisterOk i" c ph pr sz] assms by auto
  then show ?thesis
    using handleRespRegister_ok by blast
qed

definition blank_client :: MccClient where
  "blank_client = \<lparr>c_tx = replicate 64 0, c_rx = replicate 64 0, c_log = []\<rparr>"

definition two_user_server :: MccServer where
  "two_user_server = \<lparr>db = two_users, tx_buffer = replicate 64 0, log = []\<rparr>"

lemma iteration_order_rev: "iteration_order rev"
  by (simp add: iteration_order_def)

lemmas fits_simps =
  call_fits_def response_size_def response_len_def recv_payload_def users_payload_def
  blank_client_def two_user_server_def

lemma register_roundtrip_example:
  "\<exists>s' c'. server_call no_hdr no_req rev 8 two_user_server blank_client (ReqRegister ''eve'') = Inr (s', c')
    \<and> db s' = fst (registerUser two_users ''eve'') \<and> handleRespRegister c' 99 = Inr (c', True, 2)"
proof -
  have "registerUser (db two_user_server) ''eve'' = (fst (registerUser two_users ''eve''), 2)"
    by (simp add: registerUser_def two_user_server_def two_users_eq Let_def)
  moreover have "call_fits (tx_buffer two_user_server) blank_client (ReqRegister ''eve'') (RegisterOk 2)"
    by (simp add: fits_simps)
  ultimately show ?thesis
    using register_roundtrip [of two_user_server rev "''eve''" _ 2 blank_client no_hdr no_req 8 99]
    by (simp add: iteration_order_rev two_users_inv two_user_server_def)
qed

text \<open>
  Sending and receiving end to end: after one user has sent a message to another,
  the sender has read a success status, and when the other user then asks for
  messages, the client appends to its list everything that was waiting and then the
  new message, with the sender's id, and the server's inbox is empty.
\<close>

lemma send_then_receive:
  assumes "db_inv (db s)" "iteration_order iter" "userExists (db s) a" "userExists (db s) b"
    and "m \<noteq> []" "8 + length m < 2 ^ 32"
    and "ms = inbox_of (db s) b @ [\<lparr>sender_id = a, msg = m\<rparr>]" "response_ok (RecvOk ms)"
    and "call_fits (tx_buffer s) ca (ReqSend a b m) (SendResp kSuccess)"
    and "call_fits (tx_buffer s) cb (ReqRecv b) (RecvOk ms)"
  shows "\<exists>s1 ca' s2 cb'.
      server_call ph pr iter sz s ca (ReqSend a b m) = Inr (s1, ca')
    \<and> handleRespSend ca' x = Inr (ca', True, SendStatus_code kSuccess)
    \<and> server_call ph pr iter sz s1 cb (ReqRecv b) = Inr (s2, cb')
    \<and> handleRespRecv cb' acc = Inr (cb', True, acc @ ms)
    \<and> inbox_of (db s2) b = []
    \<and> (\<forall>k. k \<noteq> b \<longrightarrow> inbox_of (db s2) k = inbox_of (db s) k)"
proof -
  let ?d = "fst (queueMsg (db s) b \<lparr>sender_id = a, msg = m\<rparr>)"
  have "serve iter (db s) (ReqSend a b m) = (?d, SendResp kSuccess)"
    using assms(3,4) by simp
  then obtain s1 ca' rest where s1: "server_call ph pr iter sz s ca (ReqSend a b m) = Inr (s1, ca')"
    "db_inv (db s1)" "db s1 = ?d" "length (tx_buffer s1) = length (tx_buffer s)"
    "c_rx ca' = response_bytes (SendResp kSuccess) @ rest"
    using server.call_serves [of s iter "ReqSend a b m" ?d "SendResp kSuccess" ca ph pr sz] assms
    by auto
  have "serve iter (db s1) (ReqRecv b) = (clearMsgs ?d b, RecvOk ms)"
    using assms(4,7) s1(3) by (simp add: db.known_enqueue db.inbox_enqueue)
  moreover have "call_fits (tx_buffer s1) cb (ReqRecv b) (RecvOk ms)"
    using assms(10) s1(4) by (simp add: call_fits_def)
  ultimately obtain s2 cb' rest2 where s2: "server_call ph pr iter sz s1 cb (ReqRecv b) = Inr (s2, cb')"
    "db s2 = clearMsgs ?d b" "c_rx cb' = response_bytes (RecvOk ms) @ rest2"
    using server.call_serves [of s1 iter "ReqRecv b" "clearMsgs ?d b" "RecvOk ms" cb ph pr sz]
      assms(2,8) s1(2) by auto
  have "inbox_of (db s2) k = (if k = b then [] else inbox_of (db s) k)" for k
    using assms(4) s2(2) by (simp add: db.known_enqueue db.inbox_flush db.inbox_enqueue)
  then show ?thesis
    using s1 s2 handleRespSend_ok [OF s1(5)] handleRespRecv_ok [OF s2(3) assms(8)] by auto
qed

lemma send_then_receive_example:
  "\<exists>s1 ca' s2 cb'.
      server_call no_hdr no_req rev 64 two_user_server blank_client (ReqSend 0 1 ''yo'') = Inr (s1, ca')
    \<and> server_call no_hdr no_req rev 64 s1 blank_client (ReqRecv 1) = Inr (s2, cb')
    \<and> handleRespRecv cb' [] = Inr (cb', True,
        [\<lparr>sender_id = 0, msg = ''hi''\<rparr>, \<lparr>sender_id = 0, msg = ''yo''\<rparr>])
    \<and> inbox_of (db s2) 1 = []"
proof -
  let ?ms = "[\<lparr>sender_id = 0, msg = ''hi''\<rparr>, \<lparr>sender_id = 0, msg = ''yo''\<rparr>]"
  have [simp]: "db two_user_server = two_users" by (simp add: two_user_server_def)
  have users: "userExists (db two_user_server) 0" "userExists (db two_user_server) 1"
    and ms: "?ms = inbox_of (db two_user_server) 1 @ [\<lparr>sender_id = 0, msg = ''yo''\<rparr>]"
    by (simp_all add: two_users_eq userExists_def inbox_of_def Database_at_def)
  have fits: "call_fits (tx_buffer two_user_server) blank_client (ReqSend 0 1 ''yo'') (SendResp kSuccess)"
    "call_fits (tx_buffer two_user_server) blank_client (ReqRecv 1) (RecvOk ?ms)"
    by (simp_all add: fits_simps)
  show ?thesis
    using send_then_receive [OF _ iteration_order_rev users _ _ ms _ fits,
        of no_hdr no_req 64 0 "[]"] two_users_inv
    by fastforce
qed

lemma map_of_name_map:
  "map_of (name_map us m) = map_of m ++ map_of (rev (map (\<lambda>(i, t). (t, i)) us))"
proof (induction us arbitrary: m)
  case (Cons u us)
  obtain i t where u: "u = (i, t)" by force
  have "map_of (name_map (u # us) m) = map_of (name_map us (AList.update t i m))"
    by (simp add: name_map_def u)
  also have "\<dots> = (map_of m)(t \<mapsto> i) ++ map_of (rev (map (\<lambda>(i, t). (t, i)) us))"
    unfolding Cons by (simp add: update_conv')
  also have "(map_of m)(t \<mapsto> i) = map_of m ++ map_of [(t, i)]"
    by simp
  finally show ?case
    by (simp add: u map_add_assoc fun_upd_def)
qed (simp add: name_map_def)

lemma map_of_name_map_distinct:
  "distinct (map snd us) \<Longrightarrow> map_of (name_map us []) t = Some i \<longleftrightarrow> (i, t) \<in> set us"
proof -
  assume dist: "distinct (map snd us)"
  have "map fst (rev (map (\<lambda>(i, t). (t, i)) us)) = rev (map snd us)"
    by (simp add: rev_map comp_def case_prod_beta)
  then have "distinct (map fst (rev (map (\<lambda>(i, t). (t, i)) us)))"
    using dist by (metis distinct_rev)
  then show ?thesis
    by (force simp: map_of_name_map map_of_eq_Some_iff)
qed

lemma set_other_users:
  assumes "db_inv d" "iteration_order iter"
  shows "(k, t) \<in> set (other_users i (iter (user_map d))) \<longleftrightarrow>
    k \<noteq> i \<and> userExists d k \<and> name_in d k = t"
proof -
  have "set (iter (user_map d)) = set (user_map d)"
    using assms(2) by (metis iteration_order_def set_mset_mset)
  moreover have "(k, u) \<in> set (user_map d) \<longleftrightarrow> map_of (user_map d) k = Some u" for u
    using assms(1) by (simp add: db_inv_def)
  moreover have "(k, t) \<in> set (other_users i (iter (user_map d))) \<longleftrightarrow>
      k \<noteq> i \<and> (\<exists>u. (k, u) \<in> set (iter (user_map d)) \<and> username u = t)"
    by (force simp: other_users_def)
  ultimately show ?thesis
    by (auto simp: userExists_def name_in_def Database_at_def split: option.splits)
qed

text \<open>
  C10. The list of online users end to end, for any iteration order of the server's map: whatever
  the client's map from names to ids held before, it then has an entry for a name exactly
  when another registered user has that name, and the entry leads to such a user, of several
  of one name to the last one listed (the server does not keep names unique); when the names
  of the other users are distinct, the entries are exactly the other users.
\<close>

theorem users_roundtrip:
  assumes "db_inv (db s)" "iteration_order iter" "userExists (db s) i"
    and "us = other_users i (iter (user_map (db s)))"
    and "response_ok (UsersOk us)" "call_fits (tx_buffer s) c (ReqUsers i) (UsersOk us)"
  shows "\<exists>s' c' m. server_call ph pr iter sz s c (ReqUsers i) = Inr (s', c') \<and> db s' = db s
    \<and> handleRespUsers c' old = Inr (c', True, m)
    \<and> dom (map_of m) = name_in (db s) ` {k. k \<noteq> i \<and> userExists (db s) k}
    \<and> (\<forall>t k. map_of m t = Some k \<longrightarrow> k \<noteq> i \<and> userExists (db s) k \<and> name_in (db s) k = t)
    \<and> map_of m = map_of (map (\<lambda>(k, t). (t, k)) (rev us))
    \<and> (distinct (map snd us) \<longrightarrow>
        (\<forall>t k. map_of m t = Some k \<longleftrightarrow> k \<noteq> i \<and> userExists (db s) k \<and> name_in (db s) k = t))"
proof -
  have "serve iter (db s) (ReqUsers i) = (db s, UsersOk us)"
    using assms(3,4) by simp
  then obtain s' c' rest where s': "server_call ph pr iter sz s c (ReqUsers i) = Inr (s', c')"
    "db s' = db s" "c_rx c' = response_bytes (UsersOk us) @ rest"
    using server.call_serves [of s iter "ReqUsers i" "db s" "UsersOk us" c ph pr sz] assms by auto
  have listed: "(k, t) \<in> set us \<longleftrightarrow> k \<noteq> i \<and> userExists (db s) k \<and> name_in (db s) k = t" for k t
    using set_other_users [OF assms(1,2)] assms(4) by simp
  have m: "map_of (name_map us []) = map_of (map (\<lambda>(k, t). (t, k)) (rev us))"
    by (simp add: map_of_name_map rev_map)
  have "dom (map_of (name_map us [])) = snd ` set us"
    by (simp add: m dom_map_of_conv_image_fst image_image case_prod_unfold)
  also have "\<dots> = name_in (db s) ` {k. k \<noteq> i \<and> userExists (db s) k}"
  proof (rule set_eqI)
    fix t
    have "t \<in> snd ` set us \<longleftrightarrow> (\<exists>k. (k, t) \<in> set us)" by force
    then show "t \<in> snd ` set us \<longleftrightarrow> t \<in> name_in (db s) ` {k. k \<noteq> i \<and> userExists (db s) k}"
      unfolding listed image_iff Bex_def mem_Collect_eq by metis
  qed
  finally have dom: "dom (map_of (name_map us [])) = name_in (db s) ` {k. k \<noteq> i \<and> userExists (db s) k}" .
  have sound: "\<forall>t k. map_of (name_map us []) t = Some k \<longrightarrow> k \<noteq> i \<and> userExists (db s) k \<and> name_in (db s) k = t"
  proof (intro allI impI)
    fix t k assume "map_of (name_map us []) t = Some k"
    then have "(t, k) \<in> set (map (\<lambda>(k, t). (t, k)) (rev us))"
      unfolding m by (rule map_of_SomeD)
    then show "k \<noteq> i \<and> userExists (db s) k \<and> name_in (db s) k = t"
      using listed [of k t] by auto
  qed
  have exact: "distinct (map snd us) \<longrightarrow>
      (\<forall>t k. map_of (name_map us []) t = Some k \<longleftrightarrow> k \<noteq> i \<and> userExists (db s) k \<and> name_in (db s) k = t)"
    using listed by (simp add: map_of_name_map_distinct)
  show ?thesis
    by (intro exI conjI) (rule s'(1) s'(2) handleRespUsers_ok [OF s'(3) assms(5)] dom sound m exact)+
qed

theorem users_roundtrip_witness:
  "\<exists>s' c' m. server_call no_hdr no_req rev 9 two_user_server blank_client (ReqUsers 0) = Inr (s', c')
    \<and> handleRespUsers c' [(''old'', 7)] = Inr (c', True, m) \<and> map_of m ''bob'' = Some 1
    \<and> map_of m ''old'' = None"
proof -
  have [simp]: "db two_user_server = two_users" by (simp add: two_user_server_def)
  have us: "[(1, ''bob'')] = other_users 0 (rev (user_map (db two_user_server)))"
    and user: "userExists (db two_user_server) 0"
    and fits: "call_fits (tx_buffer two_user_server) blank_client (ReqUsers 0) (UsersOk [(1, ''bob'')])"
    by (simp_all add: fits_simps two_users_eq other_users_def userExists_def)
  have inv: "db_inv (db two_user_server)" and ok: "response_ok (UsersOk [(1, ''bob'')])"
    by (simp_all add: two_users_inv)
  obtain s' c' m where r: "server_call no_hdr no_req rev 9 two_user_server blank_client (ReqUsers 0) = Inr (s', c')"
    "handleRespUsers c' [(''old'', 7)] = Inr (c', True, m)" "map_of m = map_of (map (\<lambda>(k, t). (t, k)) (rev [(1, ''bob'')]))"
    using users_roundtrip [OF inv iteration_order_rev user us ok fits, of no_hdr no_req 9 "[(''old'', 7)]"]
    by (elim exE conjE) (rule that, assumption+)
  have "map_of m ''bob'' = Some 1" "map_of m ''old'' = None"
    by (simp_all add: r(3))
  with r(1,2) show ?thesis by blast
qed

text \<open>
  C38. A negative answer to a receive request that arrives in a buffer which still
  holds an earlier answer makes the client report success and return the earlier
  messages a second time.
\<close>

theorem negative_recv_replays_messages:
  assumes "c_rx c = response_bytes (RecvOk ms) @ rest" "response_ok (RecvOk ms)"
    and "store_at (c_rx c) 0 (response_bytes RecvErr) = Inr rx"
  shows "\<exists>c'. handleRespRecv (c\<lparr>c_rx := rx\<rparr>) acc = Inr (c', True, acc @ ms)"
proof -
  let ?h = "Header_bytes \<lparr>hdr_type = PacketType_code kRespRecv, hdr_len = response_len RecvErr\<rparr>"
  let ?pre = "?h @ [1] @ le32 (word_of_nat (length ms))"
  have rx: "rx = ?pre @ recv_payload ms @ rest"
    using assms(1,3) by (simp add: store_at_def response_bytes_def split: if_splits)
  have "respRecv_loop (length ms) rx 10 acc = Inr (acc @ ms)"
    using respRecv_loop_payload [of ms ?pre rest acc] assms(2) by (simp add: rx)
  moreover have "validateRespHeader (c\<lparr>c_rx := rx\<rparr>) kRespRecv = Inr True"
    by (simp add: validateRespHeader_def rx load_Header_bytes)
  moreover have "load_at rx 5 1 = Inr [1]" "load32 rx 6 = Inr (word_of_nat (length ms))"
    by (simp_all add: rx load_payload_byte load_payload_u32)
  ultimately show ?thesis
    using assms(2) by (simp add: handleRespRecv_def sizeof_Header_def c_err_def Let_def)
qed

theorem negative_recv_replays_messages_witness:
  "\<exists>rx c'. store_at (response_bytes (RecvOk [\<lparr>sender_id = 4, msg = ''hi''\<rparr>])) 0 (response_bytes RecvErr) = Inr rx
    \<and> handleRespRecv (blank_client\<lparr>c_rx := rx\<rparr>) [] = Inr (c', True, [\<lparr>sender_id = 4, msg = ''hi''\<rparr>])"
proof -
  let ?ms = "[\<lparr>sender_id = 4, msg = ''hi''\<rparr>]"
  let ?c = "blank_client\<lparr>c_rx := response_bytes (RecvOk ?ms)\<rparr>"
  have "c_rx ?c = response_bytes (RecvOk ?ms) @ []" by simp
  moreover have "store_at (c_rx ?c) 0 (response_bytes RecvErr)
      = Inr (response_bytes RecvErr @ drop 6 (response_bytes (RecvOk ?ms)))"
    by (simp add: store_at_def length_response_bytes)
  ultimately show ?thesis
    using negative_recv_replays_messages [of ?c ?ms "[]" _ "[]"] by auto
qed

end
