(* ===== verification/Mcc_System.thy ===== *)
theory Mcc_System
  imports Mcc_Protocol
begin

text \<open>
  The server and any number of users of the binary protocol together. A user registers
  once and then sends, receives and lists users under its id, each a call of its client
  object; the calls of different users come in any order. Next to the state the messages
  that were reported as sent are recorded, and the invariant relates them to what was
  received and what is waiting.
\<close>

section \<open>What a call that returns has done\<close>

text \<open>
  The contract of a service that serves nothing else: when it returns, the request was
  well-formed and the response fitted its buffer.
\<close>

locale mcc_exact_service = mcc_service +
  assumes respond_only:
    "\<lbrakk>inv s; length (request_bytes r) < 2 ^ 32; respond s (request_bytes r) = Inr (s', n);
      serve iter (view s) r = (d, resp)\<rbrakk> \<Longrightarrow>
     request_ok r \<and> response_ok resp \<and> length (response_bytes resp) \<le> length (out s)"
    and out_small: "inv s \<Longrightarrow> length (out s) < 2 ^ 32"
begin

lemma call_returns:
  assumes "call respond out s c r = Inr (s', c')" "inv s" "length (c_tx c) < 2 ^ 32"
  obtains d resp rest where "serve iter (view s) r = (d, resp)" "request_ok r" "response_ok resp"
    "inv s'" "view s' = d" "c_rx c' = response_bytes resp @ rest"
    "length (out s') = length (out s)" "length (c_tx c') = length (c_tx c)"
proof -
  let ?req = "request_bytes r"
  obtain d resp where srv: "serve iter (view s) r = (d, resp)" by force
  have fit: "length ?req \<le> length (c_tx c)"
    using assms(1) by (auto simp: call_def encode_eq split: if_splits)
  have tx: "load_at (sent ?req (c_tx c)) 0 (length ?req) = Inr ?req"
    unfolding sent_def by (rule load_at_prefix) simp
  obtain n got rx where ex: "respond s ?req = Inr (s', n)" "load_at (out s') 0 n = Inr got"
    "store_at (c_rx c) 0 got = Inr rx" "c' = c\<lparr>c_tx := sent ?req (c_tx c), c_rx := rx\<rparr>"
    using assms(1) fit by (auto simp: call_def encode_eq exchange_def tx rbind_eq_Inr)
  have ok: "request_ok r" "response_ok resp" "length (response_bytes resp) \<le> length (out s)"
    using respond_only [OF assms(2) _ ex(1) srv] fit assms(3) by simp_all
  obtain rest' where s': "n = response_size resp" "inv s'" "view s' = d"
    "length (out s') = length (out s)" "out s' = response_bytes resp @ rest'"
    using respond_serves [OF assms(2) ok(1) srv ok(2,3), of "[]"] ex(1) by auto
  have "length (response_payload resp) + 5 < 2 ^ 32"
    using ok(3) out_small [OF assms(2)] by (simp add: length_response_bytes)
  then have "length (response_bytes resp) \<le> n"
    using response_size_exact [of resp] s'(1) by simp
  then obtain extra where "got = response_bytes resp @ extra"
    using ex(2) s'(5) by (auto simp: load_at_def split: if_splits)
  then obtain rest where "rx = response_bytes resp @ rest"
    using ex(3) by (auto simp: store_at_def split: if_splits)
  then show thesis
    using srv ok s' ex(4) fit by (intro that) (simp_all add: sent_def)
qed

end

section \<open>The server answers nothing else\<close>

text \<open>Names and messages are as short as the length fields of the requests they came with.\<close>

definition texts_short :: "Database \<Rightarrow> bool" where
  "texts_short d \<longleftrightarrow> (\<forall>i. length (name_in d i) < 2 ^ 32 \<and> (\<forall>m\<in>set (inbox_of d i). length (msg m) < 2 ^ 32))"

lemma name_in_queueMsg [simp]: "name_in (fst (queueMsg d i m)) j = name_in d j"
  by (simp add: queueMsg_eq name_in_def)

lemma name_in_clearMsgs [simp]: "name_in (clearMsgs d i) j = name_in d j"
  by (simp add: clearMsgs_def name_in_def)

lemma texts_short_serve:
  assumes "texts_short d" "request_ok r"
  shows "texts_short (fst (serve iter d r))"
proof (cases r)
  case (ReqRegister name)
  with assms show ?thesis
    by (auto simp: texts_short_def case_prod_beta db.inbox_register db.name_register)
next
  case (ReqSend src trgt m)
  with assms show ?thesis
    by (auto simp: texts_short_def db.inbox_enqueue)
next
  case (ReqRecv i)
  with assms show ?thesis
    by (auto simp: texts_short_def db.inbox_flush)
qed (use assms in simp)

lemma other_users_short:
  assumes "db_inv d" "iteration_order iter" "userExists d i"
  shows "length (other_users i (iter (user_map d))) < 2 ^ 32"
proof -
  let ?keep = "\<lambda>e. fst e \<noteq> i"
  have d: "distinct (map fst (user_map d))"
    using assms(1) by (simp add: db_inv_def)
  have "mset (iter (user_map d)) = mset (user_map d)"
    using assms(2) by (simp add: iteration_order_def)
  then have "length (filter ?keep (iter (user_map d))) = length (filter ?keep (user_map d))"
    by (metis mset_filter size_mset)
  also have "\<dots> < length (user_map d)"
    using assms(3) by (auto simp: userExists_iff user_ids_def intro: length_filter_less)
  also have "\<dots> = card (user_ids d)"
    using d by (rule length_user_map)
  also have "\<dots> \<le> card (UNIV :: user_id_t set)"
    by (rule card_mono) simp_all
  finally show ?thesis
    by (simp add: other_users_def card_word)
qed

lemma serve_entries_short:
  assumes "db_inv d" "iteration_order iter" "texts_short d" "serve iter d r = (d', resp)"
  shows "entries_short resp"
proof (cases r)
  case (ReqUsers i)
  have "list_all (\<lambda>u. length (snd u) < 2 ^ 32) (other_users i (iter (user_map d)))"
    unfolding list_all_iff using set_other_users [OF assms(1,2)] assms(3) by (auto simp: texts_short_def)
  then show ?thesis
    using assms(4) other_users_short [OF assms(1,2)] by (auto simp: ReqUsers split: if_splits)
next
  case (ReqRecv i)
  with assms(3,4) show ?thesis
    by (auto simp: list_all_iff texts_short_def split: if_splits)
qed (use assms(4) in \<open>auto simp: Let_def split: prod.splits if_splits\<close>)

lemma length_recv_payload: "length ms \<le> length (recv_payload ms)"
  by (induction ms) (simp_all add: recv_payload_def)

lemma response_ok_short:
  assumes "entries_short resp" "length (response_bytes resp) < 2 ^ 32"
  shows "response_ok resp"
proof (cases resp)
  case (RecvOk ms)
  then show ?thesis
    using assms length_recv_payload [of ms] by (simp add: length_response_bytes)
qed (use assms(1) in simp_all)

definition server_ok ::
    "((user_id_t \<times> UserMetadata) list \<Rightarrow> (user_id_t \<times> UserMetadata) list) \<Rightarrow> MccServer \<Rightarrow> bool" where
  "server_ok iter s \<longleftrightarrow> db_inv (db s) \<and> iteration_order iter \<and> texts_short (db s) \<and> length (tx_buffer s) < 2 ^ 32"

lemma parse_answers_only_ok:
  assumes "length (request_bytes r) < 2 ^ 32" "parse ph pr iter s (request_bytes r) sz = Inr (s', n)"
  shows "request_ok r"
proof (cases r)
  case (ReqSend src trgt m)
  have "m \<noteq> []"
  proof
    assume "m = []"
    then have "parse ph pr iter s (request_bytes r) sz = Inl AssertFailure"
      using parse_malformed [of _ "\<lparr>hdr_type = PacketType_code kRequestSend, hdr_len = 8\<rparr>" "le32 src @ le32 trgt"]
      by (simp add: ReqSend bytes_of_string_def)
    with assms(2) show False by simp
  qed
  with assms(1) show ?thesis by (simp add: ReqSend)
qed (use assms(1) in simp_all)

interpretation exact: mcc_exact_service "server_ok iter" db tx_buffer
    "\<lambda>s data. parse ph pr iter s data sz" iter
  for ph pr iter sz
proof unfold_locales
  fix s s' :: MccServer and r d resp rest n
  assume inv: "server_ok iter s"
  then have s: "db_inv (db s)" "iteration_order iter" "texts_short (db s)" "length (tx_buffer s) < 2 ^ 32"
    by (simp_all add: server_ok_def)
  show "length (tx_buffer s) < 2 ^ 32" by (rule s(4))
  assume srv: "serve iter (db s) r = (d, resp)"
  show "\<exists>s' rest'. parse ph pr iter s (request_bytes r @ rest) sz = Inr (s', response_size resp)
      \<and> server_ok iter s' \<and> db s' = d \<and> length (tx_buffer s') = length (tx_buffer s)
      \<and> tx_buffer s' = response_bytes resp @ rest'"
    if "request_ok r" "response_ok resp" "length (response_bytes resp) \<le> length (tx_buffer s)"
    using server.respond_serves [of s iter r d resp ph pr rest sz] texts_short_serve [OF s(3) that(1), of iter]
      s srv that by (fastforce simp: server_ok_def)
  show "request_ok r \<and> response_ok resp \<and> length (response_bytes resp) \<le> length (tx_buffer s)"
    if len: "length (request_bytes r) < 2 ^ 32" and run: "parse ph pr iter s (request_bytes r) sz = Inr (s', n)"
  proof -
    have r: "request_ok r"
      by (rule parse_answers_only_ok [OF len run])
    have short: "entries_short resp"
      by (rule serve_entries_short [OF s(1-3) srv])
    have "answered s d resp (Inr (s', n))"
      using parse_serves_entries [OF s(1,2) r srv short, of ph pr "[]" sz] run by simp
    then have fits: "length (response_bytes resp) \<le> length (tx_buffer s)"
      by (auto simp: answered_def split: if_splits)
    with r s(4) response_ok_short [OF short] show ?thesis by simp
  qed
qed

section \<open>Server and users\<close>

record Mcc_User =
  mu_client :: MccClient
  mu_id :: "user_id_t option"
  mu_name :: string
  mu_names :: "(string \<times> user_id_t) list"
  mu_msgs :: "Msg list"

text \<open>\<open>net_sent\<close>: the recipient and the message of every send that was reported as a success.\<close>

record Mcc_Net =
  net_server :: MccServer
  net_users :: "Mcc_User list"
  net_sent :: "(user_id_t \<times> Msg) list"

definition Mcc_User_init :: "nat \<Rightarrow> nat \<Rightarrow> Mcc_User" where
  "Mcc_User_init m n = \<lparr>mu_client = MccClient_new (replicate m 0) (replicate n 0),
     mu_id = None, mu_name = [], mu_names = [], mu_msgs = []\<rparr>"

definition Mcc_Net_init :: "nat \<Rightarrow> (nat \<times> nat) list \<Rightarrow> Mcc_Net" where
  "Mcc_Net_init k sizes = \<lparr>net_server = fresh_server k,
     net_users = map (\<lambda>(m, n). Mcc_User_init m n) sizes, net_sent = []\<rparr>"

text \<open>
  A step is a call of one user and the handler of its response; a call that ends in a fault
  ends the program and has no step. The order in which the server iterates may differ
  from call to call.
\<close>

inductive net_step ::
    "(bytes \<Rightarrow> bool \<times> mcc_Header \<times> bytes) \<Rightarrow> (bytes \<Rightarrow> bool \<times> RequestRegister \<times> bytes) \<Rightarrow>
     nat \<Rightarrow> Mcc_Net \<Rightarrow> Mcc_Net \<Rightarrow> bool"
  for ph pr sz where
  net_register: "u < length (net_users s) \<Longrightarrow> U = net_users s ! u \<Longrightarrow> mu_id U = None \<Longrightarrow> iteration_order iter \<Longrightarrow>
     server_call ph pr iter sz (net_server s) (mu_client U) (ReqRegister name) = Inr (sv, c) \<Longrightarrow>
     handleRespRegister c j = Inr (c', ok, i) \<Longrightarrow>
     net_step ph pr sz s (s\<lparr>net_server := sv, net_users := (net_users s)[u :=
       U\<lparr>mu_client := c', mu_id := if ok then Some i else None, mu_name := name\<rparr>]\<rparr>)"
| net_list: "u < length (net_users s) \<Longrightarrow> U = net_users s ! u \<Longrightarrow> mu_id U = Some i \<Longrightarrow> iteration_order iter \<Longrightarrow>
     server_call ph pr iter sz (net_server s) (mu_client U) (ReqUsers i) = Inr (sv, c) \<Longrightarrow>
     handleRespUsers c (mu_names U) = Inr (c', ok, names) \<Longrightarrow>
     net_step ph pr sz s (s\<lparr>net_server := sv, net_users := (net_users s)[u :=
       U\<lparr>mu_client := c', mu_names := names\<rparr>]\<rparr>)"
| net_send: "u < length (net_users s) \<Longrightarrow> U = net_users s ! u \<Longrightarrow> mu_id U = Some i \<Longrightarrow> iteration_order iter \<Longrightarrow>
     server_call ph pr iter sz (net_server s) (mu_client U) (ReqSend i t m) = Inr (sv, c) \<Longrightarrow>
     handleRespSend c x = Inr (c', ok, stat) \<Longrightarrow>
     net_step ph pr sz s (s\<lparr>net_server := sv, net_users := (net_users s)[u := U\<lparr>mu_client := c'\<rparr>],
       net_sent := net_sent s @ (if ok \<and> stat = SendStatus_code kSuccess
         then [(t, \<lparr>sender_id = i, msg = m\<rparr>)] else [])\<rparr>)"
| net_recv: "u < length (net_users s) \<Longrightarrow> U = net_users s ! u \<Longrightarrow> mu_id U = Some i \<Longrightarrow> iteration_order iter \<Longrightarrow>
     server_call ph pr iter sz (net_server s) (mu_client U) (ReqRecv i) = Inr (sv, c) \<Longrightarrow>
     handleRespRecv c (mu_msgs U) = Inr (c', ok, ms) \<Longrightarrow>
     net_step ph pr sz s (s\<lparr>net_server := sv, net_users := (net_users s)[u :=
       U\<lparr>mu_client := c', mu_msgs := ms\<rparr>]\<rparr>)"

text \<open>The buffers have some sizes below \<open>2 ^ 32\<close>.\<close>

inductive net_reachable ::
    "(bytes \<Rightarrow> bool \<times> mcc_Header \<times> bytes) \<Rightarrow> (bytes \<Rightarrow> bool \<times> RequestRegister \<times> bytes) \<Rightarrow>
     nat \<Rightarrow> Mcc_Net \<Rightarrow> bool"
  for ph pr sz where
  net_init: "k < 2 ^ 32 \<Longrightarrow> list_all (\<lambda>(m, n). m < 2 ^ 32) sizes \<Longrightarrow>
     net_reachable ph pr sz (Mcc_Net_init k sizes)"
| net_next: "net_reachable ph pr sz s \<Longrightarrow> net_step ph pr sz s s' \<Longrightarrow> net_reachable ph pr sz s'"

section \<open>The invariant\<close>

text \<open>What one user holds: nothing before it has registered, and then its own messages.\<close>

definition user_ok :: "Database \<Rightarrow> (user_id_t \<times> Msg) list \<Rightarrow> Mcc_User \<Rightarrow> bool" where
  "user_ok d hist U \<longleftrightarrow> length (c_tx (mu_client U)) < 2 ^ 32 \<and>
     (case mu_id U of
        None \<Rightarrow> mu_msgs U = [] \<and> mu_names U = []
      | Some i \<Rightarrow> userExists d i \<and> name_in d i = mu_name U
          \<and> mu_msgs U @ inbox_of d i = addressed_to i hist
          \<and> (\<forall>t k. map_of (mu_names U) t = Some k \<longrightarrow> k \<noteq> i \<and> userExists d k \<and> name_in d k = t))"

text \<open>Every recorded message went from a user of the system to a registered id.\<close>

definition sent_ok :: "Database \<Rightarrow> user_id_t option list \<Rightarrow> (user_id_t \<times> Msg) list \<Rightarrow> bool" where
  "sent_ok d ids hist \<longleftrightarrow> (\<forall>(t, m)\<in>set hist. userExists d t \<and> Some (sender_id m) \<in> set ids)"

definition users_apart :: "user_id_t option list \<Rightarrow> bool" where
  "users_apart ids \<longleftrightarrow> (\<forall>u v. u < length ids \<and> v < length ids \<and> u \<noteq> v \<and> ids ! u \<noteq> None
     \<longrightarrow> ids ! u \<noteq> ids ! v)"

definition net_inv :: "Mcc_Net \<Rightarrow> bool" where
  "net_inv s \<longleftrightarrow> server_ok id (net_server s)
     \<and> (\<forall>u<length (net_users s). user_ok (db (net_server s)) (net_sent s) (net_users s ! u))
     \<and> users_apart (map mu_id (net_users s))
     \<and> sent_ok (db (net_server s)) (map mu_id (net_users s)) (net_sent s)"

lemma net_inv_init: "k < 2 ^ 32 \<Longrightarrow> list_all (\<lambda>(m, n). m < 2 ^ 32) sizes \<Longrightarrow> net_inv (Mcc_Net_init k sizes)"
  using db_inv_init
  by (auto simp: net_inv_def Mcc_Net_init_def Mcc_User_init_def fresh_server_def server_ok_def
      iteration_order_def texts_short_def user_ok_def users_apart_def sent_ok_def list_all_length
      name_in_def inbox_of_def Database_at_def Database_init_def split: prod.splits)

lemma server_ok_iter: "server_ok id s \<Longrightarrow> iteration_order iter \<Longrightarrow> server_ok iter s"
  by (simp add: server_ok_def)

lemma server_ok_id: "server_ok iter s \<Longrightarrow> server_ok id s"
  by (simp add: server_ok_def iteration_order_def)

text \<open>The other users when the database has grown and some inboxes got what was recorded.\<close>

lemma user_ok_grows:
  assumes "user_ok d hist V"
    and "\<And>j. userExists d j \<Longrightarrow> userExists d' j \<and> name_in d' j = name_in d j"
    and "\<And>i. mu_id V = Some i \<Longrightarrow> userExists d i \<Longrightarrow>
      inbox_of d' i = inbox_of d i @ new i \<and> addressed_to i hist' = addressed_to i hist @ new i"
  shows "user_ok d' hist' V"
proof (cases "mu_id V")
  case None
  with assms(1) show ?thesis by (simp add: user_ok_def)
next
  case (Some i)
  have "userExists d i" "name_in d i = mu_name V" "mu_msgs V @ inbox_of d i = addressed_to i hist"
    "\<And>t k. map_of (mu_names V) t = Some k \<Longrightarrow> k \<noteq> i \<and> userExists d k \<and> name_in d k = t"
    "length (c_tx (mu_client V)) < 2 ^ 32"
    using assms(1) by (simp_all add: user_ok_def Some)
  then show ?thesis
    using assms(2) assms(3) [OF Some] unfolding user_ok_def Some option.case
    by (metis append_assoc)
qed

lemma net_inv_step:
  assumes "net_inv s" "u < length (net_users s)"
    and "net_users s' = (net_users s)[u := U]" "map mu_id (net_users s') = ids"
    and "server_ok id (net_server s')" "users_apart ids"
    and "sent_ok (db (net_server s')) ids (net_sent s')"
    and "user_ok (db (net_server s')) (net_sent s') U"
    and "\<And>v. v < length (net_users s) \<Longrightarrow> v \<noteq> u \<Longrightarrow> user_ok (db (net_server s)) (net_sent s) (net_users s ! v) \<Longrightarrow>
      user_ok (db (net_server s')) (net_sent s') (net_users s ! v)"
  shows "net_inv s'"
  using assms by (auto simp: net_inv_def nth_list_update)

lemma mu_ids_same: "u < length us \<Longrightarrow> mu_id U = mu_id (us ! u) \<Longrightarrow> map mu_id (us[u := U]) = map mu_id us"
  by (simp add: map_update) (metis list_update_id nth_map map_update)

lemma addressed_to_simps [simp]:
  "addressed_to i [] = []" "addressed_to i (xs @ ys) = addressed_to i xs @ addressed_to i ys"
  "addressed_to i [(t, m)] = (if t = i then [m] else [])"
  by (simp_all add: addressed_to_def)

text \<open>A user's id stays its own.\<close>

lemma users_apart_other:
  "users_apart (map mu_id us) \<Longrightarrow> u < length us \<Longrightarrow> v < length us \<Longrightarrow> v \<noteq> u \<Longrightarrow>
   mu_id (us ! u) = Some i \<Longrightarrow> mu_id (us ! v) \<noteq> Some i"
  unfolding users_apart_def by (metis length_map nth_map option.distinct(1))

lemma name_map_entry: "map_of (name_map us []) t = Some k \<Longrightarrow> (k, t) \<in> set us"
  by (auto simp: map_of_name_map dest!: map_of_SomeD)

lemma full_users: "db_inv d \<Longrightarrow> db_inv d' \<Longrightarrow> (\<And>j. userExists d j \<Longrightarrow> userExists d' j) \<Longrightarrow> db_full d \<Longrightarrow> db_full d'"
  by (auto simp: db_full_iff userExists_iff)

lemma SendStatus_code_eq: "SendStatus_code a = SendStatus_code b \<longleftrightarrow> a = b"
  by (metis SendStatus_of_code option.inject)

text \<open>Registering on a database that is not full.\<close>

lemma registration_ok:
  assumes inv: "net_inv s" and u: "u < length (net_users s)" "mu_id (net_users s ! u) = None"
    and srv: "server_ok id sv" "db sv = d" "(d, i) = registerUser (db (net_server s)) name"
    and room: "\<not> db_full (db (net_server s))" and c: "length (c_tx c) < 2 ^ 32"
    and s': "net_server s' = sv" "net_sent s' = net_sent s"
      "net_users s' = (net_users s)[u := (net_users s ! u)\<lparr>mu_client := c, mu_id := Some i, mu_name := name\<rparr>]"
  shows "net_inv s'"
proof (rule net_inv_step [OF inv u(1) s'(3) refl])
  let ?d = "db (net_server s)" and ?us = "net_users s"
  have d: "db_inv ?d" and di: "d = fst (registerUser ?d name)" "i = snd (registerUser ?d name)"
    and ok: "user_ok ?d (net_sent s) (?us ! u)" and sent_ok: "sent_ok ?d (map mu_id ?us) (net_sent s)"
    and apart: "users_apart (map mu_id ?us)"
    using inv u(1) srv(3) by (auto simp: net_inv_def server_ok_def prod_eq_iff)
  have fresh: "\<not> userExists ?d i"
    using db.register_fresh [OF d room] by (simp add: di)
  then have none: "addressed_to i (net_sent s) = []"
    using sent_ok by (auto simp: addressed_to_def sent_ok_def filter_empty_conv)
  have ids: "map mu_id (net_users s') = (map mu_id ?us)[u := Some i]"
    by (simp add: s' map_update)
  show "server_ok id (net_server s')" by (simp add: s' srv(1))
  have "mu_id (?us ! v) \<noteq> Some i" if "v < length ?us" for v
    using inv that fresh by (auto simp: net_inv_def user_ok_def)
  then show "users_apart (map mu_id (net_users s'))"
    using apart u(1) unfolding ids users_apart_def by (simp add: nth_list_update) metis
  have keep: "set (map mu_id ?us) \<subseteq> insert None (set (map mu_id (net_users s')))"
  proof
    fix x
    assume "x \<in> set (map mu_id ?us)"
    then obtain v where "v < length ?us" "x = mu_id (?us ! v)"
      by (auto simp: in_set_conv_nth)
    then show "x \<in> insert None (set (map mu_id (net_users s')))"
      using u unfolding ids by (cases "v = u") (auto simp: set_conv_nth nth_list_update intro!: exI [of _ v])
  qed
  show "sent_ok (db (net_server s')) (map mu_id (net_users s')) (net_sent s')"
    using sent_ok keep unfolding sent_ok_def s' srv(2) di by (fastforce simp: db.known_register)
  show "user_ok (db (net_server s')) (net_sent s') ((?us ! u)\<lparr>mu_client := c, mu_id := Some i, mu_name := name\<rparr>)"
    using ok u(2) none c by (simp add: user_ok_def s' srv(2) di db.known_register db.name_register db.inbox_register)
  show "user_ok (db (net_server s')) (net_sent s') (?us ! v)"
    if "v < length ?us" "v \<noteq> u" "user_ok ?d (net_sent s) (?us ! v)" for v
    using that(3)
  proof (rule user_ok_grows [where new = "\<lambda>_. []"])
    show "userExists (db (net_server s')) j \<and> name_in (db (net_server s')) j = name_in ?d j" if "userExists ?d j" for j
      using that db.register_keeps_users [OF d room that] by (simp add: s' srv(2) di)
    show "inbox_of (db (net_server s')) j = inbox_of ?d j @ [] \<and> addressed_to j (net_sent s') = addressed_to j (net_sent s) @ []"
      if "userExists ?d j" for j
      using db.register_keeps_users [OF d room that] by (simp add: s' srv(2) di)
  qed
qed

text \<open>A step of a registered user that keeps all ids.\<close>

lemma own_step_ok:
  assumes inv: "net_inv s" and u: "u < length (net_users s)" "mu_id U = mu_id (net_users s ! u)"
    and srv: "server_ok id (net_server s')"
    and s': "net_users s' = (net_users s)[u := U]"
    and grows: "\<And>j. userExists (db (net_server s)) j \<Longrightarrow>
      userExists (db (net_server s')) j \<and> name_in (db (net_server s')) j = name_in (db (net_server s)) j"
    and hist: "sent_ok (db (net_server s')) (map mu_id (net_users s)) (net_sent s')"
    and own: "user_ok (db (net_server s')) (net_sent s') U"
    and others: "\<And>j. userExists (db (net_server s)) j \<Longrightarrow> Some j \<noteq> mu_id U \<or> keep \<Longrightarrow>
      inbox_of (db (net_server s')) j = inbox_of (db (net_server s)) j @ new j
      \<and> addressed_to j (net_sent s') = addressed_to j (net_sent s) @ new j"
  shows "net_inv s'"
proof (rule net_inv_step [OF inv u(1) s' refl srv])
  have ids: "map mu_id (net_users s') = map mu_id (net_users s)"
    unfolding s' by (rule mu_ids_same [OF u])
  have apart: "users_apart (map mu_id (net_users s))"
    using inv by (simp add: net_inv_def)
  then show "users_apart (map mu_id (net_users s'))" by (simp only: ids)
  show "sent_ok (db (net_server s')) (map mu_id (net_users s')) (net_sent s')"
    using hist by (simp only: ids)
  show "user_ok (db (net_server s')) (net_sent s') U" by (rule own)
  show "user_ok (db (net_server s')) (net_sent s') (net_users s ! v)"
    if v: "v < length (net_users s)" "v \<noteq> u" and ok: "user_ok (db (net_server s)) (net_sent s) (net_users s ! v)" for v
    using ok grows
  proof (rule user_ok_grows)
    fix i
    assume i: "mu_id (net_users s ! v) = Some i" and known: "userExists (db (net_server s)) i"
    have "Some i \<noteq> mu_id U"
      using users_apart_other [OF apart u(1) v, of i] i u(2) by metis
    then show "inbox_of (db (net_server s')) i = inbox_of (db (net_server s)) i @ new i
        \<and> addressed_to i (net_sent s') = addressed_to i (net_sent s) @ new i"
      using others [OF known] by blast
  qed
qed

text \<open>What holds even when ids run out.\<close>

definition buffers_ok :: "Mcc_Net \<Rightarrow> bool" where
  "buffers_ok s \<longleftrightarrow> server_ok id (net_server s) \<and> (\<forall>u<length (net_users s). length (c_tx (mu_client (net_users s ! u))) < 2 ^ 32)"

lemma net_call:
  assumes "server_call ph pr iter sz sv0 c0 r = Inr (sv, c)" "server_ok id sv0" "iteration_order iter"
    and "length (c_tx c0) < 2 ^ 32"
  obtains d resp rest where "serve iter (db sv0) r = (d, resp)" "request_ok r" "response_ok resp"
    "server_ok id sv" "db sv = d" "c_rx c = response_bytes resp @ rest" "length (c_tx c) < 2 ^ 32"
  using exact.call_returns [OF assms(1) server_ok_iter [OF assms(2,3)] assms(4)] assms(4) server_ok_id
  by (metis (no_types, lifting))

lemma handler_keeps_tx:
  "handleRespRegister c j = Inr (c', ok, i) \<Longrightarrow> c_tx c' = c_tx c"
  "handleRespUsers c m = Inr (c', ok, m') \<Longrightarrow> c_tx c' = c_tx c"
  "handleRespSend c x = Inr (c', ok, st) \<Longrightarrow> c_tx c' = c_tx c"
  "handleRespRecv c ms = Inr (c', ok, ms') \<Longrightarrow> c_tx c' = c_tx c"
  by (auto simp: handleRespRegister_def handleRespUsers_def handleRespSend_def handleRespRecv_def
      rbind_eq_Inr c_err_def Let_def split: if_splits)

lemma serve_keeps_users: "userExists d j \<Longrightarrow> userExists (fst (serve iter d r)) j"
  by (cases r) (auto simp: case_prod_beta db.known_register db.known_enqueue db.known_flush)

lemma buffers_ok_call:
  assumes "buffers_ok s" "u < length (net_users s)" "iteration_order iter"
    and "server_call ph pr iter sz (net_server s) (mu_client (net_users s ! u)) r = Inr (sv, c)"
    and "net_server s' = sv" "net_users s' = (net_users s)[u := U]" "c_tx (mu_client U) = c_tx c"
  shows "buffers_ok s' \<and> (\<forall>j. userExists (db (net_server s)) j \<longrightarrow> userExists (db (net_server s')) j)"
proof -
  have "server_ok id (net_server s)" "length (c_tx (mu_client (net_users s ! u))) < 2 ^ 32"
    using assms(1,2) by (simp_all add: buffers_ok_def)
  from net_call [OF assms(4) this(1) assms(3) this(2)]
  have "server_ok id sv" "length (c_tx c) < 2 ^ 32" "db sv = fst (serve iter (db (net_server s)) r)"
    by (metis fst_conv)+
  then show ?thesis
    using assms by (auto simp: buffers_ok_def nth_list_update serve_keeps_users simp del: serve.simps)
qed

lemma buffers_ok_step:
  assumes "net_step ph pr sz s s'" "buffers_ok s"
  shows "buffers_ok s' \<and> (\<forall>j. userExists (db (net_server s)) j \<longrightarrow> userExists (db (net_server s')) j)"
  using assms
proof (induction rule: net_step.induct)
  case (net_register u s U iter name sv c j c' ok i)
  then show ?case
    by (intro buffers_ok_call [OF net_register.prems net_register.hyps(1,4),
          where U = "U\<lparr>mu_client := c', mu_id := if ok then Some i else None, mu_name := name\<rparr>"])
      (simp_all add: handler_keeps_tx(1) [OF net_register.hyps(6)])
next
  case (net_list u s U i iter sv c c' ok names)
  then show ?case
    by (intro buffers_ok_call [OF net_list.prems net_list.hyps(1,4), where U = "U\<lparr>mu_client := c', mu_names := names\<rparr>"])
      (simp_all add: handler_keeps_tx(2) [OF net_list.hyps(6)])
next
  case (net_send u s U i iter t m sv c x c' ok stat)
  then show ?case
    by (intro buffers_ok_call [OF net_send.prems net_send.hyps(1,4), where U = "U\<lparr>mu_client := c'\<rparr>"])
      (simp_all add: handler_keeps_tx(3) [OF net_send.hyps(6)])
next
  case (net_recv u s U i iter sv c c' ok ms)
  then show ?case
    by (intro buffers_ok_call [OF net_recv.prems net_recv.hyps(1,4), where U = "U\<lparr>mu_client := c', mu_msgs := ms\<rparr>"])
      (simp_all add: handler_keeps_tx(4) [OF net_recv.hyps(6)])
qed

lemma net_inv_buffers: "net_inv s \<Longrightarrow> buffers_ok s"
  by (simp add: net_inv_def buffers_ok_def user_ok_def)

text \<open>One step of each kind keeps the invariant.\<close>

lemma net_inv_user:
  assumes "net_inv s" "u < length (net_users s)" "U = net_users s ! u"
  shows "server_ok id (net_server s)" "length (c_tx (mu_client U)) < 2 ^ 32"
    "user_ok (db (net_server s)) (net_sent s) U"
    "sent_ok (db (net_server s)) (map mu_id (net_users s)) (net_sent s)"
  using assms by (simp_all add: net_inv_def user_ok_def)

lemma net_register_inv:
  assumes inv: "net_inv s" and room: "\<not> db_full (db (net_server s))"
    and move: "u < length (net_users s)"
      "U = net_users s ! u"
      "mu_id U = None"
      "iteration_order iter"
      "server_call ph pr iter sz (net_server s) (mu_client U) (ReqRegister name) = Inr (sv, c)"
      "handleRespRegister c j = Inr (c', ok, i)"
  shows "net_inv (s\<lparr>net_server := sv, net_users := (net_users s)[u :=
    U\<lparr>mu_client := c', mu_id := if ok then Some i else None, mu_name := name\<rparr>]\<rparr>)"
proof -
  have srv: "server_ok id (net_server s)" "length (c_tx (mu_client U)) < 2 ^ 32"
    using net_inv_user [OF inv move(1,2)] by blast+
  obtain d resp rest where call: "serve iter (db (net_server s)) (ReqRegister name) = (d, resp)"
    "server_ok id sv" "db sv = d" "c_rx c = response_bytes resp @ rest" "length (c_tx c) < 2 ^ 32"
    by (rule net_call [OF move(5) srv(1) move(4) srv(2)])
  obtain k where k: "registerUser (db (net_server s)) name = (d, k)" "resp = RegisterOk k"
    using call(1) by (auto split: prod.splits)
  have "c' = c" "ok" "i = k"
    using handleRespRegister_ok [of c k rest j] call(4) move(6) by (auto simp: k(2))
  with move(2,3) k(1) show ?thesis
    by (intro registration_ok [OF inv move(1) _ call(2,3) _ room call(5)])
      simp_all
qed

lemma net_list_inv:
  assumes inv: "net_inv s"
    and move: "u < length (net_users s)"
      "U = net_users s ! u"
      "mu_id U = Some i"
      "iteration_order iter"
      "server_call ph pr iter sz (net_server s) (mu_client U) (ReqUsers i) = Inr (sv, c)"
      "handleRespUsers c (mu_names U) = Inr (c', ok, names)"
  shows "net_inv (s\<lparr>net_server := sv, net_users := (net_users s)[u := U\<lparr>mu_client := c', mu_names := names\<rparr>]\<rparr>)"
proof -
  let ?d = "db (net_server s)"
  have srv: "server_ok id (net_server s)" "length (c_tx (mu_client U)) < 2 ^ 32"
    and own: "user_ok ?d (net_sent s) U" and hist: "sent_ok ?d (map mu_id (net_users s)) (net_sent s)"
    using net_inv_user [OF inv move(1,2)] by blast+
  obtain d resp rest where call: "serve iter ?d (ReqUsers i) = (d, resp)" "response_ok resp"
    "server_ok id sv" "db sv = d" "c_rx c = response_bytes resp @ rest" "length (c_tx c) < 2 ^ 32"
    by (rule net_call [OF move(5) srv(1) move(4) srv(2)])
  have "userExists ?d i"
    using own move(3) by (simp add: user_ok_def)
  then have d: "d = ?d" and resp: "resp = UsersOk (other_users i (iter (user_map ?d)))"
    using call(1) by auto
  have c: "c' = c" and names: "names = name_map (other_users i (iter (user_map ?d))) []"
    using handleRespUsers_ok [of c _ rest "mu_names U"] call(2,5) move(6) by (auto simp: resp)
  have "k \<noteq> i \<and> userExists ?d k \<and> name_in ?d k = t" if "map_of names t = Some k" for t k
    using that set_other_users [of ?d iter] srv(1) move(4)
    by (auto simp: names server_ok_def dest!: name_map_entry)
  then have "user_ok ?d (net_sent s) (U\<lparr>mu_client := c, mu_names := names\<rparr>)"
    using own move(3) call(6) by (simp add: user_ok_def)
  with move(2) hist call(3,4) d c show ?thesis
    by (intro own_step_ok [OF inv move(1), where keep = True and new = "\<lambda>_. []"]) simp_all
qed

lemma net_send_inv:
  assumes inv: "net_inv s"
    and move: "u < length (net_users s)"
      "U = net_users s ! u"
      "mu_id U = Some i"
      "iteration_order iter"
      "server_call ph pr iter sz (net_server s) (mu_client U) (ReqSend i t m) = Inr (sv, c)"
      "handleRespSend c x = Inr (c', ok, stat)"
  shows "net_inv (s\<lparr>net_server := sv, net_users := (net_users s)[u := U\<lparr>mu_client := c'\<rparr>],
    net_sent := net_sent s @ (if ok \<and> stat = SendStatus_code kSuccess
      then [(t, \<lparr>sender_id = i, msg = m\<rparr>)] else [])\<rparr>)"
proof -
  let ?d = "db (net_server s)" and ?m = "\<lparr>sender_id = i, msg = m\<rparr>"
  have srv: "server_ok id (net_server s)" "length (c_tx (mu_client U)) < 2 ^ 32"
    and own: "user_ok ?d (net_sent s) U" and hist: "sent_ok ?d (map mu_id (net_users s)) (net_sent s)"
    using net_inv_user [OF inv move(1,2)] by blast+
  obtain d resp rest where call: "serve iter ?d (ReqSend i t m) = (d, resp)"
    "server_ok id sv" "db sv = d" "c_rx c = response_bytes resp @ rest" "length (c_tx c) < 2 ^ 32"
    by (rule net_call [OF move(5) srv(1) move(4) srv(2)])
  have i: "userExists ?d i"
    using own move(3) by (simp add: user_ok_def)
  then obtain st where st: "resp = SendResp st" "st = kSuccess \<longleftrightarrow> userExists ?d t" "d = fst (queueMsg ?d t ?m)"
    using call(1) db.enqueue_unknown [of ?d t ?m] by (auto split: if_splits)
  have c: "c' = c" "ok" "stat = SendStatus_code st"
    using handleRespSend_ok [of c st rest x] call(4) move(6) by (auto simp: st(1))
  define new where "new = (if userExists ?d t then [(t, ?m)] else [])"
  have new: "(if ok \<and> stat = SendStatus_code kSuccess then [(t, ?m)] else []) = new"
    using st(2) SendStatus_code_eq [of st kSuccess] by (simp add: c new_def)
  have grows: "userExists d j = userExists ?d j" "name_in d j = name_in ?d j"
    "inbox_of d j = inbox_of ?d j @ addressed_to j new" for j
    by (cases "userExists ?d t"; simp add: st(3) db.known_enqueue db.inbox_enqueue db.enqueue_unknown new_def)+
  have "user_ok d (net_sent s @ new) (U\<lparr>mu_client := c\<rparr>)"
    using own move(3) call(5) by (simp add: user_ok_def grows flip: append_assoc)
  moreover have "sent_ok d (map mu_id (net_users s)) (net_sent s @ new)"
    using hist move(1-3) by (auto simp: sent_ok_def grows new_def) (metis image_eqI nth_mem)
  ultimately show ?thesis
    using move(2) call(2,3) c(1) new
    by (intro own_step_ok [OF inv move(1), where keep = True and new = "\<lambda>j. addressed_to j new"])
      (simp_all add: grows)
qed

lemma net_recv_inv:
  assumes inv: "net_inv s"
    and move: "u < length (net_users s)"
      "U = net_users s ! u"
      "mu_id U = Some i"
      "iteration_order iter"
      "server_call ph pr iter sz (net_server s) (mu_client U) (ReqRecv i) = Inr (sv, c)"
      "handleRespRecv c (mu_msgs U) = Inr (c', ok, ms)"
  shows "net_inv (s\<lparr>net_server := sv, net_users := (net_users s)[u := U\<lparr>mu_client := c', mu_msgs := ms\<rparr>]\<rparr>)"
proof -
  let ?d = "db (net_server s)"
  have srv: "server_ok id (net_server s)" "length (c_tx (mu_client U)) < 2 ^ 32"
    and own: "user_ok ?d (net_sent s) U" and hist: "sent_ok ?d (map mu_id (net_users s)) (net_sent s)"
    using net_inv_user [OF inv move(1,2)] by blast+
  obtain d resp rest where call: "serve iter ?d (ReqRecv i) = (d, resp)" "response_ok resp"
    "server_ok id sv" "db sv = d" "c_rx c = response_bytes resp @ rest" "length (c_tx c) < 2 ^ 32"
    by (rule net_call [OF move(5) srv(1) move(4) srv(2)])
  have i: "userExists ?d i"
    using own move(3) by (simp add: user_ok_def)
  then have d: "d = clearMsgs ?d i" and resp: "resp = RecvOk (inbox_of ?d i)"
    using call(1) by auto
  have c: "c' = c" "ms = mu_msgs U @ inbox_of ?d i"
    using handleRespRecv_ok [of c _ rest "mu_msgs U"] call(2,5) move(6) by (auto simp: resp)
  have keeps: "userExists d j = userExists ?d j" "name_in d j = name_in ?d j"
    "inbox_of d j = (if j = i then [] else inbox_of ?d j)" for j
    by (simp_all add: d db.known_flush [OF i] db.inbox_flush [OF i])
  have "user_ok d (net_sent s) (U\<lparr>mu_client := c, mu_msgs := ms\<rparr>)"
    using own move(3) call(6) by (simp add: user_ok_def keeps c(2))
  moreover have "sent_ok d (map mu_id (net_users s)) (net_sent s)"
    using hist by (simp add: sent_ok_def keeps)
  ultimately show ?thesis
    using move(2,3) call(3,4) c(1)
    by (intro own_step_ok [OF inv move(1), where keep = False and new = "\<lambda>_. []"
          and U = "U\<lparr>mu_client := c, mu_msgs := ms\<rparr>"])
      (simp_all add: keeps)
qed

lemma net_inv_next:
  assumes "net_step ph pr sz s s'" "net_inv s" "\<not> db_full (db (net_server s))"
  shows "net_inv s'"
  using assms
proof (induction rule: net_step.induct)
  case (net_register u s U iter name sv c j c' ok i)
  show ?case by (rule net_register_inv [OF net_register.prems net_register.hyps])
next
  case (net_list u s U i iter sv c c' ok names)
  show ?case by (rule net_list_inv [OF net_list.prems(1) net_list.hyps])
next
  case (net_send u s U i iter t m sv c x c' ok stat)
  show ?case by (rule net_send_inv [OF net_send.prems(1) net_send.hyps])
next
  case (net_recv u s U i iter sv c c' ok ms)
  show ?case by (rule net_recv_inv [OF net_recv.prems(1) net_recv.hyps])
qed

lemma net_reachable_inv:
  "net_reachable ph pr sz s \<Longrightarrow> buffers_ok s \<and> (\<not> db_full (db (net_server s)) \<longrightarrow> net_inv s)"
proof (induction rule: net_reachable.induct)
  case (net_init k sizes)
  then show ?case using net_inv_init net_inv_buffers by blast
next
  case (net_next s s')
  then have s: "buffers_ok s" "buffers_ok s'" "\<And>j. userExists (db (net_server s)) j \<Longrightarrow> userExists (db (net_server s')) j"
    using buffers_ok_step by blast+
  then have "db_full (db (net_server s)) \<Longrightarrow> db_full (db (net_server s'))"
    using full_users by (auto simp: buffers_ok_def server_ok_def)
  with net_next s(2) show ?case
    using net_inv_next by blast
qed

section \<open>What the users can do\<close>

text \<open>A registration over sufficient buffers succeeds and gives the next id.\<close>

lemma can_register:
  assumes "server_ok id (net_server s)" "u < length (net_users s)" "mu_id (net_users s ! u) = None"
    and "length name < 2 ^ 32" "registerUser (db (net_server s)) name = (d, i)"
    and "call_fits (tx_buffer (net_server s)) (mu_client (net_users s ! u)) (ReqRegister name) (RegisterOk i)"
  shows "\<exists>sv c. net_step ph pr sz s (s\<lparr>net_server := sv, net_users := (net_users s)[u :=
      (net_users s ! u)\<lparr>mu_client := c, mu_id := Some i, mu_name := name\<rparr>]\<rparr>)
    \<and> server_ok id sv \<and> db sv = d \<and> length (tx_buffer sv) = length (tx_buffer (net_server s))
    \<and> length (c_tx c) = length (c_tx (mu_client (net_users s ! u)))
    \<and> length (c_rx c) = length (c_rx (mu_client (net_users s ! u)))"
proof -
  have "serve id (db (net_server s)) (ReqRegister name) = (d, RegisterOk i)"
    using assms(5) by simp
  then obtain sv c rest where call: "server_call ph pr id sz (net_server s) (mu_client (net_users s ! u)) (ReqRegister name) = Inr (sv, c)"
    "server_ok id sv" "db sv = d" "length (tx_buffer sv) = length (tx_buffer (net_server s))"
    "c_rx c = response_bytes (RegisterOk i) @ rest"
    "length (c_rx c) = length (c_rx (mu_client (net_users s ! u)))"
    "length (c_tx c) = length (c_tx (mu_client (net_users s ! u)))"
    using exact.call_serves [OF assms(1), of "ReqRegister name" d "RegisterOk i" "mu_client (net_users s ! u)" ph pr sz] assms(4,6)
    by auto
  have "iteration_order id" by (simp add: iteration_order_def)
  from net_step.net_register [OF assms(2) refl assms(3) this call(1) handleRespRegister_ok [OF call(5), of 0]]
  show ?thesis
    unfolding if_True using call(2-4,6,7) by blast
qed

text \<open>A user can send to any registered user, and the message is recorded.\<close>

lemma can_send:
  assumes "server_ok id (net_server s)" "u < length (net_users s)" "mu_id (net_users s ! u) = Some i"
    and "userExists (db (net_server s)) i" "userExists (db (net_server s)) t" "m \<noteq> []" "8 + length m < 2 ^ 32"
    and "call_fits (tx_buffer (net_server s)) (mu_client (net_users s ! u)) (ReqSend i t m) (SendResp kSuccess)"
  shows "\<exists>sv c. net_step ph pr sz s (s\<lparr>net_server := sv, net_users := (net_users s)[u := (net_users s ! u)\<lparr>mu_client := c\<rparr>],
      net_sent := net_sent s @ [(t, \<lparr>sender_id = i, msg = m\<rparr>)]\<rparr>)
    \<and> server_ok id sv \<and> db sv = fst (queueMsg (db (net_server s)) t \<lparr>sender_id = i, msg = m\<rparr>)
    \<and> length (tx_buffer sv) = length (tx_buffer (net_server s))"
proof -
  let ?d = "fst (queueMsg (db (net_server s)) t \<lparr>sender_id = i, msg = m\<rparr>)"
  have "serve id (db (net_server s)) (ReqSend i t m) = (?d, SendResp kSuccess)"
    using assms(4,5) by simp
  then obtain sv c rest where call: "server_call ph pr id sz (net_server s) (mu_client (net_users s ! u)) (ReqSend i t m) = Inr (sv, c)"
    "server_ok id sv" "db sv = ?d" "length (tx_buffer sv) = length (tx_buffer (net_server s))"
    "c_rx c = response_bytes (SendResp kSuccess) @ rest"
    using exact.call_serves [OF assms(1), of "ReqSend i t m" ?d "SendResp kSuccess" "mu_client (net_users s ! u)" ph pr sz] assms(6-8)
    by auto
  have "iteration_order id" by (simp add: iteration_order_def)
  from net_step.net_send [OF assms(2) refl assms(3) this call(1) handleRespSend_ok [OF call(5), of 0]] call
  show ?thesis by auto
qed

section \<open>Properties\<close>

text \<open>
  C2. No message is lost, doubled, reordered or misdelivered: in every state that the server
  and its users reach by any calls in any order, while ids are left, what a user has received
  followed by what waits for it on the server is exactly the list of messages that senders
  were told had been sent to it, in the order of sending, and each comes from a user of the
  system under that user's own id.
\<close>

theorem messages_delivered_once:
  assumes "net_reachable ph pr sz s" "\<not> db_full (db (net_server s))"
    and "u < length (net_users s)" "mu_id (net_users s ! u) = Some i"
  shows "mu_msgs (net_users s ! u) @ inbox_of (db (net_server s)) i = addressed_to i (net_sent s)
    \<and> (\<forall>m\<in>set (mu_msgs (net_users s ! u)). \<exists>v<length (net_users s). mu_id (net_users s ! v) = Some (sender_id m))"
proof -
  have inv: "net_inv s"
    using net_reachable_inv [OF assms(1)] assms(2) by blast
  then have own: "mu_msgs (net_users s ! u) @ inbox_of (db (net_server s)) i = addressed_to i (net_sent s)"
    and hist: "sent_ok (db (net_server s)) (map mu_id (net_users s)) (net_sent s)"
    using assms(3,4) by (auto simp: net_inv_def user_ok_def split: option.splits)
  have "\<exists>v<length (net_users s). mu_id (net_users s ! v) = Some (sender_id m)" if "m \<in> set (mu_msgs (net_users s ! u))" for m
  proof -
    have "m \<in> set (addressed_to i (net_sent s))"
      using that by (simp add: own [symmetric])
    then have "Some (sender_id m) \<in> set (map mu_id (net_users s))"
      using hist by (auto simp: addressed_to_def sent_ok_def)
    then show ?thesis by (auto simp: in_set_conv_nth)
  qed
  with own show ?thesis by blast
qed

text \<open>Two users register and the first sends a message to the second.\<close>

lemma two_register:
  obtains s c0 c1 where "net_reachable no_hdr no_req 8 s" "server_ok id (net_server s)"
    "db (net_server s) = fst (registerUser (fst (registerUser Database_init ''ann'')) ''bob'')"
    "length (tx_buffer (net_server s)) = 64" "net_sent s = []"
    "net_users s = [\<lparr>mu_client = c0, mu_id = Some 0, mu_name = ''ann'', mu_names = [], mu_msgs = []\<rparr>,
                    \<lparr>mu_client = c1, mu_id = Some 1, mu_name = ''bob'', mu_names = [], mu_msgs = []\<rparr>]"
    "length (c_tx c0) = 64" "length (c_rx c0) = 64" "length (c_tx c1) = 64" "length (c_rx c1) = 64"
proof -
  let ?s0 = "Mcc_Net_init 64 [(64, 64), (64, 64)]"
  let ?U = "Mcc_User_init 64 64"
  have r0: "net_reachable no_hdr no_req 8 ?s0"
    by (rule net_reachable.net_init) simp_all
  have i0: "server_ok id (net_server ?s0)"
    using net_reachable_inv [OF r0] by (simp add: buffers_ok_def)
  let ?d1 = "fst (registerUser Database_init ''ann'')" and ?d2 = "fst (registerUser (fst (registerUser Database_init ''ann'')) ''bob'')"
  have reg: "registerUser Database_init ''ann'' = (?d1, 0)" "registerUser ?d1 ''bob'' = (?d2, 1)"
    by (simp_all add: registerUser_def Database_init_def Let_def)
  have "call_fits (tx_buffer (net_server ?s0)) (mu_client (net_users ?s0 ! 0)) (ReqRegister ''ann'') (RegisterOk 0)"
    by (simp add: fits_simps Mcc_Net_init_def Mcc_User_init_def fresh_server_def)
  moreover have "db (net_server ?s0) = Database_init"
    by (simp add: Mcc_Net_init_def fresh_server_def)
  ultimately obtain sv0 c0 where st0: "net_step no_hdr no_req 8 ?s0 (?s0\<lparr>net_server := sv0, net_users := (net_users ?s0)[0 :=
      (net_users ?s0 ! 0)\<lparr>mu_client := c0, mu_id := Some 0, mu_name := ''ann''\<rparr>]\<rparr>)"
    "server_ok id sv0" "db sv0 = ?d1" "length (tx_buffer sv0) = 64" "length (c_tx c0) = 64" "length (c_rx c0) = 64"
    using can_register [OF i0, of 0 "''ann''" ?d1 0 no_hdr no_req 8] reg(1)
    by (auto simp: Mcc_Net_init_def Mcc_User_init_def fresh_server_def)
  let ?s1 = "\<lparr>net_server = sv0, net_users = [?U\<lparr>mu_client := c0, mu_id := Some 0, mu_name := ''ann''\<rparr>, ?U], net_sent = []\<rparr>"
  have r1: "net_reachable no_hdr no_req 8 ?s1"
    using net_reachable.net_next [OF r0 st0(1)] by (simp add: Mcc_Net_init_def)
  have "call_fits (tx_buffer (net_server ?s1)) (mu_client (net_users ?s1 ! 1)) (ReqRegister ''bob'') (RegisterOk 1)"
    using st0(4) by (simp add: fits_simps Mcc_User_init_def)
  then obtain sv1 c1 where st1: "net_step no_hdr no_req 8 ?s1 (?s1\<lparr>net_server := sv1, net_users := (net_users ?s1)[1 :=
      (net_users ?s1 ! 1)\<lparr>mu_client := c1, mu_id := Some 1, mu_name := ''bob''\<rparr>]\<rparr>)"
    "server_ok id sv1" "db sv1 = ?d2" "length (tx_buffer sv1) = 64" "length (c_tx c1) = 64" "length (c_rx c1) = 64"
    using can_register [of ?s1 1 "''bob''" ?d2 1 no_hdr no_req 8] reg(2) st0
    by (auto simp: Mcc_User_init_def)
  let ?us = "[\<lparr>mu_client = c0, mu_id = Some 0, mu_name = ''ann'', mu_names = [], mu_msgs = []\<rparr>,
    \<lparr>mu_client = c1, mu_id = Some 1, mu_name = ''bob'', mu_names = [], mu_msgs = []\<rparr>]"
  have "net_reachable no_hdr no_req 8 \<lparr>net_server = sv1, net_users = ?us, net_sent = []\<rparr>"
    using net_reachable.net_next [OF r1 st1(1)] by (simp add: Mcc_User_init_def)
  then show thesis
    by (rule that [of _ c0 c1]) (simp_all add: st0 st1)
qed

lemma ann_to_bob:
  obtains s where "net_reachable no_hdr no_req 8 s" "length (net_users s) = 2" "mu_id (net_users s ! 1) = Some 1"
    "mu_msgs (net_users s ! 1) = []" "db (net_server s) = two_users" "net_sent s = [(1, \<lparr>sender_id = 0, msg = ''hi''\<rparr>)]"
    "length (tx_buffer (net_server s)) = 64" "length (c_tx (mu_client (net_users s ! 1))) = 64"
    "length (c_rx (mu_client (net_users s ! 1))) = 64"
proof -
  obtain s c0 c1 where s: "net_reachable no_hdr no_req 8 s" "server_ok id (net_server s)"
    "db (net_server s) = fst (registerUser (fst (registerUser Database_init ''ann'')) ''bob'')"
    "length (tx_buffer (net_server s)) = 64" "net_sent s = []"
    "net_users s = [\<lparr>mu_client = c0, mu_id = Some 0, mu_name = ''ann'', mu_names = [], mu_msgs = []\<rparr>,
                    \<lparr>mu_client = c1, mu_id = Some 1, mu_name = ''bob'', mu_names = [], mu_msgs = []\<rparr>]"
    "length (c_tx c0) = 64" "length (c_rx c0) = 64" "length (c_tx c1) = 64" "length (c_rx c1) = 64"
    by (rule two_register)
  have known: "userExists (db (net_server s)) 0" "userExists (db (net_server s)) 1"
    by (simp_all add: s(3) registerUser_def Database_init_def Let_def userExists_def)
  have "call_fits (tx_buffer (net_server s)) (mu_client (net_users s ! 0)) (ReqSend 0 1 ''hi'') (SendResp kSuccess)"
    using s(4,7,8) by (simp add: s(6) fits_simps)
  then obtain sv c where step: "net_step no_hdr no_req 8 s (s\<lparr>net_server := sv,
      net_users := (net_users s)[0 := (net_users s ! 0)\<lparr>mu_client := c\<rparr>], net_sent := net_sent s @ [(1, \<lparr>sender_id = 0, msg = ''hi''\<rparr>)]\<rparr>)"
    "db sv = fst (queueMsg (db (net_server s)) 1 \<lparr>sender_id = 0, msg = ''hi''\<rparr>)" "length (tx_buffer sv) = 64"
    using can_send [OF s(2), of 0 0 1 "''hi''" no_hdr no_req 8] known s(4) by (auto simp: s(6))
  have db: "db sv = two_users"
    by (simp only: step(2) s(3) two_users_def)
  have "net_reachable no_hdr no_req 8 (s\<lparr>net_server := sv,
      net_users := (net_users s)[0 := (net_users s ! 0)\<lparr>mu_client := c\<rparr>], net_sent := net_sent s @ [(1, \<lparr>sender_id = 0, msg = ''hi''\<rparr>)]\<rparr>)"
    by (rule net_reachable.net_next [OF s(1) step(1)])
  then show thesis
    by (rule that) (simp_all add: s step(3) db)
qed

lemma two_users_not_full: "\<not> db_full two_users"
  by (simp add: db_full_def two_users_eq)

theorem messages_delivered_once_witness:
  "\<exists>s. net_reachable no_hdr no_req 8 s \<and> mu_id (net_users s ! 1) = Some 1
     \<and> mu_msgs (net_users s ! 1) @ inbox_of (db (net_server s)) 1 = [\<lparr>sender_id = 0, msg = ''hi''\<rparr>]"
proof (rule ann_to_bob)
  fix s
  assume s: "net_reachable no_hdr no_req 8 s" "length (net_users s) = 2" "mu_id (net_users s ! 1) = Some 1"
    "db (net_server s) = two_users" "net_sent s = [(1, \<lparr>sender_id = 0, msg = ''hi''\<rparr>)]"
  have "\<not> db_full (db (net_server s))"
    by (simp add: s(4) two_users_not_full)
  then have "mu_msgs (net_users s ! 1) @ inbox_of (db (net_server s)) 1 = addressed_to 1 (net_sent s)"
    using messages_delivered_once [OF s(1) _ _ s(3)] s(2) by simp
  with s show ?thesis by (intro exI [of _ s]) simp
qed

text \<open>
  C5. Whatever happened before, a receive call of a registered user over sufficient buffers
  returns, and after it the user holds every message that was sent to it, in order.
\<close>

theorem receive_catches_up:
  assumes "net_reachable ph pr sz s" "\<not> db_full (db (net_server s))" "iteration_order iter"
    and "u < length (net_users s)" "mu_id (net_users s ! u) = Some i"
    and "call_fits (tx_buffer (net_server s)) (mu_client (net_users s ! u)) (ReqRecv i)
      (RecvOk (inbox_of (db (net_server s)) i))"
  shows "\<exists>sv c s'. server_call ph pr iter sz (net_server s) (mu_client (net_users s ! u)) (ReqRecv i) = Inr (sv, c)
    \<and> handleRespRecv c (mu_msgs (net_users s ! u)) = Inr (c, True, addressed_to i (net_sent s))
    \<and> net_step ph pr sz s s' \<and> net_sent s' = net_sent s
    \<and> mu_msgs (net_users s' ! u) = addressed_to i (net_sent s)"
proof -
  let ?d = "db (net_server s)" and ?U = "net_users s ! u"
  have "net_inv s"
    using net_reachable_inv [OF assms(1)] assms(2) by blast
  then have srv: "server_ok iter (net_server s)" and i: "userExists ?d i"
    and own: "mu_msgs ?U @ inbox_of ?d i = addressed_to i (net_sent s)"
    using assms(3-5) by (auto simp: net_inv_def user_ok_def server_ok_iter)
  have serve: "serve iter ?d (ReqRecv i) = (clearMsgs ?d i, RecvOk (inbox_of ?d i))"
    using i by simp
  then have ok: "response_ok (RecvOk (inbox_of ?d i))"
    using serve_entries_short [OF _ assms(3) _ serve] srv assms(6)
    by (intro response_ok_short) (simp_all add: server_ok_def length_response_bytes call_fits_def)
  obtain sv c rest where call: "server_call ph pr iter sz (net_server s) (mu_client ?U) (ReqRecv i) = Inr (sv, c)"
    "c_rx c = response_bytes (RecvOk (inbox_of ?d i)) @ rest"
    using exact.call_serves [OF srv _ serve ok assms(6), of ph pr sz] by auto
  have handled: "handleRespRecv c (mu_msgs ?U) = Inr (c, True, addressed_to i (net_sent s))"
    using handleRespRecv_ok [OF call(2) ok] by (simp add: own)
  from net_step.net_recv [OF assms(4) refl assms(5,3) call(1) handled] call(1) handled assms(4)
  show ?thesis by (intro exI conjI) (assumption | simp)+
qed

theorem receive_catches_up_witness:
  "\<exists>s s'. net_reachable no_hdr no_req 8 s \<and> net_step no_hdr no_req 8 s s'
     \<and> mu_msgs (net_users s ! 1) = [] \<and> mu_msgs (net_users s' ! 1) = [\<lparr>sender_id = 0, msg = ''hi''\<rparr>]"
proof (rule ann_to_bob)
  fix s
  assume s: "net_reachable no_hdr no_req 8 s" "length (net_users s) = 2" "mu_id (net_users s ! 1) = Some 1"
    "mu_msgs (net_users s ! 1) = []" "db (net_server s) = two_users" "net_sent s = [(1, \<lparr>sender_id = 0, msg = ''hi''\<rparr>)]"
    "length (tx_buffer (net_server s)) = 64" "length (c_tx (mu_client (net_users s ! 1))) = 64"
    "length (c_rx (mu_client (net_users s ! 1))) = 64"
  have "inbox_of (db (net_server s)) 1 = [\<lparr>sender_id = 0, msg = ''hi''\<rparr>]"
    by (simp add: s(5) two_users_eq inbox_of_def Database_at_def)
  then have "call_fits (tx_buffer (net_server s)) (mu_client (net_users s ! 1)) (ReqRecv 1)
      (RecvOk (inbox_of (db (net_server s)) 1))"
    using s(7-9) by (simp add: fits_simps)
  moreover have "\<not> db_full (db (net_server s))"
    by (simp add: s(5) two_users_not_full)
  ultimately show ?thesis
    using receive_catches_up [OF s(1) _ iteration_order_rev _ s(3)] s(1,2,4,6) by fastforce
qed

end
