(* ===== verification/Console.thy ===== *)
theory Console
  imports Prelude
begin

unbundle bit_operations_syntax

text \<open>
  \<^verbatim>\<open>console/console.h\<close> and \<^verbatim>\<open>console/console.cpp\<close>: the line editor that keeps the user's
  prompt and half-typed input as the last line of the terminal while other threads
  print above it. Each part of the code that runs under \<^verbatim>\<open>m_console_mtx\<close> is one
  function on the console's state: starting a read, handling one character, and a
  write; threads interleave these. \<open>out\<close> is everything written to \<^verbatim>\<open>cout\<close>. To state
  what the user sees, a terminal model interprets the characters written.
\<close>

section \<open>State and operations\<close>

record Console =
  m_prompt :: string
  m_user_input :: string
  out :: string

definition Console_init :: Console where
  "Console_init = \<lparr>m_prompt = [], m_user_input = [], out = []\<rparr>"

definition Console_getInstance :: "Console option \<Rightarrow> Console" where
  [simp]: "Console_getInstance s = (case s of None \<Rightarrow> Console_init | Some c \<Rightarrow> c)"

text \<open>
  The constructor clears the two bits of the terminal's local flags; their values
  come from the system's headers.
\<close>

definition Console_lflag :: "u32 \<Rightarrow> u32 \<Rightarrow> u32 \<Rightarrow> u32" where
  "Console_lflag icanon echo c_lflag = c_lflag AND NOT (icanon OR echo)"

definition kDelete :: int where
  "kDelete = 0x7F"

definition kNewLine :: int where
  "kNewLine = 0x0A"

definition cout :: "string \<Rightarrow> Console \<Rightarrow> Console" where
  "cout s c = c\<lparr>out := out c @ s\<rparr>"

definition newline :: char where
  "newline = CHR 0x0A"

definition carriage_return :: char where
  "carriage_return = CHR 0x0D"

definition backspace :: char where
  "backspace = CHR 0x08"

text \<open>\<^verbatim>\<open>static_cast<char>(next_char)\<close>; \<^verbatim>\<open>getchar\<close> returns -1 at the end of the input.\<close>

definition char_cast :: "int \<Rightarrow> char" where
  "char_cast k = char_of (nat (k mod 256))"

definition read_start :: "string \<Rightarrow> Console \<Rightarrow> Console" where
  "read_start prompt c = cout prompt (c\<lparr>m_prompt := prompt\<rparr>)"

text \<open>One round of the loop of \<^verbatim>\<open>read\<close>: the line when the user is done typing.\<close>

definition read_char :: "int \<Rightarrow> Console \<Rightarrow> Console \<times> string option" where
  "read_char next_char c =
     (if next_char = kDelete then
        (if m_user_input c \<noteq> []
         then (cout [backspace, CHR '' '', backspace] (c\<lparr>m_user_input := butlast (m_user_input c)\<rparr>), None)
         else (c, None))
      else if next_char = kNewLine then
        (let c = cout [newline] c; temp = m_user_input c
         in (c\<lparr>m_user_input := [], m_prompt := []\<rparr>, Some temp))
      else (cout [char_cast next_char] (c\<lparr>m_user_input := m_user_input c @ [char_cast next_char]\<rparr>), None))"

text \<open>The whole \<^verbatim>\<open>read\<close> on the characters typed: \<open>None\<close> while the line is not finished.\<close>

fun read_loop :: "int list \<Rightarrow> Console \<Rightarrow> (Console \<times> string \<times> int list) option" where
  "read_loop [] c = None"
| "read_loop (k # ks) c =
     (case read_char k c of
        (c', Some line) \<Rightarrow> Some (c', line, ks)
      | (c', None) \<Rightarrow> read_loop ks c')"

definition Console_read :: "string \<Rightarrow> int list \<Rightarrow> Console \<Rightarrow> (Console \<times> string \<times> int list) option" where
  "Console_read prompt keys c = read_loop keys (read_start prompt c)"

definition Console_write :: "string \<Rightarrow> Console \<Rightarrow> Console" where
  "Console_write s c =
     (let current_input_size = length (m_prompt c) + length (m_user_input c)
      in if current_input_size = 0 then cout (s @ [newline]) c
         else (let c = cout ([carriage_return] @ replicate current_input_size (CHR '' '') @ [carriage_return]) c
               in cout (s @ [newline] @ m_prompt c @ m_user_input c) c))"

section \<open>Line editing\<close>

text \<open>What the user has typed, with the deletions carried out.\<close>

definition edit :: "string \<Rightarrow> int list \<Rightarrow> string" where
  "edit = foldl (\<lambda>line k. if k = kDelete then butlast line else line @ [char_cast k])"

lemma cout_sel [simp]:
  "m_prompt (cout s c) = m_prompt c" "m_user_input (cout s c) = m_user_input c"
  "out (cout s c) = out c @ s"
  by (simp_all add: cout_def)

lemma read_char_newline: "k = kNewLine \<Longrightarrow> snd (read_char k c) = Some (m_user_input c)"
  by (simp add: read_char_def kDelete_def kNewLine_def Let_def)

lemma read_char_input:
  "k \<noteq> kNewLine \<Longrightarrow> snd (read_char k c) = None
     \<and> m_user_input (fst (read_char k c)) = edit (m_user_input c) [k]
     \<and> m_prompt (fst (read_char k c)) = m_prompt c"
  by (auto simp: read_char_def edit_def)

lemma edit_Cons: "edit line (k # ks) = edit (edit line [k]) ks"
  by (simp add: edit_def)

lemma read_loop_eq:
  assumes "kNewLine \<notin> set ks"
  shows "\<exists>c'. read_loop (ks @ kNewLine # rest) c = Some (c', edit (m_user_input c) ks, rest)
    \<and> m_prompt c' = [] \<and> m_user_input c' = []"
  using assms
proof (induction ks arbitrary: c)
  case Nil
  then show ?case
    by (simp add: read_char_def kDelete_def kNewLine_def Let_def edit_def)
next
  case (Cons k ks)
  then have "k \<noteq> kNewLine" by auto
  from read_char_input [OF this, of c] obtain c1 where c1: "read_char k c = (c1, None)"
    "m_user_input c1 = edit (m_user_input c) [k]"
    by (cases "read_char k c") auto
  have "kNewLine \<notin> set ks" using Cons.prems by simp
  from Cons.IH [OF this, of c1] show ?case
    by (simp add: c1 edit_Cons [of "m_user_input c" k ks])
qed

lemma read_loop_open: "kNewLine \<notin> set ks \<Longrightarrow> read_loop ks c = None"
proof (induction ks arbitrary: c)
  case (Cons k ks)
  then have "k \<noteq> kNewLine" by auto
  from read_char_input [OF this, of c] obtain c1 where "read_char k c = (c1, None)"
    by (cases "read_char k c") auto
  with Cons show ?case by simp
qed simp

text \<open>A line takes at least one key.\<close>

lemma read_loop_shorter: "read_loop ks c = Some (c', line, rest) \<Longrightarrow> length rest < length ks"
proof (induction ks arbitrary: c)
  case (Cons k ks)
  then show ?case by (auto split: prod.splits option.splits dest: less_SucI)
qed simp

lemma Console_read_shorter:
  "Console_read prompt ks c = Some (c', line, rest) \<Longrightarrow> length rest < length ks"
  by (simp add: Console_read_def read_loop_shorter)

section \<open>The terminal\<close>

text \<open>
  The lines above the cursor's line, the cells of that line, and the cursor column.
  A newline finishes the line, a carriage return and a backspace move the cursor,
  and every other character overwrites the cell under the cursor. The line is as
  long as needed: wrapping at the right margin is not modelled.
\<close>

record terminal =
  history :: "string list"
  cells :: string
  col :: nat

definition blank_terminal :: terminal where
  "blank_terminal = \<lparr>history = [], cells = [], col = 0\<rparr>"

definition feed :: "terminal \<Rightarrow> char \<Rightarrow> terminal" where
  "feed t ch =
     (if ch = newline then \<lparr>history = history t @ [cells t], cells = [], col = 0\<rparr>
      else if ch = carriage_return then t\<lparr>col := 0\<rparr>
      else if ch = backspace then t\<lparr>col := col t - 1\<rparr>
      else t\<lparr>cells := take (col t) (cells t) @ [ch] @ drop (Suc (col t)) (cells t), col := Suc (col t)\<rparr>)"

definition display :: "string \<Rightarrow> terminal \<Rightarrow> terminal" where
  "display s t = foldl feed t s"

definition plain :: "string \<Rightarrow> bool" where
  "plain s \<longleftrightarrow> list_all (\<lambda>ch. ch \<noteq> newline \<and> ch \<noteq> carriage_return \<and> ch \<noteq> backspace) s"

text \<open>The cursor's line reads \<open>s\<close>, up to blanks at its end, and the cursor stands behind it.\<close>

definition shown :: "terminal \<Rightarrow> string \<Rightarrow> bool" where
  "shown t s \<longleftrightarrow> (\<exists>k. cells t = s @ replicate k (CHR '' '')) \<and> col t = length s"

lemma display_append [simp]: "display (s @ s') t = display s' (display s t)"
  by (simp add: display_def)

lemma display_Nil [simp]: "display [] t = t"
  by (simp add: display_def)

lemma display_Cons [simp]: "display (ch # s) t = display s (feed t ch)"
  by (simp add: display_def)

lemma plain_simps [simp]: "plain []"
  "plain (ch # s) \<longleftrightarrow> ch \<noteq> newline \<and> ch \<noteq> carriage_return \<and> ch \<noteq> backspace \<and> plain s"
  "plain (s @ s') \<longleftrightarrow> plain s \<and> plain s'"
  by (auto simp: plain_def)

lemma controls [simp]: "newline \<noteq> carriage_return" "newline \<noteq> backspace" "carriage_return \<noteq> newline"
  "carriage_return \<noteq> backspace" "backspace \<noteq> newline" "backspace \<noteq> carriage_return"
  "CHR '' '' \<noteq> newline" "CHR '' '' \<noteq> carriage_return" "CHR '' '' \<noteq> backspace"
  by (simp_all add: newline_def carriage_return_def backspace_def)

text \<open>Printing plain text overwrites the cells from the cursor on.\<close>

lemma display_plain:
  "plain s \<Longrightarrow> col t \<le> length (cells t) \<Longrightarrow>
   display s t = t\<lparr>cells := take (col t) (cells t) @ s @ drop (col t + length s) (cells t),
                   col := col t + length s\<rparr>"
proof (induction s arbitrary: t)
  case (Cons ch s)
  let ?t = "feed t ch"
  have t: "?t = t\<lparr>cells := take (col t) (cells t) @ [ch] @ drop (Suc (col t)) (cells t), col := Suc (col t)\<rparr>"
    using Cons.prems by (simp add: feed_def)
  then have "display s ?t = ?t\<lparr>cells := take (col ?t) (cells ?t) @ s @ drop (col ?t + length s) (cells ?t),
                               col := col ?t + length s\<rparr>"
    using Cons by simp
  with t show ?case
    using Cons.prems by (simp add: drop_Cons' ac_simps)
qed simp

lemma plain_blanks [simp]: "plain (replicate n (CHR '' ''))"
  by (simp add: plain_def list_all_iff)

lemma drop_blanks: "drop n (replicate k (CHR '' '')) = replicate (k - n) (CHR '' '')"
  by simp

lemma shown_display:
  assumes "shown t s" "plain s'"
  shows "shown (display s' t) (s @ s') \<and> history (display s' t) = history t"
proof -
  obtain k where k: "cells t = s @ replicate k (CHR '' '')" "col t = length s"
    using assms(1) by (auto simp: shown_def)
  then show ?thesis
    using assms(2) by (auto simp: display_plain shown_def)
qed

lemma shown_newline: "shown t s \<Longrightarrow> shown (feed t newline) [] \<and> history (feed t newline) = history t @ [cells t]"
  by (simp add: feed_def shown_def)

lemma shown_backspace:
  assumes "shown t (s @ [ch])"
  shows "shown (display [backspace, CHR '' '', backspace] t) s
    \<and> history (display [backspace, CHR '' '', backspace] t) = history t"
proof -
  obtain k where "cells t = s @ [ch] @ replicate k (CHR '' '')" "col t = Suc (length s)"
    using assms by (auto simp: shown_def)
  moreover have "CHR '' '' # replicate k (CHR '' '') = replicate (Suc k) (CHR '' '')"
    by simp
  ultimately show ?thesis
    by (auto simp: feed_def shown_def simp del: replicate_Suc)
qed

text \<open>Blanking the line: return, as many blanks as the line shows, return.\<close>

lemma shown_blank_out:
  assumes "shown t s" "n = length s"
  shows "shown (display ([carriage_return] @ replicate n (CHR '' '') @ [carriage_return]) t) []
    \<and> history (display ([carriage_return] @ replicate n (CHR '' '') @ [carriage_return]) t) = history t"
proof -
  obtain k where k: "cells t = s @ replicate k (CHR '' '')"
    using assms(1) by (auto simp: shown_def)
  have "display (replicate n (CHR '' '')) (t\<lparr>col := 0\<rparr>)
      = t\<lparr>cells := replicate (n + k) (CHR '' ''), col := n\<rparr>"
    using assms(2) by (simp add: display_plain k replicate_add)
  moreover have "feed t carriage_return = t\<lparr>col := 0\<rparr>"
    by (simp add: feed_def)
  ultimately show ?thesis
    by (auto simp: feed_def shown_def)
qed

lemma shown_cells: "shown t s \<Longrightarrow> \<exists>k. cells t = s @ replicate k (CHR '' '')"
  by (auto simp: shown_def)

section \<open>The display invariant\<close>

text \<open>The terminal of a console, and the claim of \<^verbatim>\<open>console.h\<close> about it.\<close>

definition screen :: "Console \<Rightarrow> terminal" where
  "screen c = display (out c) blank_terminal"

definition prompt_last :: "Console \<Rightarrow> bool" where
  "prompt_last c \<longleftrightarrow> shown (screen c) (m_prompt c @ m_user_input c)"

lemma screen_cout [simp]: "screen (cout s c) = display s (screen c)"
  by (simp add: screen_def)

lemma screen_update [simp]:
  "screen (c\<lparr>m_prompt := p\<rparr>) = screen c" "screen (c\<lparr>m_user_input := i\<rparr>) = screen c"
  by (simp_all add: screen_def)

lemma prompt_last_init: "prompt_last Console_init"
  by (simp add: prompt_last_def Console_init_def screen_def blank_terminal_def shown_def)

lemma prompt_last_start:
  assumes "prompt_last c" "m_prompt c = []" "m_user_input c = []" "plain prompt"
  shows "prompt_last (read_start prompt c)"
  using assms shown_display [of "screen c" "[]" prompt] by (simp add: prompt_last_def read_start_def)

lemma prompt_last_char:
  assumes "prompt_last c" "k \<noteq> kNewLine \<longrightarrow> plain [char_cast k]"
  shows "prompt_last (fst (read_char k c))"
proof -
  have shown: "shown (screen c) (m_prompt c @ m_user_input c)"
    using assms(1) by (simp add: prompt_last_def)
  consider "k = kDelete" "m_user_input c = []" | "k = kDelete" "m_user_input c \<noteq> []"
    | "k = kNewLine" | "k \<noteq> kDelete" "k \<noteq> kNewLine"
    by blast
  then show ?thesis
  proof cases
    case 1
    then show ?thesis using assms(1) by (simp add: read_char_def)
  next
    case 2
    then have "m_prompt c @ m_user_input c
        = (m_prompt c @ butlast (m_user_input c)) @ [last (m_user_input c)]"
      by simp
    then have "shown (screen c) ((m_prompt c @ butlast (m_user_input c)) @ [last (m_user_input c)])"
      using shown by simp
    from shown_backspace [OF this] show ?thesis
      using 2 by (simp add: read_char_def prompt_last_def)
  next
    case 3
    then show ?thesis
      using shown_newline [OF shown]
      by (simp add: read_char_def prompt_last_def kNewLine_def kDelete_def Let_def)
  next
    case 4
    then show ?thesis
      using shown_display [OF shown, of "[char_cast k]"] assms(2)
      by (simp add: read_char_def prompt_last_def)
  qed
qed

lemma write_display:
  assumes "prompt_last c" "plain s" "plain (m_prompt c @ m_user_input c)"
  shows "prompt_last (Console_write s c)
    \<and> (\<exists>k. history (screen (Console_write s c)) = history (screen c) @ [s @ replicate k (CHR '' '')])"
proof -
  let ?p = "m_prompt c @ m_user_input c"
  let ?t = "(if ?p = [] then screen c
     else display ([carriage_return] @ replicate (length ?p) (CHR '' '') @ [carriage_return]) (screen c))"
  have "shown ?t [] \<and> history ?t = history (screen c)"
  proof (cases "?p = []")
    case True
    then show ?thesis using assms(1) by (simp add: prompt_last_def)
  next
    case False
    have "shown (screen c) ?p" using assms(1) by (simp add: prompt_last_def)
    from shown_blank_out [OF this refl] show ?thesis
      unfolding if_not_P [OF False] .
  qed
  then have t1: "shown (display s ?t) s" "history (display s ?t) = history (screen c)"
    using shown_display [of ?t "[]" s] assms(2) by simp_all
  let ?u = "feed (display s ?t) newline"
  have u: "shown ?u []" "history ?u = history (screen c) @ [cells (display s ?t)]"
    using shown_newline [OF t1(1)] t1(2) by simp_all
  then have w: "shown (display ?p ?u) ?p" "history (display ?p ?u) = history ?u"
    using shown_display [OF u(1), of ?p] assms(3) by simp_all
  have "screen (Console_write s c) = display ?p ?u"
    "m_prompt (Console_write s c) = m_prompt c" "m_user_input (Console_write s c) = m_user_input c"
    by (auto simp: Console_write_def Let_def)
  then show ?thesis
    using w u(2) shown_cells [OF t1(1)] by (simp add: prompt_last_def)
qed

section \<open>Interleaving\<close>

text \<open>
  The threads of a client: one reads, any number write. A step is one critical
  section; a read starts when none is under way. Prompts, keys and text are plain (no newline,
  carriage return or backspace) and the line is as wide as it takes, restrictions
  \<^verbatim>\<open>console.cpp\<close> does not have.
\<close>

inductive console_step :: "Console \<Rightarrow> Console \<Rightarrow> bool" where
  start: "m_prompt c = [] \<Longrightarrow> m_user_input c = [] \<Longrightarrow> plain prompt \<Longrightarrow>
     console_step c (read_start prompt c)"
| key: "k = kNewLine \<or> plain [char_cast k] \<Longrightarrow> console_step c (fst (read_char k c))"
| print: "plain s \<Longrightarrow> console_step c (Console_write s c)"

inductive console_reachable :: "Console \<Rightarrow> bool" where
  init: "console_reachable Console_init"
| step: "console_reachable c \<Longrightarrow> console_step c c' \<Longrightarrow> console_reachable c'"

inductive_cases console_stepE: "console_step c c'"

lemma plain_butlast: "plain s \<Longrightarrow> plain (butlast s)"
  by (auto simp: plain_def list_all_iff dest: in_set_butlastD)

lemma console_step_invariant:
  assumes "console_step c c'" "prompt_last c" "plain (m_prompt c @ m_user_input c)"
  shows "prompt_last c' \<and> plain (m_prompt c' @ m_user_input c')"
  using assms(1)
proof (cases rule: console_step.cases)
  case (start prompt)
  then show ?thesis using prompt_last_start [OF assms(2)] by (simp add: read_start_def)
next
  case (key k)
  then have "prompt_last c'"
    using prompt_last_char [OF assms(2), of k] by auto
  moreover have "plain (m_prompt c' @ m_user_input c')"
    using key assms(3) by (auto simp: read_char_def Let_def plain_butlast)
  ultimately show ?thesis ..
next
  case (print s)
  then show ?thesis using write_display [OF assms(2) print(2) assms(3)] assms(3)
    by (simp add: Console_write_def Let_def)
qed

section \<open>Properties\<close>

text \<open>
  C8. The promise of \<^verbatim>\<open>console.h\<close>: however the critical sections of the reading and the
  writing threads interleave, the last line of the terminal shows the prompt and
  what the user has typed so far, and the cursor stands at its end; for plain text (no newline,
  carriage return or backspace) on a line the terminal does not wrap.
\<close>

theorem prompt_is_last_line:
  assumes "console_reachable c"
  shows "prompt_last c"
proof -
  have "prompt_last c \<and> plain (m_prompt c @ m_user_input c)"
    using assms
  proof (induction rule: console_reachable.induct)
    case init
    show ?case using prompt_last_init by (simp add: Console_init_def)
  next
    case (step c c')
    then show ?case using console_step_invariant by blast
  qed
  then show ?thesis ..
qed

text \<open>Typing \<open>h\<close> at the prompt \<open>>\<close> while another thread prints \<open>yo\<close>.\<close>

lemma char_cast_letters: "char_cast 104 = CHR ''h''" "char_cast 105 = CHR ''i''"
  by code_simp+

definition typing :: Console where
  "typing = fst (read_char 104 (read_start ''>'' Console_init))"

lemma typing_steps: "console_reachable typing" "console_reachable (Console_write ''yo'' typing)"
proof -
  have "console_reachable (read_start ''>'' Console_init)"
    by (rule console_reachable.step [OF console_reachable.init], rule console_step.start)
      (simp_all add: Console_init_def newline_def carriage_return_def backspace_def)
  then show "console_reachable typing"
    unfolding typing_def
    by (rule console_reachable.step, intro console_step.key)
      (simp add: char_cast_letters newline_def carriage_return_def backspace_def)
  then show "console_reachable (Console_write ''yo'' typing)"
    by (rule console_reachable.step, intro console_step.print)
      (simp add: newline_def carriage_return_def backspace_def)
qed

lemma typing_out:
  "typing = \<lparr>m_prompt = ''>'', m_user_input = ''h'', out = ''>h''\<rparr>"
  by code_simp

theorem prompt_is_last_line_witness:
  "prompt_last (Console_write ''yo'' typing)
    \<and> out (Console_write ''yo'' typing) = ''>h'' @ [carriage_return] @ ''  '' @ [carriage_return] @ ''yo'' @ [newline] @ ''>h''"
  using prompt_is_last_line [OF typing_steps(2)]
  by (simp add: typing_out Console_write_def Let_def numeral_2_eq_2)

text \<open>
  A write puts its text on a line of its own above the prompt and leaves the prompt
  and the user's input as they were, on the screen and in the console.
\<close>

lemma write_above_prompt:
  assumes "prompt_last c" "plain s" "plain (m_prompt c @ m_user_input c)"
  shows "prompt_last (Console_write s c) \<and> m_prompt (Console_write s c) = m_prompt c
    \<and> m_user_input (Console_write s c) = m_user_input c
    \<and> (\<exists>k. history (screen (Console_write s c)) = history (screen c) @ [s @ replicate k (CHR '' '')])"
  using write_display [OF assms] by (simp add: Console_write_def Let_def)

lemma typing_shown: "prompt_last typing" "plain ''yo''" "plain (m_prompt typing @ m_user_input typing)"
  unfolding typing_out prompt_last_def shown_def
  by (simp_all add: screen_def feed_def blank_terminal_def newline_def carriage_return_def backspace_def)

lemma write_above_prompt_example:
  "prompt_last (Console_write ''yo'' typing) \<and> m_user_input (Console_write ''yo'' typing) = ''h''
    \<and> (\<exists>k. history (screen (Console_write ''yo'' typing)) = history (screen typing) @ [''yo'' @ replicate k (CHR '' '')])"
  using write_above_prompt [OF typing_shown] by (simp add: typing_out)

text \<open>
  C24. \<^verbatim>\<open>read\<close> returns when the user hits enter, with the characters typed before it and
  the deletions carried out, leaves the characters typed after it unread, and
  clears the prompt and the input for the next read.
\<close>

theorem read_returns_line:
  assumes "kNewLine \<notin> set ks" "m_user_input c = []"
  shows "\<exists>c'. Console_read prompt (ks @ kNewLine # rest) c = Some (c', edit [] ks, rest)
    \<and> m_prompt c' = [] \<and> m_user_input c' = []"
  using read_loop_eq [OF assms(1), of rest "read_start prompt c"] assms(2)
  by (simp add: Console_read_def read_start_def)

theorem read_returns_line_witness:
  "\<exists>c'. Console_read ''>'' ([104, 111, 0x7F, 105] @ kNewLine # [120]) Console_init = Some (c', ''hi'', [120])
    \<and> m_prompt c' = [] \<and> m_user_input c' = []"
proof -
  have "kNewLine \<notin> set [104, 111, 0x7F, 105]" "m_user_input Console_init = []"
    by (simp_all add: kNewLine_def Console_init_def)
  from read_returns_line [OF this, of "''>''" "[120]"] show ?thesis
    by (simp add: edit_def kDelete_def char_cast_letters)
qed

text \<open>
  C40. At the end of the input, where \<^verbatim>\<open>getchar\<close> keeps returning -1, \<^verbatim>\<open>read\<close> never returns:
  each -1 is appended to the line as a character.
\<close>

theorem read_never_returns_at_eof:
  "Console_read prompt (replicate n (- 1)) c = None"
  using read_loop_open [of "replicate n (- 1)" "read_start prompt c"]
  by (auto simp: Console_read_def kNewLine_def)

end
