(* ===== verification/Tcp_Socket.thy ===== *)
theory Tcp_Socket
  imports Prelude
begin

text \<open>
  \<^verbatim>\<open>tcp_lib/socket.h\<close>, \<^verbatim>\<open>tcp_lib/server_socket.h\<close> and \<^verbatim>\<open>tcp_lib/tcp_util.h\<close>: the socket
  wrappers. The operating system is not part of the repository: what each system
  call returns is an argument, a single result or, for the retry loops, the list of
  the results of the successive calls. A loop that needs more results than the list
  holds has not returned (\<open>None\<close>).
\<close>

section \<open>System calls\<close>

datatype errno = EAGAIN | EWOULDBLOCK | EALREADY | EINPROGRESS | EISCONN | EOTHER

text \<open>
  \<open>ConnOk\<close> is \<^verbatim>\<open>connect\<close> returning 0. \<open>Sent n\<close> is a \<^verbatim>\<open>send\<close> that accepts at most \<open>n\<close> bytes;
  \<open>Data bs\<close> is a \<^verbatim>\<open>recv\<close> for which the bytes \<open>bs\<close> have arrived, where \<open>Data []\<close> is the
  value 0 that \<^verbatim>\<open>recv\<close> returns when the peer has closed the connection.
\<close>

datatype conn_ev = ConnOk | ConnErr errno
datatype send_ev = Sent nat | SendErr errno
datatype recv_ev = Data bytes | RecvErr errno

section \<open>Socket\<close>

record Socket =
  connected :: bool
  fd :: int
  nonblocking :: bool
  sock_log :: "string list"

definition perror :: "string \<Rightarrow> Socket \<Rightarrow> Socket" where
  "perror l s = s\<lparr>sock_log := sock_log s @ [l]\<rparr>"

lemma perror_sel [simp]:
  "connected (perror l s) = connected s" "fd (perror l s) = fd s"
  "nonblocking (perror l s) = nonblocking s" "sock_log (perror l s) = sock_log s @ [l]"
  by (simp_all add: perror_def)

text \<open>
  The constructor: an already connected descriptor is taken as it is, otherwise a
  stream socket is created and set non-blocking. The last three arguments are the
  results of \<^verbatim>\<open>socket\<close>, \<^verbatim>\<open>fcntl(F_GETFL)\<close> and \<^verbatim>\<open>fcntl(F_SETFL)\<close>; a failure is reported
  and the constructor goes on.
\<close>

definition Socket_new :: "int \<Rightarrow> bool \<Rightarrow> int \<Rightarrow> int \<Rightarrow> int \<Rightarrow> Socket" where
  "Socket_new f conn r_socket r_getfl r_setfl =
     (let s = \<lparr>connected = conn, fd = f, nonblocking = False, sock_log = []\<rparr>
      in if connected s then s
         else (let s = s\<lparr>fd := r_socket\<rparr>;
                   s = (if fd s < 0 then perror ''Failed to create client socket'' s else s);
                   s = (if r_getfl < 0 then perror ''fcntl failed to get fd_ status flags'' s else s)
               in if r_setfl < 0 then perror ''fcntl failed to set file status flags'' s
                  else s\<lparr>nonblocking := True\<rparr>))"

definition connectNb :: "Socket \<Rightarrow> conn_ev \<Rightarrow> Socket \<times> bool" where
  "connectNb s ev =
     (case ev of
        ConnOk \<Rightarrow> (s\<lparr>connected := True\<rparr>, True)
      | ConnErr e \<Rightarrow>
          if e = EALREADY \<or> e = EINPROGRESS then (s, False)
          else if e \<noteq> EISCONN then (perror ''Client failed to connect'' s, False)
          else (s\<lparr>connected := True\<rparr>, True))"

fun connectB :: "Socket \<Rightarrow> conn_ev list \<Rightarrow> (Socket \<times> conn_ev list) option" where
  "connectB s [] = None"
| "connectB s (ev # evs) =
     (let (s', ok) = connectNb s ev in if \<not> ok then connectB s' evs else Some (s', evs))"

text \<open>
  The result of \<^verbatim>\<open>sendNb\<close> and the bytes of \<open>pData\<close> the system has taken. The narrowing of the
  results of \<^verbatim>\<open>send\<close> and \<^verbatim>\<open>recv\<close> from \<^verbatim>\<open>ssize_t\<close> to \<^verbatim>\<open>int\<close> is the identity for the
  transfers a kernel makes, which stay below \<open>2 ^ 31\<close> bytes, and is left out.
\<close>

definition sendNb :: "Socket \<Rightarrow> send_ev \<Rightarrow> bytes \<Rightarrow> Socket \<times> int \<times> bytes" where
  "sendNb s ev pData =
     (case ev of
        Sent n \<Rightarrow> (s, int (min n (length pData)), take n pData)
      | SendErr e \<Rightarrow>
          if e = EAGAIN \<or> e = EWOULDBLOCK then (s, 0, [])
          else (perror ''Failed to send data'' s, - 1, []))"

text \<open>
  \<open>sendB\<close> hands the system \<^verbatim>\<open>target_count - curr_count\<close> bytes at \<^verbatim>\<open>pData + curr_count\<close>; a
  range that leaves the buffer is a fault. \<open>wire\<close> collects what has been sent.
\<close>

fun sendB_loop ::
    "send_ev list \<Rightarrow> Socket \<Rightarrow> bytes \<Rightarrow> nat \<Rightarrow> nat \<Rightarrow> bytes \<Rightarrow>
     (Socket \<times> bool \<times> bytes \<times> send_ev list) result option" where
  "sendB_loop evs s pData target_count curr_count wire =
     (if curr_count < target_count
      then (case evs of
              [] \<Rightarrow> None
            | ev # evs' \<Rightarrow>
                (case load_at pData curr_count (target_count - curr_count) of
                   Inl e \<Rightarrow> Some (Inl e)
                 | Inr rest \<Rightarrow>
                     (let (s', curr_sent, taken) = sendNb s ev rest
                      in if curr_sent < 0
                         then Some (Inr (perror ''Failed to send data - in sendBlocking'' s', False,
                                         wire @ taken, evs'))
                         else sendB_loop evs' s' pData target_count (curr_count + nat curr_sent)
                                (wire @ taken))))
      else Some (Inr (s, True, wire, evs)))"

declare sendB_loop.simps [simp del]

definition sendB ::
    "send_ev list \<Rightarrow> Socket \<Rightarrow> bytes \<Rightarrow> nat \<Rightarrow> (Socket \<times> bool \<times> bytes \<times> send_ev list) result option" where
  "sendB evs s pData target_count = sendB_loop evs s pData target_count 0 []"

text \<open>
  \<^verbatim>\<open>receiveNb\<close> at offset \<open>off\<close> of the buffer: at most \<open>n\<close> of the bytes that have
  arrived are copied, the others stay with the system.
\<close>

definition receiveNb ::
    "Socket \<Rightarrow> recv_ev \<Rightarrow> bytes \<Rightarrow> nat \<Rightarrow> nat \<Rightarrow> (Socket \<times> int \<times> bytes \<times> recv_ev list) result" where
  "receiveNb s ev pData off n =
     (if length pData < off + n then Inl OutOfBounds else
      case ev of
        Data bs \<Rightarrow>
          rbind (store_at pData off (take n bs)) (\<lambda>pData'.
          Inr (s, int (min n (length bs)), pData', if n < length bs then [Data (drop n bs)] else []))
      | RecvErr e \<Rightarrow>
          if e = EAGAIN \<or> e = EWOULDBLOCK then Inr (s, 0, pData, [])
          else Inr (perror ''Failed to receive data'' s, - 1, pData, []))"

function receiveB_loop ::
    "recv_ev list \<Rightarrow> Socket \<Rightarrow> bytes \<Rightarrow> nat \<Rightarrow> nat \<Rightarrow>
     (Socket \<times> bool \<times> bytes \<times> recv_ev list) result option" where
  "receiveB_loop evs s pData target_count curr_count =
     (if curr_count < target_count
      then (case evs of
              [] \<Rightarrow> None
            | ev # evs' \<Rightarrow>
                (case receiveNb s ev pData curr_count (target_count - curr_count) of
                   Inl e \<Rightarrow> Some (Inl e)
                 | Inr (s', curr_receive, pData', left) \<Rightarrow>
                     if curr_receive < 0
                     then Some (Inr (perror ''Failed to receive data - in receiveBlocking'' s',
                                     False, pData', left @ evs'))
                     else receiveB_loop (left @ evs') s' pData' target_count
                            (curr_count + nat curr_receive)))
      else Some (Inr (s, True, pData, evs)))"
  by pat_completeness auto
termination
proof (relation "measures [\<lambda>(evs, s, p, t, c). t - c, \<lambda>(evs, s, p, t, c). length evs]", goal_cases)
  case (2 evs s p t c ev evs' res s' y r z pData' left)
  then show ?case
    by (auto simp: receiveNb_def rbind_def store_at_def min_def
        split: recv_ev.splits if_splits sum.splits)
qed simp

declare receiveB_loop.simps [simp del]

definition receiveB ::
    "recv_ev list \<Rightarrow> Socket \<Rightarrow> bytes \<Rightarrow> nat \<Rightarrow> (Socket \<times> bool \<times> bytes \<times> recv_ev list) result option" where
  "receiveB evs s pData target_count = receiveB_loop evs s pData target_count 0"

section \<open>Server socket\<close>

record ServerSocket =
  srv_fd :: int
  srv_nonblocking :: bool
  srv_log :: "string list"

definition kListenBacklog :: int where
  "kListenBacklog = 5"

text \<open>The results of the system calls the constructor makes, in order.\<close>

record setup_results =
  r_socket :: int
  r_setsockopt :: int
  r_getfl :: int
  r_setfl :: int
  r_bind :: int
  r_listen :: int

text \<open>Only a failing \<^verbatim>\<open>listen\<close> ends the process (\<open>None\<close>); every other failure is only reported.\<close>

definition ServerSocket_new :: "setup_results \<Rightarrow> ServerSocket option" where
  "ServerSocket_new r =
     (let l = (if r_socket r < 0 then [''Error creating a socket fd_''] else []) @
              (if r_setsockopt r < 0 then [''setsockopt failed work''] else []) @
              (if r_getfl r < 0 then [''fcntl failed to get fd_ status flags''] else []) @
              (if r_setfl r < 0 then [''fcntl failed to set file status flags''] else []) @
              (if r_bind r < 0 then [''failed to bind to given IP''] else [])
      in if r_listen r < 0 then None
         else Some \<lparr>srv_fd = r_socket r, srv_nonblocking = (0 \<le> r_setfl r), srv_log = l\<rparr>)"

datatype accept_ev = Accepted nat | AcceptErr errno

text \<open>The flag and the out-parameter \<open>res\<close>.\<close>

definition getConnection :: "ServerSocket \<Rightarrow> accept_ev \<Rightarrow> ServerSocket \<times> bool \<times> int" where
  "getConnection s ev =
     (case ev of
        Accepted d \<Rightarrow> (s, True, int d)
      | AcceptErr e \<Rightarrow>
          if e = EAGAIN \<or> e = EWOULDBLOCK then (s, False, - 1)
          else (s\<lparr>srv_log := srv_log s @ [''accept failed'']\<rparr>, False, - 1))"

text \<open>\<^verbatim>\<open>printHostName\<close>: the name the system reports, \<open>None\<close> for a failing \<^verbatim>\<open>gethostname\<close>.\<close>

definition printHostName :: "string option \<Rightarrow> string" where
  "printHostName host =
     (case host of None \<Rightarrow> ''Error getting hostname'' | Some h \<Rightarrow> ''Host name: '' @ h)"

definition printInfo :: "ServerSocket \<Rightarrow> string option \<Rightarrow> string" where
  "printInfo s host = printHostName host"

section \<open>Waiting for data\<close>

text \<open>
  The loop of \<^verbatim>\<open>ServerApp::handleRequest\<close> and of every client call: \<^verbatim>\<open>receiveNb\<close> on the
  whole buffer until it does not return 0. An error, -1, ends the loop as well.
\<close>

fun recv_poll ::
    "recv_ev list \<Rightarrow> Socket \<Rightarrow> bytes \<Rightarrow> (Socket \<times> int \<times> bytes \<times> recv_ev list) result option" where
  "recv_poll [] s buf = None"
| "recv_poll (ev # evs) s buf =
     (case receiveNb s ev buf 0 (length buf) of
        Inl e \<Rightarrow> Some (Inl e)
      | Inr (s', n, buf', left) \<Rightarrow>
          if n = 0 then recv_poll evs s' buf' else Some (Inr (s', n, buf', left @ evs)))"

section \<open>Schedules\<close>

text \<open>
  A schedule without a fatal error: the system accepts bytes or asks to try again.
  \<open>accepts\<close> is how many bytes it accepts in all, \<open>arrives\<close> the bytes that arrive.
\<close>

fun send_retry :: "send_ev \<Rightarrow> bool" where
  "send_retry (Sent n) \<longleftrightarrow> True"
| "send_retry (SendErr e) \<longleftrightarrow> e = EAGAIN \<or> e = EWOULDBLOCK"

fun accepted :: "send_ev \<Rightarrow> nat" where
  "accepted (Sent n) = n"
| "accepted (SendErr e) = 0"

definition accepts :: "send_ev list \<Rightarrow> nat" where
  "accepts evs = sum_list (map accepted evs)"

fun recv_retry :: "recv_ev \<Rightarrow> bool" where
  "recv_retry (Data bs) \<longleftrightarrow> True"
| "recv_retry (RecvErr e) \<longleftrightarrow> e = EAGAIN \<or> e = EWOULDBLOCK"

fun arrived :: "recv_ev \<Rightarrow> bytes" where
  "arrived (Data bs) = bs"
| "arrived (RecvErr e) = []"

definition arrives :: "recv_ev list \<Rightarrow> bytes" where
  "arrives evs = concat (map arrived evs)"

lemma arrives_simps [simp]: "arrives [] = []" "arrives (ev # evs) = arrived ev @ arrives evs"
  "arrives (xs @ ys) = arrives xs @ arrives ys"
  by (simp_all add: arrives_def)

lemma sendB_loop_done [simp]:
  "target \<le> cnt \<Longrightarrow> sendB_loop evs s buf target cnt wire = Some (Inr (s, True, wire, evs))"
  by (simp add: sendB_loop.simps)

lemma sendB_loop_Nil [simp]: "cnt < target \<Longrightarrow> sendB_loop [] s buf target cnt wire = None"
  by (simp add: sendB_loop.simps)

lemma take_drop_take: "take i xs @ take j (drop i xs) = take (i + j) xs"
  by (simp add: take_add)

lemma sendB_loop_Sent [simp]:
  assumes "cnt < target" "target \<le> length buf"
  shows "sendB_loop (Sent n # evs) s buf target cnt wire =
    sendB_loop evs s buf target (min (cnt + n) target) (wire @ take (min n (target - cnt)) (drop cnt buf))"
proof -
  have "load_at buf cnt (target - cnt) = Inr (take (target - cnt) (drop cnt buf))"
    using assms by (simp add: load_at_def)
  moreover have "min n (length (take (target - cnt) (drop cnt buf))) = min n (target - cnt)"
    using assms by simp
  moreover have "cnt + min n (target - cnt) = min (cnt + n) target"
    using assms by simp
  ultimately show ?thesis
    using assms(1) by (simp add: sendB_loop.simps [of "Sent n # evs"] sendNb_def)
qed

lemma sendB_loop_retry [simp]:
  assumes "cnt < target" "target \<le> length buf" "e = EAGAIN \<or> e = EWOULDBLOCK"
  shows "sendB_loop (SendErr e # evs) s buf target cnt wire = sendB_loop evs s buf target cnt wire"
  using assms by (auto simp: sendB_loop.simps [of "SendErr e # evs"] sendNb_def load_at_def)

lemma sendB_loop_fail [simp]:
  assumes "cnt < target" "target \<le> length buf" "\<not> (e = EAGAIN \<or> e = EWOULDBLOCK)"
  shows "\<exists>s'. sendB_loop (SendErr e # evs) s buf target cnt wire = Some (Inr (s', False, wire, evs))"
  using assms by (auto simp: sendB_loop.simps [of "SendErr e # evs"] sendNb_def load_at_def)

lemma sent_so_far:
  "cnt < target \<Longrightarrow> take cnt buf @ take (min n (target - cnt)) (drop cnt buf)
     = take (min (cnt + n) target) buf"
proof -
  assume "cnt < target"
  then have "cnt + min n (target - cnt) = min (cnt + n) target" by simp
  then show ?thesis using take_drop_take [of cnt buf "min n (target - cnt)"] by simp
qed

lemma sendB_loop_complete:
  assumes "target \<le> length buf" "list_all send_retry evs" "target \<le> cnt + accepts evs" "cnt \<le> target"
  shows "\<exists>evs'. sendB_loop evs s buf target cnt (take cnt buf) = Some (Inr (s, True, take target buf, evs'))"
  using assms(2-4)
proof (induction evs arbitrary: cnt)
  case Nil
  then show ?case by (simp add: accepts_def)
next
  case (Cons ev evs)
  show ?case
  proof (cases "cnt < target")
    case True
    show ?thesis
    proof (cases ev)
      case (Sent n)
      have "target \<le> min (cnt + n) target + accepts evs"
        using Cons.prems Sent by (auto simp: accepts_def)
      then show ?thesis
        using True assms(1) Cons.prems Cons.IH [of "min (cnt + n) target"] Sent
        by (simp add: sent_so_far)
    next
      case (SendErr e)
      then show ?thesis
        using True assms(1) Cons.prems Cons.IH [of cnt] by (simp add: accepts_def)
    qed
  qed (use Cons.prems in auto)
qed

lemma sendB_loop_sound:
  assumes "target \<le> length buf" "cnt \<le> target"
    and "sendB_loop evs s buf target cnt (take cnt buf) = Some (Inr (s', ok, wire, evs'))"
  shows "\<exists>n \<le> target. wire = take n buf \<and> (ok \<longrightarrow> n = target)"
  using assms(2,3)
proof (induction evs arbitrary: cnt)
  case Nil
  then show ?case by (cases "cnt < target") auto
next
  case (Cons ev evs)
  show ?case
  proof (cases "cnt < target")
    case True
    consider n where "ev = Sent n" | e where "ev = SendErr e" "e = EAGAIN \<or> e = EWOULDBLOCK"
      | e where "ev = SendErr e" "\<not> (e = EAGAIN \<or> e = EWOULDBLOCK)"
      by (cases ev) auto
    then show ?thesis
    proof cases
      case (1 n)
      then show ?thesis
        using True assms(1) Cons.prems Cons.IH [of "min (cnt + n) target"]
        by (simp add: sent_so_far)
    next
      case (2 e)
      then show ?thesis using True assms(1) Cons.prems Cons.IH [of cnt] by simp
    next
      case (3 e)
      then show ?thesis
        using True assms(1) Cons.prems sendB_loop_fail [OF True assms(1) 3(2), of evs s "take cnt buf"]
        by (auto intro!: exI [of _ cnt])
    qed
  qed (use Cons.prems in auto)
qed

lemma receiveB_loop_done [simp]:
  "target \<le> cnt \<Longrightarrow> receiveB_loop evs s buf target cnt = Some (Inr (s, True, buf, evs))"
  by (simp add: receiveB_loop.simps)

lemma receiveB_loop_Nil [simp]: "cnt < target \<Longrightarrow> receiveB_loop [] s buf target cnt = None"
  by (simp add: receiveB_loop.simps)

lemma receiveB_loop_retry [simp]:
  assumes "cnt < target" "target \<le> length buf" "e = EAGAIN \<or> e = EWOULDBLOCK"
  shows "receiveB_loop (RecvErr e # evs) s buf target cnt = receiveB_loop evs s buf target cnt"
  using assms by (auto simp: receiveB_loop.simps [of "RecvErr e # evs"] receiveNb_def)

lemma receiveB_loop_part:
  assumes "cnt < target" "target \<le> length buf" "cnt + length bs \<le> target"
  shows "receiveB_loop (Data bs # evs) s buf target cnt =
    receiveB_loop evs s (take cnt buf @ bs @ drop (cnt + length bs) buf) target (cnt + length bs)"
  using assms by (auto simp: receiveB_loop.simps [of "Data bs # evs"] receiveNb_def store_at_def)

lemma receiveB_loop_last:
  assumes "cnt < target" "target \<le> length buf" "target < cnt + length bs"
  shows "receiveB_loop (Data bs # evs) s buf target cnt =
    Some (Inr (s, True, take cnt buf @ take (target - cnt) bs @ drop target buf,
               Data (drop (target - cnt) bs) # evs))"
proof -
  have "receiveNb s (Data bs) buf cnt (target - cnt) =
      Inr (s, int (target - cnt), take cnt buf @ take (target - cnt) bs @ drop target buf,
           [Data (drop (target - cnt) bs)])"
    using assms by (simp add: receiveNb_def store_at_def)
  then show ?thesis
    using assms(1) by (simp add: receiveB_loop.simps [of "Data bs # evs"])
qed

text \<open>
  Under a schedule that delivers enough bytes the loop ends, and the buffer holds
  the first \<open>target\<close> of the bytes that arrived.
\<close>

lemma receiveB_loop_complete:
  assumes "list_all recv_retry evs" "target \<le> length buf" "cnt \<le> target"
    and "target \<le> cnt + length (arrives evs)"
  shows "\<exists>evs'. receiveB_loop evs s buf target cnt =
    Some (Inr (s, True, take cnt buf @ take (target - cnt) (arrives evs) @ drop target buf, evs'))"
  using assms
proof (induction evs arbitrary: cnt buf)
  case Nil
  then show ?case by simp
next
  case (Cons ev evs)
  show ?case
  proof (cases "cnt < target")
    case True
    consider e where "ev = RecvErr e" "e = EAGAIN \<or> e = EWOULDBLOCK"
      | bs where "ev = Data bs" "cnt + length bs \<le> target"
      | bs where "ev = Data bs" "target < cnt + length bs"
      using Cons.prems(1) by (cases ev; cases "cnt + length (arrived ev) \<le> target") auto
    then show ?thesis
    proof cases
      case (1 e)
      then show ?thesis using True Cons.prems Cons.IH [of buf cnt] by simp
    next
      case (2 bs)
      let ?buf = "take cnt buf @ bs @ drop (cnt + length bs) buf"
      have "take (cnt + length bs) ?buf = take cnt buf @ bs" "drop target ?buf = drop target buf"
        using 2 True Cons.prems by auto
      then show ?thesis
        using 2 True Cons.prems Cons.IH [of ?buf "cnt + length bs"]
        by (simp add: receiveB_loop_part)
    next
      case (3 bs)
      then show ?thesis
        using True Cons.prems by (simp add: receiveB_loop_last)
    qed
  next
    case False
    with Cons.prems have "cnt = target" by simp
    then show ?thesis by simp
  qed
qed

lemma receiveB_loop_starves:
  assumes "list_all recv_retry evs" "target \<le> length buf" "cnt + length (arrives evs) < target"
  shows "receiveB_loop evs s buf target cnt = None"
  using assms
proof (induction evs arbitrary: cnt buf)
  case (Cons ev evs)
  show ?case
  proof (cases ev)
    case (Data bs)
    then show ?thesis
      using Cons.prems by (simp add: receiveB_loop_part Cons.IH)
  next
    case (RecvErr e)
    then show ?thesis
      using Cons.prems Cons.IH [of buf cnt] by simp
  qed
qed simp

lemma recv_poll_retry [simp]:
  "recv_retry ev \<Longrightarrow> arrived ev = [] \<Longrightarrow> recv_poll (ev # evs) s buf = recv_poll evs s buf"
  by (cases ev) (auto simp: receiveNb_def store_at_def)

lemma recv_poll_Data:
  assumes "bs \<noteq> []" "buf \<noteq> []"
  shows "recv_poll (Data bs # evs) s buf =
    Some (Inr (s, int (min (length buf) (length bs)),
      take (length buf) bs @ drop (length bs) buf,
      (if length buf < length bs then [Data (drop (length buf) bs)] else []) @ evs))"
proof -
  have "receiveNb s (Data bs) buf 0 (length buf) =
      Inr (s, int (min (length buf) (length bs)), take (length buf) bs @ drop (length bs) buf,
        if length buf < length bs then [Data (drop (length buf) bs)] else [])"
    by (simp add: receiveNb_def store_at_def min_def)
  moreover have "int (min (length buf) (length bs)) \<noteq> 0"
    using assms by simp
  ultimately show ?thesis
    using assms by simp
qed

text \<open>Polling skips the empty results and returns with the first bytes that arrive.\<close>

lemma recv_poll_first_data:
  assumes "list_all recv_retry idle" "arrives idle = []" "bs \<noteq> []" "length bs \<le> length buf"
  shows "recv_poll (idle @ Data bs # evs) s buf =
    Some (Inr (s, int (length bs), bs @ drop (length bs) buf, evs))"
  using assms(1,2)
proof (induction idle)
  case Nil
  have "buf \<noteq> []" using assms(3,4) by auto
  then show ?case using assms(3,4) by (simp add: recv_poll_Data del: recv_poll.simps)
qed (simp del: recv_poll.simps)

lemma recv_poll_starves:
  "list_all recv_retry idle \<Longrightarrow> arrives idle = [] \<Longrightarrow> recv_poll idle s buf = None"
proof (induction idle)
  case (Cons ev idle)
  then show ?case by (simp del: recv_poll.simps)
qed simp

lemma recv_poll_None_iff:
  assumes "buf \<noteq> []"
  shows "recv_poll evs s buf = None \<longleftrightarrow> list_all recv_retry evs \<and> arrives evs = []"
proof (induction evs)
  case (Cons ev evs)
  show ?case
  proof (cases ev)
    case (Data bs)
    then show ?thesis
      using assms Cons recv_poll_retry [of ev evs s buf]
      by (cases bs) (simp_all add: recv_poll_Data del: recv_poll.simps)
  next
    case (RecvErr e)
    then show ?thesis
      using Cons recv_poll_retry [of ev evs s buf] by (auto simp: receiveNb_def)
  qed
qed simp

lemma connectB_None:
  "connectB s evs = None \<longleftrightarrow> ConnOk \<notin> set evs \<and> ConnErr EISCONN \<notin> set evs"
proof (induction evs arbitrary: s)
  case (Cons ev evs)
  show ?case
    by (cases ev) (auto simp: connectNb_def Cons split: if_splits)
qed simp

lemma connectB_connected: "connectB s evs = Some (s', evs') \<Longrightarrow> connected s'"
proof (induction evs arbitrary: s)
  case (Cons ev evs)
  then show ?case
    by (cases ev) (auto simp: connectNb_def split: if_splits)
qed simp

section \<open>Properties\<close>

text \<open>
  C15. \<^verbatim>\<open>sendB\<close> delivers everything: if the system, over any number of partial writes and
  retries and without a fatal error, accepts as many bytes as asked for, the call
  returns true and exactly the first \<open>target\<close> bytes of the buffer are on the wire.
\<close>

theorem sendB_delivers_all:
  assumes "target \<le> length buf" "list_all send_retry evs" "target \<le> accepts evs"
  shows "\<exists>evs'. sendB evs s buf target = Some (Inr (s, True, take target buf, evs'))"
  using sendB_loop_complete [of target buf evs 0 s] assms by (simp add: sendB_def)

definition conn :: Socket where
  "conn = Socket_new 3 True 0 0 0"

theorem sendB_delivers_all_witness:
  "\<exists>evs'. sendB [Sent 2, SendErr EAGAIN, Sent 9] conn [1, 2, 3, 4] 3
     = Some (Inr (conn, True, [1, 2, 3], evs'))"
  using sendB_delivers_all [of 3 "[1, 2, 3, 4]" "[Sent 2, SendErr EAGAIN, Sent 9]" conn]
  by (simp add: accepts_def)

text \<open>
  Whatever the system does, the bytes \<^verbatim>\<open>sendB\<close> has put on the wire when it returns are
  a prefix of the buffer, no longer than asked for, and the whole of it when the
  call returns true.
\<close>

lemma sendB_sends_prefix:
  assumes "target \<le> length buf" "sendB evs s buf target = Some (Inr (s', ok, wire, evs'))"
  shows "\<exists>n \<le> target. wire = take n buf \<and> (ok \<longrightarrow> n = target)"
  using sendB_loop_sound [of target buf 0 evs s] assms by (simp add: sendB_def)

lemma sendB_example:
  "sendB [Sent 2, SendErr EOTHER] conn [1, 2, 3, 4] 3 =
     Some (Inr (perror ''Failed to send data - in sendBlocking'' (perror ''Failed to send data'' conn),
                False, [1, 2], []))"
  by (simp add: sendB_def sendB_loop.simps sendNb_def load_at_def)

lemma sendB_sends_prefix_example:
  "\<exists>n \<le> 3. [1, 2] = take n [1, 2, 3, 4 :: byte]
     \<and> sendB [Sent 2, SendErr EOTHER] conn [1, 2, 3, 4] 3 \<noteq> None"
proof -
  have "\<exists>n \<le> 3. [1, 2] = take n [1, 2, 3, 4 :: byte] \<and> (False \<longrightarrow> n = 3)"
    by (rule sendB_sends_prefix [OF _ sendB_example]) simp
  then show ?thesis by (simp add: sendB_example)
qed

text \<open>
  Asked to send more bytes than the buffer holds, \<^verbatim>\<open>sendB\<close> hands the system memory
  outside the buffer, on its first call of \<^verbatim>\<open>send\<close>.
\<close>

lemma sendB_reads_past_buffer:
  assumes "length buf < target" "evs \<noteq> []"
  shows "sendB evs s buf target = Some (Inl OutOfBounds)"
  using assms by (cases evs) (simp_all add: sendB_def sendB_loop.simps load_at_def)

lemma sendB_reads_past_buffer_example:
  "sendB [Sent 9] conn [1, 2] 3 = Some (Inl OutOfBounds)"
  using sendB_reads_past_buffer [of "[1, 2]" 3 "[Sent 9]" conn] by simp

text \<open>
  C16. \<^verbatim>\<open>receiveB\<close> under any segmentation of the incoming bytes and any retries: as soon
  as enough bytes have arrived it returns true, with the first \<open>target\<close> of them at
  the front of the buffer and the rest of the buffer unchanged.
\<close>

theorem receiveB_fills_buffer:
  assumes "list_all recv_retry evs" "target \<le> length buf" "target \<le> length (arrives evs)"
  shows "\<exists>evs'. receiveB evs s buf target =
    Some (Inr (s, True, take target (arrives evs) @ drop target buf, evs'))"
  using receiveB_loop_complete [of evs target buf 0 s] assms by (simp add: receiveB_def)

theorem receiveB_fills_buffer_witness:
  "\<exists>evs'. receiveB [Data [7], RecvErr EAGAIN, Data [8, 9, 10]] conn [0, 0, 0, 0] 3
     = Some (Inr (conn, True, [7, 8, 9, 0], evs'))"
  using receiveB_fills_buffer [of "[Data [7], RecvErr EAGAIN, Data [8, 9, 10]]" 3 "[0, 0, 0, 0]" conn]
  by simp

text \<open>
  A peer that closes the connection early makes \<^verbatim>\<open>receiveB\<close> and the polling loops
  run forever: the 0 that \<^verbatim>\<open>recv\<close> then returns counts as no data yet, so after any
  number of further calls the loops have not returned.
\<close>

lemma receive_spins_on_close:
  assumes "list_all recv_retry evs" "target \<le> length buf" "length (arrives evs) < target"
  shows "receiveB (evs @ replicate n (Data [])) s buf target = None
    \<and> recv_poll (replicate n (Data [])) s buf = None"
proof -
  have idle: "list_all recv_retry (replicate n (Data []))" "arrives (replicate n (Data [])) = []"
    by (induction n) simp_all
  show ?thesis
    using receiveB_loop_starves [of "evs @ replicate n (Data [])" target buf 0 s] assms
      recv_poll_starves [OF idle] idle
    by (simp add: receiveB_def)
qed

lemma receive_spins_on_close_example:
  "receiveB ([Data [7]] @ replicate 1000 (Data [])) conn [0, 0, 0] 3 = None"
  using receive_spins_on_close [of "[Data [7]]" 3 "[0, 0, 0]" 1000 conn] by simp

text \<open>
  \<^verbatim>\<open>connectB\<close> returns exactly when some attempt succeeds or finds the socket already
  connected, and the socket is then marked connected; any other error is retried.
\<close>

lemma connectB_returns:
  "(\<exists>s' evs'. connectB s evs = Some (s', evs') \<and> connected s')
     \<longleftrightarrow> ConnOk \<in> set evs \<or> ConnErr EISCONN \<in> set evs"
  using connectB_None [of s evs] connectB_connected [of s evs] by (cases "connectB s evs") auto

end
