(* ===== verification/App.thy ===== *)
theory App
  imports Packet Console Tcp_Socket
begin

text \<open>
  \<^verbatim>\<open>client/app.h\<close> and \<^verbatim>\<open>client/app.cpp\<close>: the chat client. The protocol-buffer serialiser
  \<open>ser\<close> and parser \<open>parse\<close> are arguments, as are the iteration orders of the
  unordered maps, the keys the user types, and for every connection the results of
  the system calls (\<open>Net\<close>). An operation that has not returned on these is \<open>None\<close>.
  The maps are association lists with distinct keys. The background threads are
  modelled one round of their loop at a time; sleeping is left out. Text printed by
  them while the user types does not change the line read (\<open>write_above_prompt\<close> in
  theory \<open>Console\<close>).
\<close>

section \<open>State\<close>

datatype Command = kDisplayOnlineUsers | kChatWithUser

record App =
  console :: Console
  name_to_id :: "(string \<times> user_id_t) list"
  id_to_name :: "(user_id_t \<times> string) list"
  app_username :: string
  app_id :: user_id_t
  cerr :: "string list"

definition App_init :: App where
  "App_init = \<lparr>console = Console_getInstance None, name_to_id = [], id_to_name = [], app_username = [],
     app_id = 0, cerr = []\<rparr>"

text \<open>
  The system calls of one connection: the results of \<^verbatim>\<open>socket\<close> and the two \<^verbatim>\<open>fcntl\<close> in
  the constructor, and those of \<^verbatim>\<open>connect\<close>, \<^verbatim>\<open>send\<close> and \<^verbatim>\<open>recv\<close>.
\<close>

record Net =
  n_socket :: int
  n_getfl :: int
  n_setfl :: int
  conns :: "conn_ev list"
  sends :: "send_ev list"
  recvs :: "recv_ev list"

definition write_line :: "string \<Rightarrow> App \<Rightarrow> App" where
  "write_line l a = a\<lparr>console := Console_write l (console a)\<rparr>"

definition add_cerr :: "string list \<Rightarrow> App \<Rightarrow> App" where
  "add_cerr ls a = a\<lparr>cerr := cerr a @ ls\<rparr>"

definition kClientBuffer :: nat where
  "kClientBuffer = 1000"

section \<open>One exchange with the server\<close>

text \<open>
  The statements every operation of the client repeats: connect a fresh socket;
  serialise the request into the transmit buffer and send as many bytes as the
  packet has; wait for the first bytes to arrive; parse the whole receive buffer.
\<close>

definition connect_server :: "Net \<Rightarrow> Socket option" where
  "connect_server net =
     (case connectB (Socket_new (- 1) False (n_socket net) (n_getfl net) (n_setfl net)) (conns net) of
        None \<Rightarrow> None
      | Some (s, rest) \<Rightarrow> Some s)"

record exchanged =
  resp_packet :: Packet
  tx_buf :: bytes
  rx_buf :: bytes
  on_wire :: bytes
  sock_errs :: "string list"

definition transact ::
    "(Packet \<Rightarrow> bytes) \<Rightarrow> (bytes \<Rightarrow> Packet) \<Rightarrow> Packet \<Rightarrow> Socket \<Rightarrow> Net \<Rightarrow> bytes \<Rightarrow> bytes \<Rightarrow>
     exchanged result option" where
  "transact ser parse req_packet my_socket net tx_buffer rx_buffer =
     (let tx_buffer = fst (SerializeToArray ser req_packet tx_buffer)
      in case sendB (sends net) my_socket tx_buffer (ByteSizeLong ser req_packet) of
           None \<Rightarrow> None
         | Some (Inl e) \<Rightarrow> Some (Inl e)
         | Some (Inr (my_socket, ok, wire, rest)) \<Rightarrow>
             (case recv_poll (recvs net) my_socket rx_buffer of
                None \<Rightarrow> None
              | Some (Inl e) \<Rightarrow> Some (Inl e)
              | Some (Inr (my_socket, n, rx_buffer, rest')) \<Rightarrow>
                  Some (Inr \<lparr>resp_packet = parse rx_buffer, tx_buf = tx_buffer, rx_buf = rx_buffer,
                             on_wire = wire, sock_errs = sock_log my_socket\<rparr>)))"

section \<open>Registration\<close>

definition register_request :: "string \<Rightarrow> Packet" where
  "register_request name =
     (Packet_of_type PACKET_TYPE_REQUEST_REGISTER)\<lparr>req_reg := Some \<lparr>reg_username = Some name\<rparr>\<rparr>"

definition name_prompt :: string where
  "name_prompt = ''Hi, there. Enter your name to start chatting >''"

text \<open>The checks of the response only report; \<open>id_\<close> is read in any case.\<close>

definition register_errors :: "Packet \<Rightarrow> string list" where
  "register_errors p =
     (if hdr p = None then [''Error. Register user response is missing a header''] else []) @
     (if resp_reg p = None \<or> reg_resp_value (get_resp_reg p) = None
      then [''Error. Register user response is missing response message''] else []) @
     (if get_or 0 (reg_resp_value (get_resp_reg p)) \<noteq> 0
      then [''Error. Server responded with a negative response for registering the user.''] else [])"

definition App_registerUser ::
    "(Packet \<Rightarrow> bytes) \<Rightarrow> (bytes \<Rightarrow> Packet) \<Rightarrow> int list \<Rightarrow> Net \<Rightarrow> App \<Rightarrow>
     (App \<times> int list \<times> bytes) result option" where
  "App_registerUser ser parse keys net a =
     (case connect_server net of
        None \<Rightarrow> None
      | Some my_socket \<Rightarrow>
          (case Console_read name_prompt keys (console a) of
             None \<Rightarrow> None
           | Some (c, line, keys) \<Rightarrow>
               let a = a\<lparr>console := c, app_username := line\<rparr>;
                   req_packet = register_request (app_username a);
                   tx_buffer = replicate kClientBuffer 0;
                   rx_buffer = replicate kClientBuffer 0
               in case transact ser parse req_packet my_socket net tx_buffer rx_buffer of
                    None \<Rightarrow> None
                  | Some (Inl e) \<Rightarrow> Some (Inl e)
                  | Some (Inr x) \<Rightarrow>
                      let a = add_cerr (sock_errs x @ register_errors (resp_packet x)) a;
                          a = a\<lparr>app_id := get_or 0 (reg_assigned_id (get_resp_reg (resp_packet x)))\<rparr>;
                          a = write_line (''DEBUG: Server assigned user ID = '' @ show_u32 (app_id a)) a
                      in Some (Inr (a, keys, on_wire x))))"

section \<open>Commands\<close>

definition cmd_map :: "(char \<times> Command) list" where
  "cmd_map = [(CHR ''1'', kDisplayOnlineUsers), (CHR ''2'', kChatWithUser)]"

definition cmd_prompt :: string where
  "cmd_prompt = ''Enter your choice >''"

function getUserCommand_loop :: "int list \<Rightarrow> App \<Rightarrow> (App \<times> Command \<times> int list) option" where
  "getUserCommand_loop keys a =
     (case Console_read cmd_prompt keys (console a) of
        None \<Rightarrow> None
      | Some (c, user_cmd, rest) \<Rightarrow>
          let a = a\<lparr>console := c\<rparr>
          in if length user_cmd = 0 \<or> 1 < length user_cmd \<or> map_of cmd_map (user_cmd ! 0) = None
             then getUserCommand_loop rest (write_line ''Invalid selection, try again'' a)
             else map_option (\<lambda>cmd. (a, cmd, rest)) (map_of cmd_map (user_cmd ! 0)))"
  by pat_completeness auto
termination
  by (relation "measure (\<lambda>(keys, a). length keys)") (auto dest: Console_read_shorter)

declare getUserCommand_loop.simps [simp del]

definition getUserCommand :: "int list \<Rightarrow> App \<Rightarrow> (App \<times> Command \<times> int list) option" where
  "getUserCommand keys a =
     (let a = write_line (''Hi '' @ app_username a @ ''! Follow the instructions below:'') a;
          a = write_line ''Type \"1\" for viewing online users'' a;
          a = write_line ''Type \"2\" to chat with a user'' a
      in getUserCommand_loop keys a)"

section \<open>Online users\<close>

definition users_request :: "user_id_t \<Rightarrow> Packet" where
  "users_request i =
     (Packet_of_type PACKET_TYPE_REQUEST_USERS)\<lparr>req_users := Some \<lparr>users_requestor_id = Some i\<rparr>\<rparr>"

text \<open>\<^verbatim>\<open>new_name_to_id[user.username()] = user.user_id()\<close> for every user of the response.\<close>

definition names_of_users :: "OnlineUser list \<Rightarrow> (string \<times> user_id_t) list" where
  "names_of_users us =
     foldl (\<lambda>m u. AList.update (get_or [] (ou_username u)) (get_or 0 (ou_user_id u)) m) [] us"

text \<open>\<^verbatim>\<open>operator==\<close> of unordered maps: the same size, and every entry is in the other map.\<close>

definition same_map :: "('a \<times> 'b) list \<Rightarrow> ('a \<times> 'b) list \<Rightarrow> bool" where
  "same_map xs ys \<longleftrightarrow> length xs = length ys \<and> list_all (\<lambda>(k, v). map_of ys k = Some v) xs"

text \<open>\<^verbatim>\<open>emplace\<close> leaves an existing entry as it is.\<close>

definition emplace :: "'a \<Rightarrow> 'b \<Rightarrow> ('a \<times> 'b) list \<Rightarrow> ('a \<times> 'b) list" where
  "emplace k v m = (if map_of m k = None then m @ [(k, v)] else m)"

definition invert_names :: "(string \<times> user_id_t) list \<Rightarrow> (user_id_t \<times> string) list" where
  "invert_names ms = foldl (\<lambda>m mapping. emplace (snd mapping) (fst mapping) m) [] ms"

definition printOnlineUsers :: "((string \<times> user_id_t) list \<Rightarrow> (string \<times> user_id_t) list) \<Rightarrow> App \<Rightarrow> App" where
  "printOnlineUsers iter a =
     foldl (\<lambda>a mapping. if snd mapping = app_id a then a else write_line (fst mapping) a) a
       (iter (name_to_id a))"

definition update_online_users ::
    "((string \<times> user_id_t) list \<Rightarrow> (string \<times> user_id_t) list) \<Rightarrow> Packet \<Rightarrow> App \<Rightarrow> App" where
  "update_online_users iter p a =
     (if get_or 0 (users_resp_value (get_resp_users p)) \<noteq> 0
      then write_line ''DEBUG: ERR, negative response for get online users request'' a
      else
        let new_name_to_id = names_of_users (users_online_users (get_resp_users p))
        in if same_map new_name_to_id (name_to_id a) then a
           else
             let a = a\<lparr>name_to_id := new_name_to_id\<rparr>;
                 a = a\<lparr>id_to_name := invert_names (iter (name_to_id a))\<rparr>;
                 a = write_line ''**********Updated Online users: '' a
             in if length (name_to_id a) = 0 then write_line ''No other users currently online'' a
                else printOnlineUsers iter a)"

text \<open>One round of \<^verbatim>\<open>periodicGetOnlineUsers\<close>; the buffers live as long as the thread.\<close>

definition periodicGetOnlineUsers ::
    "(Packet \<Rightarrow> bytes) \<Rightarrow> (bytes \<Rightarrow> Packet) \<Rightarrow>
     ((string \<times> user_id_t) list \<Rightarrow> (string \<times> user_id_t) list) \<Rightarrow> Net \<Rightarrow>
     bytes \<times> bytes \<Rightarrow> App \<Rightarrow> (App \<times> (bytes \<times> bytes) \<times> bytes) result option" where
  "periodicGetOnlineUsers ser parse iter net bufs a =
     (case connect_server net of
        None \<Rightarrow> None
      | Some my_socket \<Rightarrow>
          (case transact ser parse (users_request (app_id a)) my_socket net (fst bufs) (snd bufs) of
             None \<Rightarrow> None
           | Some (Inl e) \<Rightarrow> Some (Inl e)
           | Some (Inr x) \<Rightarrow>
               Some (Inr (update_online_users iter (resp_packet x) (add_cerr (sock_errs x) a),
                          (tx_buf x, rx_buf x), on_wire x))))"

section \<open>Chatting\<close>

definition send_request :: "user_id_t \<Rightarrow> user_id_t \<Rightarrow> string \<Rightarrow> Packet" where
  "send_request src trgt m =
     (Packet_of_type PACKET_TYPE_REQUEST_SEND)\<lparr>req_send :=
        Some \<lparr>send_source_id = Some src, send_target_id = Some trgt, send_message = Some m\<rparr>\<rparr>"

definition target_prompt :: string where
  "target_prompt = ''Enter the name of the user you would like to chat with: ''"

text \<open>
  The choice of the partner: \<open>None\<close> for the partner when the user types \<open>x\<close>.
\<close>

function select_target :: "int list \<Rightarrow> App \<Rightarrow> (App \<times> string option \<times> int list) option" where
  "select_target keys a =
     (case Console_read target_prompt keys (console a) of
        None \<Rightarrow> None
      | Some (c, target_user, rest) \<Rightarrow>
          let a = a\<lparr>console := c\<rparr>
          in if target_user = ''x'' then Some (a, None, rest)
             else if map_of (name_to_id a) target_user = None
             then select_target rest (write_line ''Error,  user not available'' a)
             else Some (a, Some target_user, rest))"
  by pat_completeness auto
termination
  by (relation "measure (\<lambda>(keys, a). length keys)") (auto dest: Console_read_shorter)

declare select_target.simps [simp del]

text \<open>
  The switch over \<^verbatim>\<open>static_cast<SendStatus>(resp_value)\<close>: the 32-bit value is cut down to
  the enumeration's underlying byte.
\<close>

definition send_report :: "u32 \<Rightarrow> string" where
  "send_report resp_value =
     (let status = (ucast resp_value :: byte)
      in if status = SendStatus_code kSuccess then ''Message succesfully sent''
         else if status = SendStatus_code kErrSrcId then ''ERR: Source ID incorrect in send request''
         else if status = SendStatus_code kErrTrgtId then ''ERR: Target ID incorrect in send request''
         else ''ERR: Received unexpected response value from server in Send request'')"

text \<open>\<^verbatim>\<open>name_to_id_[target_user]\<close>: an entry that is missing is created with id 0.\<close>

definition name_to_id_ref :: "string \<Rightarrow> App \<Rightarrow> App \<times> user_id_t" where
  "name_to_id_ref name a =
     (case map_of (name_to_id a) name of
        None \<Rightarrow> (a\<lparr>name_to_id := AList.update name 0 (name_to_id a)\<rparr>, 0)
      | Some i \<Rightarrow> (a, i))"

text \<open>The message loop, with one \<open>Net\<close> for each message sent.\<close>

function chat_loop ::
    "(Packet \<Rightarrow> bytes) \<Rightarrow> (bytes \<Rightarrow> Packet) \<Rightarrow> string \<Rightarrow> int list \<Rightarrow> Net list \<Rightarrow>
     bytes \<times> bytes \<Rightarrow> App \<Rightarrow> bytes \<Rightarrow> (App \<times> int list \<times> bytes) result option" where
  "chat_loop ser parse target_user keys nets bufs a sent_bytes =
     (case Console_read (''Send message to '' @ target_user @ ''>'') keys (console a) of
        None \<Rightarrow> None
      | Some (c, m, rest) \<Rightarrow>
          let a = a\<lparr>console := c\<rparr>
          in if m = ''x'' then Some (Inr (a, rest, sent_bytes))
             else (case nets of
                     [] \<Rightarrow> None
                   | net # nets \<Rightarrow>
                       (case connect_server net of
                          None \<Rightarrow> None
                        | Some my_socket \<Rightarrow>
                            let (a, trgt) = name_to_id_ref target_user a;
                                req_packet = send_request (app_id a) trgt m
                            in (case transact ser parse req_packet my_socket net (fst bufs) (snd bufs) of
                                  None \<Rightarrow> None
                                | Some (Inl e) \<Rightarrow> Some (Inl e)
                                | Some (Inr x) \<Rightarrow>
                                    let a = add_cerr (sock_errs x) a;
                                        sent_bytes = sent_bytes @ on_wire x
                                    in (case send_resp_value (get_resp_send (resp_packet x)) of
                                          None \<Rightarrow> Some (Inr (write_line
                                            ''ERR: unexpected server response for sending a message'' a,
                                            rest, sent_bytes))
                                        | Some v \<Rightarrow>
                                            chat_loop ser parse target_user rest nets (tx_buf x, rx_buf x)
                                              (write_line (send_report v) a) sent_bytes)))))"
  by pat_completeness auto
termination
  by (relation "measure (\<lambda>(ser, parse, target_user, keys, nets, bufs, a, sent_bytes). length keys)")
    (auto dest: Console_read_shorter)

declare chat_loop.simps [simp del]

definition taskChatWithUser ::
    "(Packet \<Rightarrow> bytes) \<Rightarrow> (bytes \<Rightarrow> Packet) \<Rightarrow> int list \<Rightarrow> Net list \<Rightarrow> App \<Rightarrow>
     (App \<times> int list \<times> bytes) result option" where
  "taskChatWithUser ser parse keys nets a =
     (case select_target keys a of
        None \<Rightarrow> None
      | Some (a, None, rest) \<Rightarrow> Some (Inr (a, rest, []))
      | Some (a, Some target_user, rest) \<Rightarrow>
          chat_loop ser parse target_user rest nets (replicate kClientBuffer 0, replicate kClientBuffer 0) a [])"

section \<open>Incoming messages\<close>

definition recv_request :: "user_id_t \<Rightarrow> Packet" where
  "recv_request i =
     (Packet_of_type PACKET_TYPE_REQUEST_RECV)\<lparr>req_recv := Some \<lparr>recv_requestor_id = Some i\<rparr>\<rparr>"

definition message_line :: "(user_id_t \<times> string) list \<Rightarrow> UserMessage \<Rightarrow> string" where
  "message_line names um =
     (case map_of names (get_or 0 (um_user_id um)) of
        Some name \<Rightarrow> name @ ''> ''
      | None \<Rightarrow> ''Unknown sender > '') @ get_or [] (um_message um)"

text \<open>The loop over the messages of the answer.\<close>

fun print_messages :: "UserMessage list \<Rightarrow> App \<Rightarrow> App" where
  "print_messages [] a = a"
| "print_messages (um # ums) a = print_messages ums (write_line (message_line (id_to_name a) um) a)"

text \<open>One round of \<^verbatim>\<open>periodicGetMessages\<close>.\<close>

definition periodicGetMessages ::
    "(Packet \<Rightarrow> bytes) \<Rightarrow> (bytes \<Rightarrow> Packet) \<Rightarrow> Net \<Rightarrow>
     bytes \<times> bytes \<Rightarrow> App \<Rightarrow> (App \<times> (bytes \<times> bytes) \<times> bytes) result option" where
  "periodicGetMessages ser parse net bufs a =
     (case connect_server net of
        None \<Rightarrow> None
      | Some my_socket \<Rightarrow>
          (case transact ser parse (recv_request (app_id a)) my_socket net (fst bufs) (snd bufs) of
             None \<Rightarrow> None
           | Some (Inl e) \<Rightarrow> Some (Inl e)
           | Some (Inr x) \<Rightarrow>
               let a = add_cerr (sock_errs x) a
               in Some (Inr (print_messages (recv_messages (get_resp_recv (resp_packet x))) a,
                             (tx_buf x, rx_buf x), on_wire x))))"

section \<open>The main loop\<close>

text \<open>One command of the loop of \<^verbatim>\<open>run\<close>.\<close>

definition run_command ::
    "(Packet \<Rightarrow> bytes) \<Rightarrow> (bytes \<Rightarrow> Packet) \<Rightarrow>
     ((string \<times> user_id_t) list \<Rightarrow> (string \<times> user_id_t) list) \<Rightarrow> int list \<Rightarrow> Net list \<Rightarrow> App \<Rightarrow>
     (App \<times> int list \<times> bytes) result option" where
  "run_command ser parse iter keys nets a =
     (case getUserCommand keys a of
        None \<Rightarrow> None
      | Some (a, cmd, rest) \<Rightarrow>
          (case cmd of
             kDisplayOnlineUsers \<Rightarrow> Some (Inr (printOnlineUsers iter a, rest, []))
           | kChatWithUser \<Rightarrow> taskChatWithUser ser parse rest nets a))"

text \<open>
  \<^verbatim>\<open>run\<close> never returns: this is its state after the registration and the given
  commands, each with the connections it makes.
\<close>

fun run_commands ::
    "(Packet \<Rightarrow> bytes) \<Rightarrow> (bytes \<Rightarrow> Packet) \<Rightarrow>
     ((string \<times> user_id_t) list \<Rightarrow> (string \<times> user_id_t) list) \<Rightarrow> int list \<Rightarrow> Net list list \<Rightarrow> App \<Rightarrow>
     (App \<times> int list) result option" where
  "run_commands ser parse iter keys [] a = Some (Inr (a, keys))"
| "run_commands ser parse iter keys (nets # ns) a =
     (case run_command ser parse iter keys nets a of
        None \<Rightarrow> None
      | Some (Inl e) \<Rightarrow> Some (Inl e)
      | Some (Inr (a, keys, wire)) \<Rightarrow> run_commands ser parse iter keys ns a)"

definition App_run ::
    "(Packet \<Rightarrow> bytes) \<Rightarrow> (bytes \<Rightarrow> Packet) \<Rightarrow>
     ((string \<times> user_id_t) list \<Rightarrow> (string \<times> user_id_t) list) \<Rightarrow> int list \<Rightarrow> Net \<Rightarrow> Net list list \<Rightarrow>
     (App \<times> int list) result option" where
  "App_run ser parse iter keys net ns =
     (case App_registerUser ser parse keys net App_init of
        None \<Rightarrow> None
      | Some (Inl e) \<Rightarrow> Some (Inl e)
      | Some (Inr (a, keys, wire)) \<Rightarrow> run_commands ser parse iter keys ns a)"

section \<open>Reading choices\<close>

lemma write_line_sel [simp]:
  "name_to_id (write_line l a) = name_to_id a" "id_to_name (write_line l a) = id_to_name a"
  "app_id (write_line l a) = app_id a" "app_username (write_line l a) = app_username a"
  "console (write_line l a) = Console_write l (console a)"
  by (simp_all add: write_line_def)

lemma Console_write_input [simp]:
  "m_user_input (Console_write l c) = m_user_input c" "m_prompt (Console_write l c) = m_prompt c"
  by (simp_all add: Console_write_def Let_def)

text \<open>A line typed at a prompt, when nothing is half typed.\<close>

lemma Console_read_line:
  assumes "kNewLine \<notin> set ks" "m_user_input c = []"
  shows "\<exists>c'. Console_read prompt (ks @ kNewLine # rest) c = Some (c', edit [] ks, rest) \<and> m_user_input c' = []"
  using read_loop_eq [OF assms(1), of rest "read_start prompt c"] assms(2)
  by (auto simp: Console_read_def read_start_def)

definition valid_choice :: "string \<Rightarrow> Command option" where
  "valid_choice s = (if length s = 1 then map_of cmd_map (s ! 0) else None)"

lemma getUserCommand_loop_line:
  assumes "kNewLine \<notin> set ks" "m_user_input (console a) = []"
  shows "\<exists>a'. m_user_input (console a') = [] \<and> app_username a' = app_username a \<and>
    getUserCommand_loop (ks @ kNewLine # rest) a =
      (case valid_choice (edit [] ks) of
         None \<Rightarrow> getUserCommand_loop rest a'
       | Some cmd \<Rightarrow> Some (a', cmd, rest))"
proof -
  obtain c where c: "Console_read cmd_prompt (ks @ kNewLine # rest) (console a) = Some (c, edit [] ks, rest)"
    "m_user_input c = []"
    using Console_read_line [OF assms] by blast
  show ?thesis
  proof (cases "valid_choice (edit [] ks)")
    case None
    moreover have "length (edit [] ks) = 0 \<or> 1 < length (edit [] ks) \<or> length (edit [] ks) = 1"
      by arith
    ultimately have "length (edit [] ks) = 0 \<or> 1 < length (edit [] ks) \<or> map_of cmd_map (edit [] ks ! 0) = None"
      by (auto simp: valid_choice_def)
    with None c show ?thesis
      by (intro exI [of _ "write_line ''Invalid selection, try again'' (a\<lparr>console := c\<rparr>)"])
        (simp add: getUserCommand_loop.simps [of "ks @ _"] Let_def)
  next
    case (Some cmd)
    then have "length (edit [] ks) = 1" "map_of cmd_map (edit [] ks ! 0) = Some cmd"
      by (auto simp: valid_choice_def split: if_splits)
    with Some c show ?thesis
      by (intro exI [of _ "a\<lparr>console := c\<rparr>"])
        (auto simp add: getUserCommand_loop.simps [of "ks @ _"] Let_def)
  qed
qed

lemma getUserCommand_loop_returns:
  assumes "list_all (\<lambda>ks. kNewLine \<notin> set ks \<and> valid_choice (edit [] ks) = None) bad"
    and "kNewLine \<notin> set ks" "valid_choice (edit [] ks) = Some cmd" "m_user_input (console a) = []"
  shows "\<exists>a'. getUserCommand_loop (concat (map (\<lambda>ks. ks @ [kNewLine]) bad) @ ks @ kNewLine # rest) a
      = Some (a', cmd, rest)"
  using assms(1,4)
proof (induction bad arbitrary: a)
  case Nil
  then show ?case
    using getUserCommand_loop_line [OF assms(2) Nil.prems(2), of rest] assms(3) by auto
next
  case (Cons b bad)
  let ?rest = "concat (map (\<lambda>ks. ks @ [kNewLine]) bad) @ ks @ kNewLine # rest"
  from Cons.prems have b: "kNewLine \<notin> set b" "valid_choice (edit [] b) = None"
    "list_all (\<lambda>ks. kNewLine \<notin> set ks \<and> valid_choice (edit [] ks) = None) bad"
    by simp_all
  obtain a1 where a1: "m_user_input (console a1) = []"
    "getUserCommand_loop (b @ kNewLine # ?rest) a = getUserCommand_loop ?rest a1"
    using getUserCommand_loop_line [OF b(1) Cons.prems(2), of ?rest] b(2) by auto
  from Cons.IH [OF b(3) a1(1)] show ?case by (simp add: a1(2))
qed

lemma select_target_sound:
  "select_target keys a = Some (a', t, rest) \<Longrightarrow>
   name_to_id a' = name_to_id a \<and> (case t of None \<Rightarrow> True | Some name \<Rightarrow> map_of (name_to_id a) name \<noteq> None)"
proof (induction keys a rule: select_target.induct)
  case (1 keys a)
  obtain c line ks where read: "Console_read target_prompt keys (console a) = Some (c, line, ks)"
    using "1.prems" by (auto simp: select_target.simps [of keys] split: option.splits)
  show ?case
  proof (cases "line \<noteq> ''x'' \<and> map_of (name_to_id a) line = None")
    case True
    then have "select_target keys a
        = select_target ks (write_line ''Error,  user not available'' (a\<lparr>console := c\<rparr>))"
      by (simp add: select_target.simps [of keys] read)
    with "1.IH" [OF read refl _ refl] True "1.prems" show ?thesis by (simp split: option.splits)
  next
    case False
    with "1.prems" show ?thesis
      by (auto simp: select_target.simps [of keys] read Let_def split: if_splits)
  qed
qed

section \<open>Properties\<close>

text \<open>
  C25. The command prompt: after any number of invalid lines the first valid one, \<open>1\<close> or
  \<open>2\<close> and nothing else, is returned as its command, and the keys behind it are left.
\<close>

theorem getUserCommand_returns:
  assumes "list_all (\<lambda>ks. kNewLine \<notin> set ks \<and> valid_choice (edit [] ks) = None) bad"
    and "kNewLine \<notin> set ks" "valid_choice (edit [] ks) = Some cmd" "m_user_input (console a) = []"
  shows "\<exists>a'. getUserCommand (concat (map (\<lambda>ks. ks @ [kNewLine]) bad) @ ks @ kNewLine # rest) a
      = Some (a', cmd, rest)"
  unfolding getUserCommand_def Let_def
  by (rule getUserCommand_loop_returns [OF assms(1-3)]) (simp add: assms(4))

theorem getUserCommand_returns_witness:
  "\<exists>a'. getUserCommand [51, 0x0A, 0x0A, 49, 50, 0x0A, 50, 0x0A, 104] App_init = Some (a', kChatWithUser, [104])"
proof -
  have e: "edit [] [51] = ''3''" "edit [] [] = []" "edit [] [49, 50] = ''12''" "edit [] [50] = ''2''"
    by code_simp+
  have "list_all (\<lambda>ks. kNewLine \<notin> set ks \<and> valid_choice (edit [] ks) = None) [[51], [], [49, 50]]"
    "kNewLine \<notin> set [50]" "valid_choice (edit [] [50]) = Some kChatWithUser" "m_user_input (console App_init) = []"
    by (simp_all add: e valid_choice_def cmd_map_def kNewLine_def App_init_def Console_init_def)
  from getUserCommand_returns [OF this, of "[104]"] show ?thesis
    by (simp add: kNewLine_def)
qed

text \<open>
  The chat partner the user is asked for is always a user in the map of names, which
  the dialogue leaves as it is, so that addressing a message finds the partner's id
  and creates no new entry.
\<close>

lemma chat_partner_known:
  assumes "select_target keys a = Some (a', Some name, rest)"
  shows "name_to_id a' = name_to_id a \<and> map_of (name_to_id a') name \<noteq> None
    \<and> name_to_id_ref name a' = (a', the (map_of (name_to_id a) name))"
  using select_target_sound [OF assms] by (auto simp: name_to_id_ref_def)

lemma chat_partner_known_example:
  "\<exists>a'. select_target [98, 0x0A] (App_init\<lparr>name_to_id := [(''b'', 7)]\<rparr>) = Some (a', Some ''b'', [])
     \<and> name_to_id_ref ''b'' a' = (a', 7)"
proof -
  let ?a = "App_init\<lparr>name_to_id := [(''b'', 7)]\<rparr>"
  have e: "edit [] [98] = ''b''" by code_simp
  have "kNewLine \<notin> set [98]" "m_user_input (console ?a) = []"
    by (simp_all add: kNewLine_def App_init_def Console_init_def)
  from Console_read_line [OF this, of target_prompt "[]"]
  obtain c where "Console_read target_prompt [98, 0x0A] (console ?a) = Some (c, ''b'', [])"
    by (auto simp: e kNewLine_def)
  then have s: "select_target [98, 0x0A] ?a = Some (?a\<lparr>console := c\<rparr>, Some ''b'', [])"
    by (simp add: select_target.simps)
  from chat_partner_known [OF s] show ?thesis
    by (intro exI [of _ "?a\<lparr>console := c\<rparr>"]) (simp add: s)
qed

end
