(* ===== verification/Wire.thy ===== *)
theory Wire
  imports Packet
begin

text \<open>
  The protocol-buffer wire format, for the messages of \<^verbatim>\<open>common/packet.proto\<close>. The
  program gets its serialiser and parser from the protocol-buffer library, and the
  components take them as arguments; this theory defines them from the published
  encoding and interprets the locale \<open>packet_codec\<close> on them, so that the laws the
  components rely on are known to hold of the real format.

  A message is a sequence of fields. A field is a tag, the varint of
  \<open>8 * number + wire type\<close>, followed by a varint (wire type 0) or by a length and that
  many bytes (wire type 2). Parsing stops at a zero tag, at a wire type no field
  of the program uses and where the input ends inside a field. The check of
  string fields for valid UTF-8 is not part of the parser: \<open>wf_wire\<close> admits ASCII only.
\<close>

section \<open>Varints\<close>

fun enc_varint :: "nat \<Rightarrow> bytes" where
  "enc_varint n = (if n < 128 then [word_of_nat n]
     else word_of_nat (128 + n mod 128) # enc_varint (n div 128))"

declare enc_varint.simps [simp del]

fun dec_varint :: "bytes \<Rightarrow> (nat \<times> bytes) option" where
  "dec_varint [] = None"
| "dec_varint (b # bs) =
     (if unat b < 128 then Some (unat b, bs)
      else (case dec_varint bs of
              None \<Rightarrow> None
            | Some (n, rest) \<Rightarrow> Some (unat b - 128 + 128 * n, rest)))"

lemma unat_byte_of_nat: "n < 256 \<Longrightarrow> unat (word_of_nat n :: byte) = n"
  by (simp add: unsigned_of_nat take_bit_eq_mod)

lemma dec_enc_varint [simp]: "dec_varint (enc_varint n @ rest) = Some (n, rest)"
proof (induction n rule: enc_varint.induct)
  case (1 n)
  show ?case
  proof (cases "n < 128")
    case True
    then show ?thesis by (simp add: enc_varint.simps unat_byte_of_nat)
  next
    case False
    have "128 + n mod 128 < 256" by simp
    then have "unat (word_of_nat (128 + n mod 128) :: byte) = 128 + n mod 128"
      by (rule unat_byte_of_nat)
    with 1 [OF False] False show ?thesis
      by (subst enc_varint.simps) simp
  qed
qed

lemma enc_varint_nonempty [simp]: "enc_varint n \<noteq> []"
  by (simp add: enc_varint.simps)

lemma dec_varint_shorter: "dec_varint bs = Some (n, rest) \<Longrightarrow> length rest < length bs"
  by (induction bs arbitrary: n) (fastforce split: if_splits option.splits)+

section \<open>Fields\<close>

datatype wire_value = Varint nat | Len bytes

type_synonym wire_field = "nat \<times> wire_value"

fun enc_field :: "wire_field \<Rightarrow> bytes" where
  "enc_field (k, Varint n) = enc_varint (8 * k) @ enc_varint n"
| "enc_field (k, Len bs) = enc_varint (8 * k + 2) @ enc_varint (length bs) @ bs"

definition enc_fields :: "wire_field list \<Rightarrow> bytes" where
  "enc_fields fs = concat (map enc_field fs)"

text \<open>One field at the start of the input; \<open>None\<close> where the parser stops.\<close>

definition dec_field :: "bytes \<Rightarrow> (wire_field \<times> bytes) option" where
  "dec_field bs =
     (case dec_varint bs of
        None \<Rightarrow> None
      | Some (tag, rest) \<Rightarrow>
          if tag div 8 = 0 then None
          else if tag mod 8 = 0 then
            (case dec_varint rest of None \<Rightarrow> None | Some (n, rest') \<Rightarrow> Some ((tag div 8, Varint n), rest'))
          else if tag mod 8 = 2 then
            (case dec_varint rest of
               None \<Rightarrow> None
             | Some (n, rest') \<Rightarrow>
                 if n \<le> length rest' then Some ((tag div 8, Len (take n rest')), drop n rest') else None)
          else None)"

lemma dec_field_shorter: "dec_field bs = Some (f, rest) \<Longrightarrow> length rest < length bs"
  by (auto simp: dec_field_def less_imp_diff_less dest!: dec_varint_shorter split: option.splits if_splits)

function dec_fields :: "bytes \<Rightarrow> wire_field list" where
  "dec_fields bs = (case dec_field bs of None \<Rightarrow> [] | Some (f, rest) \<Rightarrow> f # dec_fields rest)"
  by pat_completeness auto
termination
  by (relation "measure length") (auto dest: dec_field_shorter)

declare dec_fields.simps [simp del]

lemma dec_enc_field:
  assumes "0 < fst f"
  shows "dec_field (enc_field f @ rest) = Some (f, rest)"
proof (cases f)
  case (Pair k v)
  have "(8 * k + 2) div 8 = k" "(8 * k + 2) mod 8 = 2" by presburger+
  with assms Pair show ?thesis
    by (cases v) (simp_all add: dec_field_def)
qed

lemma dec_field_zero: "dec_field (replicate k 0) = None"
  by (cases k) (simp_all add: dec_field_def)

lemma dec_enc_fields:
  assumes "list_all (\<lambda>f. 0 < fst f) fs"
  shows "dec_fields (enc_fields fs @ replicate k 0) = fs"
  using assms
proof (induction fs)
  case Nil
  then show ?case by (simp add: enc_fields_def dec_fields.simps [of "replicate k 0"] dec_field_zero)
next
  case (Cons f fs)
  have "enc_fields (f # fs) @ replicate k 0 = enc_field f @ (enc_fields fs @ replicate k 0)"
    by (simp add: enc_fields_def)
  with Cons show ?case
    by (simp add: dec_fields.simps [of "enc_field f @ _"] dec_enc_field)
qed

lemma enc_fields_append [simp]: "enc_fields (fs @ gs) = enc_fields fs @ enc_fields gs"
  by (simp add: enc_fields_def)

lemma enc_fields_contains:
  assumes "(k, Len bs) \<in> set fs"
  shows "length bs \<le> length (enc_fields fs)"
proof -
  from assms obtain us vs where "fs = us @ (k, Len bs) # vs"
    by (auto simp: in_set_conv_decomp)
  then show ?thesis by (simp add: enc_fields_def)
qed

section \<open>Messages\<close>

text \<open>
  An optional field is written when it is set. Reading takes the last occurrence of
  a scalar field; the occurrences of a message field are merged, which is the same as
  parsing their contents one after the other; a repeated field collects them.
\<close>

definition put_u32 :: "nat \<Rightarrow> u32 option \<Rightarrow> wire_field list" where
  "put_u32 k x = (case x of None \<Rightarrow> [] | Some v \<Rightarrow> [(k, Varint (unat v))])"

definition put_string :: "nat \<Rightarrow> string option \<Rightarrow> wire_field list" where
  "put_string k x = (case x of None \<Rightarrow> [] | Some s \<Rightarrow> [(k, Len (bytes_of_string s))])"

definition put_msg :: "('a \<Rightarrow> wire_field list) \<Rightarrow> nat \<Rightarrow> 'a option \<Rightarrow> wire_field list" where
  "put_msg enc k x = (case x of None \<Rightarrow> [] | Some v \<Rightarrow> [(k, Len (enc_fields (enc v)))])"

definition put_rep :: "('a \<Rightarrow> wire_field list) \<Rightarrow> nat \<Rightarrow> 'a list \<Rightarrow> wire_field list" where
  "put_rep enc k xs = map (\<lambda>v. (k, Len (enc_fields (enc v)))) xs"

fun varints :: "nat \<Rightarrow> wire_field list \<Rightarrow> nat list" where
  "varints k [] = []"
| "varints k ((j, Varint n) # fs) = (if j = k then [n] else []) @ varints k fs"
| "varints k ((j, Len bs) # fs) = varints k fs"

fun lens :: "nat \<Rightarrow> wire_field list \<Rightarrow> bytes list" where
  "lens k [] = []"
| "lens k ((j, Varint n) # fs) = lens k fs"
| "lens k ((j, Len bs) # fs) = (if j = k then [bs] else []) @ lens k fs"

definition last_opt :: "'a list \<Rightarrow> 'a option" where
  "last_opt xs = (if xs = [] then None else Some (last xs))"

definition get_u32 :: "nat \<Rightarrow> wire_field list \<Rightarrow> u32 option" where
  "get_u32 k fs = map_option word_of_nat (last_opt (varints k fs))"

definition get_string :: "nat \<Rightarrow> wire_field list \<Rightarrow> string option" where
  "get_string k fs = map_option string_of_bytes (last_opt (lens k fs))"

definition get_msg :: "(wire_field list \<Rightarrow> 'a) \<Rightarrow> nat \<Rightarrow> wire_field list \<Rightarrow> 'a option" where
  "get_msg dec k fs =
     (if lens k fs = [] then None else Some (dec (concat (map dec_fields (lens k fs)))))"

definition get_rep :: "(wire_field list \<Rightarrow> 'a) \<Rightarrow> nat \<Rightarrow> wire_field list \<Rightarrow> 'a list" where
  "get_rep dec k fs = map (\<lambda>bs. dec (dec_fields bs)) (lens k fs)"

definition numbered :: "wire_field list \<Rightarrow> bool" where
  "numbered fs \<longleftrightarrow> list_all (\<lambda>f. 0 < fst f) fs"

lemma numbered_put [codec_simps]:
  "0 < k \<Longrightarrow> numbered (put_u32 k x)" "0 < k \<Longrightarrow> numbered (put_string k s)"
  "0 < k \<Longrightarrow> numbered (put_msg enc k y)" "0 < k \<Longrightarrow> numbered (put_rep enc k ys)"
  "numbered (fs @ gs) \<longleftrightarrow> numbered fs \<and> numbered gs"
  by (auto simp: numbered_def put_u32_def put_string_def put_msg_def put_rep_def list_all_iff
      split: option.splits)

lemma dec_fields_numbered [codec_simps]: "numbered fs \<Longrightarrow> dec_fields (enc_fields fs) = fs"
  using dec_enc_fields [of fs 0] by (simp add: numbered_def)

lemma varints_append [codec_simps]: "varints k (fs @ gs) = varints k fs @ varints k gs"
  by (induction k fs rule: varints.induct) auto

lemma lens_append [codec_simps]: "lens k (fs @ gs) = lens k fs @ lens k gs"
  by (induction k fs rule: lens.induct) auto

lemma lens_put_rep: "lens k (put_rep enc j ys) = (if j = k then map (\<lambda>v. enc_fields (enc v)) ys else [])"
  by (induction ys) (auto simp: put_rep_def)

lemma varints_put_rep: "varints k (put_rep enc j ys) = []"
  by (induction ys) (auto simp: put_rep_def)

lemma varints_put [codec_simps]:
  "varints k (put_u32 j x) = (if j = k then map unat (case x of None \<Rightarrow> [] | Some v \<Rightarrow> [v]) else [])"
  "varints k (put_string j s) = []" "varints k (put_msg enc j y) = []" "varints k (put_rep enc j ys) = []"
  by (auto simp: put_u32_def put_string_def put_msg_def varints_put_rep split: option.splits)

lemma lens_put [codec_simps]:
  "lens k (put_u32 j x) = []"
  "lens k (put_string j s) = (if j = k then map bytes_of_string (case s of None \<Rightarrow> [] | Some v \<Rightarrow> [v]) else [])"
  "lens k (put_msg enc j y)
     = (if j = k then map (\<lambda>v. enc_fields (enc v)) (case y of None \<Rightarrow> [] | Some v \<Rightarrow> [v]) else [])"
  "lens k (put_rep enc j ys) = (if j = k then map (\<lambda>v. enc_fields (enc v)) ys else [])"
  by (auto simp: put_u32_def put_string_def put_msg_def lens_put_rep split: option.splits)

text \<open>Reading a field back from a message whose other fields have other numbers.\<close>

lemma get_u32_back [codec_simps]:
  "varints k fs = map unat (case x of None \<Rightarrow> [] | Some v \<Rightarrow> [v]) \<Longrightarrow> get_u32 k fs = x"
  by (cases x) (simp_all add: get_u32_def last_opt_def)

lemma get_string_back [codec_simps]:
  "lens k fs = map bytes_of_string (case s of None \<Rightarrow> [] | Some v \<Rightarrow> [v]) \<Longrightarrow> get_string k fs = s"
  by (cases s) (simp_all add: get_string_def last_opt_def)

lemma get_msg_back [codec_simps]:
  assumes "lens k fs = map (\<lambda>v. enc_fields (enc v)) (case y of None \<Rightarrow> [] | Some v \<Rightarrow> [v])"
    and "\<And>v. dec (enc v) = v" "\<And>v. numbered (enc v)"
  shows "get_msg dec k fs = y"
  using assms by (cases y) (simp_all add: get_msg_def dec_fields_numbered)

lemma get_rep_back [codec_simps]:
  assumes "lens k fs = map (\<lambda>v. enc_fields (enc v)) ys"
    and "\<And>v. dec (enc v) = v" "\<And>v. numbered (enc v)"
  shows "get_rep dec k fs = ys"
  using assms by (simp add: get_rep_def comp_def dec_fields_numbered)

subsection \<open>The messages of the protocol\<close>

fun mcc_PacketType_number :: "mcc_PacketType \<Rightarrow> u32" where
  "mcc_PacketType_number PACKET_TYPE_REQUEST_REGISTER = 0"
| "mcc_PacketType_number PACKET_TYPE_REQUEST_USERS = 1"
| "mcc_PacketType_number PACKET_TYPE_REQUEST_SEND = 2"
| "mcc_PacketType_number PACKET_TYPE_REQUEST_RECV = 3"
| "mcc_PacketType_number PACKET_TYPE_RESP_REGISTER = 4"
| "mcc_PacketType_number PACKET_TYPE_RESP_USERS = 5"
| "mcc_PacketType_number PACKET_TYPE_RESP_SEND = 6"
| "mcc_PacketType_number PACKET_TYPE_RESP_RECV = 7"
| "mcc_PacketType_number (PACKET_TYPE_OTHER n) = n"

definition mcc_PacketType_of :: "u32 \<Rightarrow> mcc_PacketType" where
  "mcc_PacketType_of n =
     (if n = 0 then PACKET_TYPE_REQUEST_REGISTER else if n = 1 then PACKET_TYPE_REQUEST_USERS
      else if n = 2 then PACKET_TYPE_REQUEST_SEND else if n = 3 then PACKET_TYPE_REQUEST_RECV
      else if n = 4 then PACKET_TYPE_RESP_REGISTER else if n = 5 then PACKET_TYPE_RESP_USERS
      else if n = 6 then PACKET_TYPE_RESP_SEND else if n = 7 then PACKET_TYPE_RESP_RECV
      else PACKET_TYPE_OTHER n)"

text \<open>An unnamed enumeration value carries a number that has no name.\<close>

definition wf_PacketType :: "mcc_PacketType \<Rightarrow> bool" where
  "wf_PacketType t \<longleftrightarrow> mcc_PacketType_of (mcc_PacketType_number t) = t"

definition Header_fields :: "mcc_Header \<Rightarrow> wire_field list" where
  "Header_fields h = put_u32 1 (map_option mcc_PacketType_number (hdr_packet_type h))"

definition Header_of_fields :: "wire_field list \<Rightarrow> mcc_Header" where
  "Header_of_fields fs = \<lparr>hdr_packet_type = map_option mcc_PacketType_of (get_u32 1 fs)\<rparr>"

definition OnlineUser_fields :: "OnlineUser \<Rightarrow> wire_field list" where
  "OnlineUser_fields u = put_u32 1 (ou_user_id u) @ put_string 2 (ou_username u)"

definition OnlineUser_of_fields :: "wire_field list \<Rightarrow> OnlineUser" where
  "OnlineUser_of_fields fs = \<lparr>ou_user_id = get_u32 1 fs, ou_username = get_string 2 fs\<rparr>"

definition UserMessage_fields :: "UserMessage \<Rightarrow> wire_field list" where
  "UserMessage_fields u = put_u32 1 (um_user_id u) @ put_string 2 (um_message u)"

definition UserMessage_of_fields :: "wire_field list \<Rightarrow> UserMessage" where
  "UserMessage_of_fields fs = \<lparr>um_user_id = get_u32 1 fs, um_message = get_string 2 fs\<rparr>"

definition RequestRegister_fields :: "RequestRegister \<Rightarrow> wire_field list" where
  "RequestRegister_fields r = put_string 1 (reg_username r)"

definition RequestRegister_of_fields :: "wire_field list \<Rightarrow> RequestRegister" where
  "RequestRegister_of_fields fs = \<lparr>reg_username = get_string 1 fs\<rparr>"

definition RequestUsers_fields :: "RequestUsers \<Rightarrow> wire_field list" where
  "RequestUsers_fields r = put_u32 1 (users_requestor_id r)"

definition RequestUsers_of_fields :: "wire_field list \<Rightarrow> RequestUsers" where
  "RequestUsers_of_fields fs = \<lparr>users_requestor_id = get_u32 1 fs\<rparr>"

definition RequestSend_fields :: "RequestSend \<Rightarrow> wire_field list" where
  "RequestSend_fields r =
     put_u32 1 (send_source_id r) @ put_u32 2 (send_target_id r) @ put_string 3 (send_message r)"

definition RequestSend_of_fields :: "wire_field list \<Rightarrow> RequestSend" where
  "RequestSend_of_fields fs =
     \<lparr>send_source_id = get_u32 1 fs, send_target_id = get_u32 2 fs, send_message = get_string 3 fs\<rparr>"

definition RequestRecv_fields :: "RequestRecv \<Rightarrow> wire_field list" where
  "RequestRecv_fields r = put_u32 1 (recv_requestor_id r)"

definition RequestRecv_of_fields :: "wire_field list \<Rightarrow> RequestRecv" where
  "RequestRecv_of_fields fs = \<lparr>recv_requestor_id = get_u32 1 fs\<rparr>"

definition RespRegister_fields :: "RespRegister \<Rightarrow> wire_field list" where
  "RespRegister_fields r = put_u32 1 (reg_resp_value r) @ put_u32 2 (reg_assigned_id r)"

definition RespRegister_of_fields :: "wire_field list \<Rightarrow> RespRegister" where
  "RespRegister_of_fields fs = \<lparr>reg_resp_value = get_u32 1 fs, reg_assigned_id = get_u32 2 fs\<rparr>"

definition RespUsers_fields :: "RespUsers \<Rightarrow> wire_field list" where
  "RespUsers_fields r = put_u32 1 (users_resp_value r) @ put_rep OnlineUser_fields 2 (users_online_users r)"

definition RespUsers_of_fields :: "wire_field list \<Rightarrow> RespUsers" where
  "RespUsers_of_fields fs =
     \<lparr>users_resp_value = get_u32 1 fs, users_online_users = get_rep OnlineUser_of_fields 2 fs\<rparr>"

definition RespSend_fields :: "RespSend \<Rightarrow> wire_field list" where
  "RespSend_fields r = put_u32 1 (send_resp_value r)"

definition RespSend_of_fields :: "wire_field list \<Rightarrow> RespSend" where
  "RespSend_of_fields fs = \<lparr>send_resp_value = get_u32 1 fs\<rparr>"

definition RespRecv_fields :: "RespRecv \<Rightarrow> wire_field list" where
  "RespRecv_fields r = put_u32 1 (recv_resp_value r) @ put_rep UserMessage_fields 2 (recv_messages r)"

definition RespRecv_of_fields :: "wire_field list \<Rightarrow> RespRecv" where
  "RespRecv_of_fields fs =
     \<lparr>recv_resp_value = get_u32 1 fs, recv_messages = get_rep UserMessage_of_fields 2 fs\<rparr>"

definition Packet_fields :: "Packet \<Rightarrow> wire_field list" where
  "Packet_fields p =
     put_msg Header_fields 1 (hdr p) @ put_msg RequestRegister_fields 2 (req_reg p)
     @ put_msg RequestUsers_fields 3 (req_users p) @ put_msg RequestSend_fields 4 (req_send p)
     @ put_msg RequestRecv_fields 5 (req_recv p) @ put_msg RespRegister_fields 6 (resp_reg p)
     @ put_msg RespUsers_fields 7 (resp_users p) @ put_msg RespSend_fields 8 (resp_send p)
     @ put_msg RespRecv_fields 9 (resp_recv p)"

definition Packet_of_fields :: "wire_field list \<Rightarrow> Packet" where
  "Packet_of_fields fs =
     \<lparr>hdr = get_msg Header_of_fields 1 fs, req_reg = get_msg RequestRegister_of_fields 2 fs,
      req_users = get_msg RequestUsers_of_fields 3 fs, req_send = get_msg RequestSend_of_fields 4 fs,
      req_recv = get_msg RequestRecv_of_fields 5 fs, resp_reg = get_msg RespRegister_of_fields 6 fs,
      resp_users = get_msg RespUsers_of_fields 7 fs, resp_send = get_msg RespSend_of_fields 8 fs,
      resp_recv = get_msg RespRecv_of_fields 9 fs\<rparr>"

definition wire_ser :: "Packet \<Rightarrow> bytes" where
  "wire_ser p = enc_fields (Packet_fields p)"

definition wire_parse :: "bytes \<Rightarrow> Packet" where
  "wire_parse bs = Packet_of_fields (dec_fields bs)"

section \<open>Round trip\<close>

lemma OnlineUser_numbered [codec_simps]: "numbered (OnlineUser_fields r)"
  by (simp add: OnlineUser_fields_def codec_simps)

lemma OnlineUser_back [codec_simps]: "OnlineUser_of_fields (OnlineUser_fields r) = r"
  by (simp add: OnlineUser_of_fields_def OnlineUser_fields_def codec_simps)

lemma UserMessage_numbered [codec_simps]: "numbered (UserMessage_fields r)"
  by (simp add: UserMessage_fields_def codec_simps)

lemma UserMessage_back [codec_simps]: "UserMessage_of_fields (UserMessage_fields r) = r"
  by (simp add: UserMessage_of_fields_def UserMessage_fields_def codec_simps)

lemma RequestRegister_numbered [codec_simps]: "numbered (RequestRegister_fields r)"
  by (simp add: RequestRegister_fields_def codec_simps)

lemma RequestRegister_back [codec_simps]: "RequestRegister_of_fields (RequestRegister_fields r) = r"
  by (simp add: RequestRegister_of_fields_def RequestRegister_fields_def codec_simps)

lemma RequestUsers_numbered [codec_simps]: "numbered (RequestUsers_fields r)"
  by (simp add: RequestUsers_fields_def codec_simps)

lemma RequestUsers_back [codec_simps]: "RequestUsers_of_fields (RequestUsers_fields r) = r"
  by (simp add: RequestUsers_of_fields_def RequestUsers_fields_def codec_simps)

lemma RequestSend_numbered [codec_simps]: "numbered (RequestSend_fields r)"
  by (simp add: RequestSend_fields_def codec_simps)

lemma RequestSend_back [codec_simps]: "RequestSend_of_fields (RequestSend_fields r) = r"
  by (simp add: RequestSend_of_fields_def RequestSend_fields_def codec_simps)

lemma RequestRecv_numbered [codec_simps]: "numbered (RequestRecv_fields r)"
  by (simp add: RequestRecv_fields_def codec_simps)

lemma RequestRecv_back [codec_simps]: "RequestRecv_of_fields (RequestRecv_fields r) = r"
  by (simp add: RequestRecv_of_fields_def RequestRecv_fields_def codec_simps)

lemma RespRegister_numbered [codec_simps]: "numbered (RespRegister_fields r)"
  by (simp add: RespRegister_fields_def codec_simps)

lemma RespRegister_back [codec_simps]: "RespRegister_of_fields (RespRegister_fields r) = r"
  by (simp add: RespRegister_of_fields_def RespRegister_fields_def codec_simps)

lemma RespSend_numbered [codec_simps]: "numbered (RespSend_fields r)"
  by (simp add: RespSend_fields_def codec_simps)

lemma RespSend_back [codec_simps]: "RespSend_of_fields (RespSend_fields r) = r"
  by (simp add: RespSend_of_fields_def RespSend_fields_def codec_simps)

lemma RespUsers_numbered [codec_simps]: "numbered (RespUsers_fields r)"
  by (simp add: RespUsers_fields_def codec_simps)

lemma RespUsers_back [codec_simps]: "RespUsers_of_fields (RespUsers_fields r) = r"
  by (simp add: RespUsers_of_fields_def RespUsers_fields_def codec_simps)

lemma RespRecv_numbered [codec_simps]: "numbered (RespRecv_fields r)"
  by (simp add: RespRecv_fields_def codec_simps)

lemma RespRecv_back [codec_simps]: "RespRecv_of_fields (RespRecv_fields r) = r"
  by (simp add: RespRecv_of_fields_def RespRecv_fields_def codec_simps)

lemma Header_numbered [codec_simps]: "numbered (Header_fields r)"
  by (simp add: Header_fields_def codec_simps)

lemma Header_back:
  "pred_option wf_PacketType (hdr_packet_type h) \<Longrightarrow> Header_of_fields (Header_fields h) = h"
  by (cases h, cases "hdr_packet_type h")
    (auto simp: Header_of_fields_def Header_fields_def wf_PacketType_def get_u32_def last_opt_def codec_simps)

lemma Header_msg_back:
  assumes "lens k fs = map (\<lambda>v. enc_fields (Header_fields v)) (case y of None \<Rightarrow> [] | Some v \<Rightarrow> [v])"
    and "pred_option (\<lambda>h. pred_option wf_PacketType (hdr_packet_type h)) y"
  shows "get_msg Header_of_fields k fs = y"
  using assms by (cases y) (simp_all add: get_msg_def dec_fields_numbered Header_numbered Header_back)

text \<open>
  The packets the round trip covers: the type of the header is a value of the
  enumeration, the strings are ASCII and the packet is below the size limit of
  the format (2 GiB).
\<close>

definition ascii :: "string \<Rightarrow> bool" where
  "ascii s \<longleftrightarrow> list_all (\<lambda>c. (of_char c :: nat) < 128) s"

definition packet_strings :: "Packet \<Rightarrow> string list" where
  "packet_strings p = map (get_or [])
     ([reg_username (get_req_reg p)] @ (case req_send p of None \<Rightarrow> [] | Some r \<Rightarrow> [send_message r])
      @ map ou_username (users_online_users (get_resp_users p))
      @ map um_message (recv_messages (get_resp_recv p)))"

definition wf_wire :: "Packet \<Rightarrow> bool" where
  "wf_wire p \<longleftrightarrow> wf_PacketType (packet_type p) \<and> list_all ascii (packet_strings p)
     \<and> length (wire_ser p) < 2 ^ 31"

lemma Packet_numbered: "numbered (Packet_fields p)"
  by (simp add: Packet_fields_def codec_simps)

lemma Packet_back:
  assumes "wf_PacketType (packet_type p)"
  shows "Packet_of_fields (Packet_fields p) = p"
proof -
  have "pred_option (\<lambda>h. pred_option wf_PacketType (hdr_packet_type h)) (hdr p)"
    using assms by (auto simp: packet_accessors get_or_def pred_option_def split: option.splits)
  then have "get_msg Header_of_fields 1 (Packet_fields p) = hdr p"
    by (intro Header_msg_back) (simp_all add: Packet_fields_def codec_simps)
  moreover have "Packet_of_fields (Packet_fields p) = p\<lparr>hdr := get_msg Header_of_fields 1 (Packet_fields p)\<rparr>"
    by (simp add: Packet_of_fields_def Packet_fields_def codec_simps)
  ultimately show ?thesis by simp
qed

interpretation wire: packet_codec wire_ser wire_parse wf_wire
proof unfold_locales
  fix p k
  assume "wf_wire p"
  then show "wire_parse (wire_ser p @ replicate k 0) = p"
    using Packet_numbered [of p]
    by (simp add: wire_parse_def wire_ser_def wf_wire_def numbered_def dec_enc_fields Packet_back)
next
  fix p :: Packet
  assume "hdr p \<noteq> None"
  then show "wire_ser p \<noteq> []"
    by (auto simp: wire_ser_def Packet_fields_def put_msg_def enc_fields_def)
qed

end
