(* ===== verification/Server_App.thy ===== *)
theory Server_App
  imports Database Wire Tcp_Socket
begin

text \<open>
  \<^verbatim>\<open>server/server_app.cpp\<close>: the server program. It accepts connections and handles each
  request, one packet in and one packet out, in a thread of its own. The
  protocol-buffer library's serialiser \<open>ser\<close> and parser \<open>parse\<close> are arguments, as is
  the iteration order \<open>iter\<close> of the user map, and \<open>debug\<close>, the text of
  \<^verbatim>\<open>packet.DebugString()\<close>. \<open>tx\<close> is the transmit buffer of a request, \<open>lines\<close> what it
  writes to \<^verbatim>\<open>cerr\<close> and \<^verbatim>\<open>cout\<close>.
\<close>

section \<open>Request handlers\<close>

record Worker =
  shared_db :: Database
  tx :: bytes
  lines :: "string list"

definition report :: "string \<Rightarrow> Worker \<Rightarrow> Worker" where
  "report l w = w\<lparr>lines := lines w @ [l]\<rparr>"

text \<open>
  The end of every handler: serialise into the buffer, whose size is the capacity
  passed along, ignore the outcome, and return the size of the packet.
\<close>

definition reply :: "(Packet \<Rightarrow> bytes) \<Rightarrow> Packet \<Rightarrow> Worker \<Rightarrow> Worker \<times> nat" where
  "reply ser resp_packet w =
     (w\<lparr>tx := fst (SerializeToArray ser resp_packet (tx w))\<rparr>, ByteSizeLong ser resp_packet)"

definition handleRequestRegister :: "(Packet \<Rightarrow> bytes) \<Rightarrow> Packet \<Rightarrow> Worker \<Rightarrow> Worker \<times> nat" where
  "handleRequestRegister ser packet w =
     (if req_reg packet = None \<or> reg_username (get_req_reg packet) = None
      then (report ''Invalid request register from client'' w, 0)
      else
        let (db', i) = registerUser (shared_db w) (get_or [] (reg_username (get_req_reg packet)));
            resp_packet = Packet_of_type PACKET_TYPE_RESP_REGISTER;
            resp_packet = resp_packet\<lparr>resp_reg :=
              Some ((get_resp_reg resp_packet)\<lparr>reg_resp_value := Some 0\<rparr>)\<rparr>;
            resp_packet = resp_packet\<lparr>resp_reg :=
              Some ((get_resp_reg resp_packet)\<lparr>reg_assigned_id := Some i\<rparr>)\<rparr>
        in reply ser resp_packet (w\<lparr>shared_db := db'\<rparr>))"

text \<open>The loop over the database: every user but the requestor is added.\<close>

fun add_online_users ::
    "user_id_t \<Rightarrow> (user_id_t \<times> UserMetadata) list \<Rightarrow> RespUsers \<Rightarrow> RespUsers" where
  "add_online_users i [] r = r"
| "add_online_users i (it # es) r =
     (if fst it = i then add_online_users i es r
      else add_online_users i es
        (r\<lparr>users_online_users := users_online_users r @
             [\<lparr>ou_user_id = Some (fst it), ou_username = Some (username (snd it))\<rparr>]\<rparr>))"

definition handleRequestUsers ::
    "(Packet \<Rightarrow> bytes) \<Rightarrow> ((user_id_t \<times> UserMetadata) list \<Rightarrow> (user_id_t \<times> UserMetadata) list) \<Rightarrow>
     Packet \<Rightarrow> Worker \<Rightarrow> Worker \<times> nat" where
  "handleRequestUsers ser iter packet w =
     (if req_users packet = None \<or> users_requestor_id (get_req_users packet) = None
      then (report ''Invalid request users from client'' w, 0)
      else
        let i = get_or 0 (users_requestor_id (get_req_users packet));
            resp_packet = Packet_of_type PACKET_TYPE_RESP_USERS;
            r = get_resp_users resp_packet
        in if \<not> userExists (shared_db w) i
           then reply ser (resp_packet\<lparr>resp_users := Some (r\<lparr>users_resp_value := Some 1\<rparr>)\<rparr>) w
           else reply ser (resp_packet\<lparr>resp_users := Some
                  (add_online_users i (iter (user_map (shared_db w))) (r\<lparr>users_resp_value := Some 0\<rparr>))\<rparr>) w)"

fun add_messages :: "Msg list \<Rightarrow> RespRecv \<Rightarrow> RespRecv" where
  "add_messages [] r = r"
| "add_messages (m # ms) r = add_messages ms
     (r\<lparr>recv_messages := recv_messages r @
          [\<lparr>um_user_id = Some (sender_id m), um_message = Some (msg m)\<rparr>]\<rparr>)"

definition handleRequestRecv :: "(Packet \<Rightarrow> bytes) \<Rightarrow> Packet \<Rightarrow> Worker \<Rightarrow> Worker \<times> nat" where
  "handleRequestRecv ser packet w =
     (if req_recv packet = None \<or> recv_requestor_id (get_req_recv packet) = None
      then (report ''Invalid request to receive messages from client'' w, 0)
      else
        let i = get_or 0 (recv_requestor_id (get_req_recv packet));
            resp_packet = Packet_of_type PACKET_TYPE_RESP_RECV;
            r = get_resp_recv resp_packet
        in if \<not> userExists (shared_db w) i
           then reply ser (resp_packet\<lparr>resp_recv := Some (r\<lparr>recv_resp_value := Some 1\<rparr>)\<rparr>) w
           else reply ser (resp_packet\<lparr>resp_recv := Some
                  (add_messages (msg_q (Database_at (shared_db w) i)) (r\<lparr>recv_resp_value := Some 0\<rparr>))\<rparr>)
                  (w\<lparr>shared_db := Database_ref (shared_db w) i\<rparr>))"

section \<open>One request\<close>

text \<open>The header check, which only reports, and the switch over the packet type.\<close>

definition check_header :: "Packet \<Rightarrow> Worker \<Rightarrow> Worker" where
  "check_header packet w =
     (if hdr packet = None \<or> hdr_packet_type (get_or \<lparr>hdr_packet_type = None\<rparr> (hdr packet)) = None
      then report ''Received a request with an invalid header'' w else w)"

definition dispatch ::
    "(Packet \<Rightarrow> bytes) \<Rightarrow> ((user_id_t \<times> UserMetadata) list \<Rightarrow> (user_id_t \<times> UserMetadata) list) \<Rightarrow>
     Packet \<Rightarrow> Worker \<Rightarrow> Worker \<times> nat" where
  "dispatch ser iter packet w =
     (case packet_type packet of
        PACKET_TYPE_REQUEST_RECV \<Rightarrow> (w, 0)
      | PACKET_TYPE_REQUEST_REGISTER \<Rightarrow> handleRequestRegister ser packet w
      | PACKET_TYPE_REQUEST_SEND \<Rightarrow> (w, 0)
      | PACKET_TYPE_REQUEST_USERS \<Rightarrow> handleRequestUsers ser iter packet w
      | _ \<Rightarrow> (report ''Received an invalid packet type'' w, 0))"

definition kBufferSize :: nat where
  "kBufferSize = 1024"

text \<open>
  The second half of \<^verbatim>\<open>handleRequest\<close>, from the parsed packet on: the worker at the end
  and the bytes put on the wire. \<open>tx_evs\<close> are the results of the socket's \<^verbatim>\<open>send\<close>
  calls; \<open>None\<close> when \<^verbatim>\<open>sendB\<close> has not returned on these.
\<close>

definition send_reply :: "send_ev list \<Rightarrow> Socket \<Rightarrow> Worker \<Rightarrow> nat \<Rightarrow> (Worker \<times> bytes) result option" where
  "send_reply tx_evs my_socket w num_bytes_tx =
     (case sendB tx_evs my_socket (tx w) num_bytes_tx of
        None \<Rightarrow> None
      | Some (Inl e) \<Rightarrow> Some (Inl e)
      | Some (Inr (s, ok, wire, rest)) \<Rightarrow> Some (Inr (w\<lparr>lines := lines w @ sock_log s\<rparr>, wire)))"

definition handlePacket ::
    "(Packet \<Rightarrow> bytes) \<Rightarrow> (Packet \<Rightarrow> string) \<Rightarrow>
     ((user_id_t \<times> UserMetadata) list \<Rightarrow> (user_id_t \<times> UserMetadata) list) \<Rightarrow>
     Socket \<Rightarrow> Packet \<Rightarrow> send_ev list \<Rightarrow> Worker \<Rightarrow> (Worker \<times> bytes) result option" where
  "handlePacket ser debug iter my_socket packet tx_evs w =
     (let (w, num_bytes_tx) = dispatch ser iter packet (check_header packet w)
      in send_reply tx_evs my_socket (report (debug packet) w) num_bytes_tx)"

text \<open>\<open>rx_evs\<close> are the results of the socket's \<^verbatim>\<open>recv\<close> calls.\<close>

definition handleRequest ::
    "(Packet \<Rightarrow> bytes) \<Rightarrow> (bytes \<Rightarrow> Packet) \<Rightarrow> (Packet \<Rightarrow> string) \<Rightarrow>
     ((user_id_t \<times> UserMetadata) list \<Rightarrow> (user_id_t \<times> UserMetadata) list) \<Rightarrow>
     int \<Rightarrow> recv_ev list \<Rightarrow> send_ev list \<Rightarrow> Database \<Rightarrow> (Worker \<times> bytes) result option" where
  "handleRequest ser parse debug iter socket_descriptor rx_evs tx_evs db =
     (let my_socket = Socket_new socket_descriptor True 0 0 0;
          tx_buffer = replicate kBufferSize 0;
          rx_buffer = replicate kBufferSize 0
      in case recv_poll rx_evs my_socket rx_buffer of
           None \<Rightarrow> None
         | Some (Inl e) \<Rightarrow> Some (Inl e)
         | Some (Inr (my_socket, num_bytes_rx, rx_buffer, rest)) \<Rightarrow>
             handlePacket ser debug iter my_socket (parse rx_buffer) tx_evs
               \<lparr>shared_db = db, tx = tx_buffer, lines = []\<rparr>)"

section \<open>The accept loop\<close>

text \<open>
  \<^verbatim>\<open>run\<close> never returns: this is its state after the given results of \<^verbatim>\<open>accept\<close>, the
  server socket and the descriptors handed to request threads, in order.
\<close>

fun run_loop :: "accept_ev list \<Rightarrow> ServerSocket \<times> int list \<Rightarrow> ServerSocket \<times> int list" where
  "run_loop [] st = st"
| "run_loop (ev # evs) (my_server_socket, threads) =
     (let (my_server_socket, ok, socket_descriptor) = getConnection my_server_socket ev
      in if \<not> ok then run_loop evs (my_server_socket, threads)
         else run_loop evs (my_server_socket, threads @ [socket_descriptor]))"

definition ServerApp_run :: "setup_results \<Rightarrow> accept_ev list \<Rightarrow> (ServerSocket \<times> int list) option" where
  "ServerApp_run r evs = map_option (\<lambda>s. run_loop evs (s, [])) (ServerSocket_new r)"

section \<open>Closed forms\<close>

lemma report_sel [simp]:
  "shared_db (report l w) = shared_db w" "tx (report l w) = tx w" "lines (report l w) = lines w @ [l]"
  by (simp_all add: report_def)

lemma check_header_sel [simp]:
  "shared_db (check_header p w) = shared_db w" "tx (check_header p w) = tx w"
  by (simp_all add: check_header_def)

lemma reply_sel [simp]:
  "shared_db (fst (reply ser p w)) = shared_db w" "length (tx (fst (reply ser p w))) = length (tx w)"
  "snd (reply ser p w) = length (ser p)"
  by (simp_all add: reply_def ByteSizeLong_def)

text \<open>The packets the server answers with.\<close>

definition register_packet :: "user_id_t \<Rightarrow> Packet" where
  "register_packet i = (Packet_of_type PACKET_TYPE_RESP_REGISTER)\<lparr>resp_reg :=
     Some \<lparr>reg_resp_value = Some 0, reg_assigned_id = Some i\<rparr>\<rparr>"

definition online_user :: "user_id_t \<times> UserMetadata \<Rightarrow> OnlineUser" where
  "online_user e = \<lparr>ou_user_id = Some (fst e), ou_username = Some (username (snd e))\<rparr>"

definition users_packet :: "user_id_t \<Rightarrow> (user_id_t \<times> UserMetadata) list \<Rightarrow> Packet" where
  "users_packet i es = (Packet_of_type PACKET_TYPE_RESP_USERS)\<lparr>resp_users :=
     Some \<lparr>users_resp_value = Some 0,
           users_online_users = map online_user (filter (\<lambda>e. fst e \<noteq> i) es)\<rparr>\<rparr>"

definition no_users_packet :: Packet where
  "no_users_packet = (Packet_of_type PACKET_TYPE_RESP_USERS)\<lparr>resp_users :=
     Some \<lparr>users_resp_value = Some 1, users_online_users = []\<rparr>\<rparr>"

lemma add_online_users_eq:
  "add_online_users i es r = r\<lparr>users_online_users :=
     users_online_users r @ map online_user (filter (\<lambda>e. fst e \<noteq> i) es)\<rparr>"
  by (induction i es r rule: add_online_users.induct) (simp_all add: online_user_def)

lemma handleRequestRegister_eq [handler_simps]:
  assumes "req_reg packet = Some \<lparr>reg_username = Some name\<rparr>"
  shows "handleRequestRegister ser packet w =
    reply ser (register_packet (next_id (shared_db w)))
      (w\<lparr>shared_db := fst (registerUser (shared_db w) name)\<rparr>)"
  using assms
  by (simp add: handleRequestRegister_def register_packet_def packet_accessors registerUser_def Let_def)

lemma handleRequestUsers_eq [handler_simps]:
  assumes "req_users packet = Some \<lparr>users_requestor_id = Some i\<rparr>"
  shows "handleRequestUsers ser iter packet w =
    reply ser (if userExists (shared_db w) i then users_packet i (iter (user_map (shared_db w)))
               else no_users_packet) w"
  using assms
  by (simp add: handleRequestUsers_def users_packet_def no_users_packet_def packet_accessors
      add_online_users_eq Let_def)

text \<open>A handled request changes the database by at most one registration.\<close>

lemma dispatch_db:
  "shared_db (fst (dispatch ser iter packet w)) = shared_db w
   \<or> (\<exists>name. req_reg packet = Some \<lparr>reg_username = Some name\<rparr>
        \<and> packet_type packet = PACKET_TYPE_REQUEST_REGISTER
        \<and> shared_db (fst (dispatch ser iter packet w)) = fst (registerUser (shared_db w) name))"
proof (cases "packet_type packet = PACKET_TYPE_REQUEST_REGISTER")
  case True
  show ?thesis
  proof (cases "req_reg packet")
    case (Some r)
    show ?thesis
    proof (cases "reg_username r")
      case None
      with True Some show ?thesis
        by (simp add: dispatch_def handleRequestRegister_def get_req_reg_def)
    next
      case (Some name)
      with \<open>req_reg packet = Some r\<close> have "req_reg packet = Some \<lparr>reg_username = Some name\<rparr>"
        by simp
      with True show ?thesis
        by (simp add: dispatch_def handler_simps)
    qed
  qed (simp add: True dispatch_def handleRequestRegister_def)
next
  case False
  then show ?thesis
    by (cases "packet_type packet") (simp_all add: dispatch_def handleRequestUsers_def Let_def)
qed

lemma dispatch_tx [simp]: "length (tx (fst (dispatch ser iter packet w))) = length (tx w)"
  by (simp add: dispatch_def handleRequestRegister_def handleRequestUsers_def Let_def case_prod_beta
      split: mcc_PacketType.splits)

section \<open>A request that arrives in one piece\<close>

text \<open>The worker when the packet has been parsed and its header checked.\<close>

definition start_worker :: "Packet \<Rightarrow> Database \<Rightarrow> Worker" where
  "start_worker packet db =
     check_header packet \<lparr>shared_db = db, tx = replicate kBufferSize 0, lines = []\<rparr>"

lemma start_worker_sel [simp]:
  "shared_db (start_worker p db) = db" "tx (start_worker p db) = replicate kBufferSize 0"
  by (simp_all add: start_worker_def)

definition arrives_whole :: "bytes \<Rightarrow> recv_ev list \<Rightarrow> bool" where
  "arrives_whole bs evs \<longleftrightarrow> (\<exists>idle more. evs = idle @ Data bs # more \<and> list_all recv_retry idle \<and> arrives idle = [])"

text \<open>The system takes at least \<open>n\<close> bytes, in any pieces, and reports no fatal error.\<close>

definition accepts_all :: "nat \<Rightarrow> send_ev list \<Rightarrow> bool" where
  "accepts_all n evs \<longleftrightarrow> list_all send_retry evs \<and> n \<le> accepts evs"

lemma arrives_wholeI: "arrives_whole bs [Data bs]"
  by (auto simp: arrives_whole_def intro: exI [of _ "[]"])

lemma sendB_accepted:
  assumes "n \<le> length buf" "accepts_all n evs"
  shows "\<exists>evs'. sendB evs s buf n = Some (Inr (s, True, take n buf, evs'))"
  using sendB_loop_complete [of n buf evs 0 s] assms by (simp add: sendB_def accepts_all_def)

lemma handleRequest_received:
  assumes "arrives_whole bs rx_evs" "bs \<noteq> []" "length bs \<le> kBufferSize"
    and "parse (bs @ replicate (kBufferSize - length bs) 0) = p"
    and "dispatch ser iter p (start_worker p db) = (w, n)"
  shows "handleRequest ser parse debug iter d rx_evs tx_evs db =
    send_reply tx_evs (Socket_new d True 0 0 0) (report (debug p) w) n"
proof -
  from assms(1) obtain idle more
    where evs: "rx_evs = idle @ Data bs # more" "list_all recv_retry idle" "arrives idle = []"
    by (auto simp: arrives_whole_def)
  have "recv_poll rx_evs (Socket_new d True 0 0 0) (replicate kBufferSize 0) =
    Some (Inr (Socket_new d True 0 0 0, int (length bs), bs @ replicate (kBufferSize - length bs) 0, more))"
    using recv_poll_first_data [OF evs(2,3) assms(2), of "replicate kBufferSize 0"] assms(3)
    by (simp add: evs(1))
  then show ?thesis
    using assms(4,5) by (simp add: handleRequest_def handlePacket_def start_worker_def)
qed

context packet_codec
begin

lemma handleRequest_parsed:
  assumes "arrives_whole (ser p) rx_evs" "wf_packet p" "hdr p \<noteq> None" "length (ser p) \<le> kBufferSize"
    and "dispatch ser iter p (start_worker p db) = (w, n)"
  shows "handleRequest ser parse debug iter d rx_evs tx_evs db =
    send_reply tx_evs (Socket_new d True 0 0 0) (report (debug p) w) n"
proof (rule handleRequest_received [OF assms(1) ser_nonempty [OF assms(2,3)] assms(4) _ assms(5)])
  show "parse (ser p @ replicate (kBufferSize - length (ser p)) 0) = p"
    by (rule parse_padded [OF assms(2)])
qed

lemma handleRequest_silent:
  assumes "arrives_whole (ser p) rx_evs" "wf_packet p" "hdr p \<noteq> None" "length (ser p) \<le> kBufferSize"
    and "dispatch ser iter p (start_worker p db) = (w, 0)"
  shows "\<exists>w'. handleRequest ser parse debug iter d rx_evs tx_evs db = Some (Inr (w', []))
    \<and> shared_db w' = shared_db w"
  by (simp add: handleRequest_parsed [OF assms] send_reply_def sendB_def sendB_loop.simps)

lemma handleRequest_replies:
  assumes "arrives_whole (ser p) rx_evs" "wf_packet p" "hdr p \<noteq> None" "length (ser p) \<le> kBufferSize"
    and "dispatch ser iter p (start_worker p db) = reply ser r w" "length (tx w) = kBufferSize"
    and "length (ser r) \<le> kBufferSize" "accepts_all (length (ser r)) tx_evs"
  shows "\<exists>w'. handleRequest ser parse debug iter d rx_evs tx_evs db = Some (Inr (w', ser r))
    \<and> shared_db w' = shared_db w"
proof -
  let ?tx = "ser r @ drop (length (ser r)) (tx w)"
  have reply: "dispatch ser iter p (start_worker p db) = (w\<lparr>tx := ?tx\<rparr>, length (ser r))"
    using assms(6,7) by (simp add: assms(5) reply_def SerializeToArray_def ByteSizeLong_def)
  obtain evs' where "sendB tx_evs (Socket_new d True 0 0 0) ?tx (length (ser r))
      = Some (Inr (Socket_new d True 0 0 0, True, ser r, evs'))"
    using sendB_accepted [of "length (ser r)" ?tx tx_evs "Socket_new d True 0 0 0"] assms(8) by auto
  then show ?thesis
    by (simp add: handleRequest_parsed [OF assms(1-4) reply] send_reply_def)
qed

lemma handleRequest_overruns:
  assumes "arrives_whole (ser p) rx_evs" "wf_packet p" "hdr p \<noteq> None" "length (ser p) \<le> kBufferSize"
    and "dispatch ser iter p (start_worker p db) = reply ser r w" "length (tx w) = kBufferSize"
    and "kBufferSize < length (ser r)" "tx_evs \<noteq> []"
  shows "handleRequest ser parse debug iter d rx_evs tx_evs db = Some (Inl OutOfBounds)"
proof -
  have reply: "dispatch ser iter p (start_worker p db) = (w, length (ser r))"
    using assms(6,7) by (simp add: assms(5) reply_def SerializeToArray_def ByteSizeLong_def)
  have "sendB tx_evs (Socket_new d True 0 0 0) (tx w) (length (ser r)) = Some (Inl OutOfBounds)"
    using assms(6-8) by (cases tx_evs) (auto simp: sendB_def sendB_loop.simps load_at_def)
  then show ?thesis
    by (simp add: handleRequest_parsed [OF assms(1-4) reply] send_reply_def)
qed

lemma register_handled:
  assumes "wf_packet p" "length (ser p) \<le> kBufferSize"
    and "hdr p = Some \<lparr>hdr_packet_type = Some PACKET_TYPE_REQUEST_REGISTER\<rparr>"
    and "req_reg p = Some \<lparr>reg_username = Some name\<rparr>"
    and "arrives_whole (ser p) rx_evs"
    and "length (ser (register_packet (next_id db))) \<le> kBufferSize"
    and "accepts_all (length (ser (register_packet (next_id db)))) tx_evs"
  shows "\<exists>w. handleRequest ser parse debug iter d rx_evs tx_evs db
      = Some (Inr (w, ser (register_packet (next_id db))))
    \<and> shared_db w = fst (registerUser db name)"
proof -
  have hdr: "hdr p \<noteq> None" "packet_type p = PACKET_TYPE_REQUEST_REGISTER"
    using assms(3) by (simp_all add: packet_accessors)
  then have reply: "dispatch ser iter p (start_worker p db) =
      reply ser (register_packet (next_id db))
        ((start_worker p db)\<lparr>shared_db := fst (registerUser db name)\<rparr>)"
    using assms(4) by (simp add: dispatch_def handler_simps)
  show ?thesis
    using handleRequest_replies [OF assms(5,1) hdr(1) assms(2) reply _ assms(6,7)] by simp
qed

lemma users_handled:
  assumes "wf_packet p" "length (ser p) \<le> kBufferSize"
    and "hdr p = Some \<lparr>hdr_packet_type = Some PACKET_TYPE_REQUEST_USERS\<rparr>"
    and "req_users p = Some \<lparr>users_requestor_id = Some i\<rparr>"
    and "arrives_whole (ser p) rx_evs"
    and "r = (if userExists db i then users_packet i (iter (user_map db)) else no_users_packet)"
    and "length (ser r) \<le> kBufferSize" "accepts_all (length (ser r)) tx_evs"
  shows "\<exists>w. handleRequest ser parse debug iter d rx_evs tx_evs db = Some (Inr (w, ser r)) \<and> shared_db w = db"
proof -
  have hdr: "hdr p \<noteq> None" "packet_type p = PACKET_TYPE_REQUEST_USERS"
    using assms(3) by (simp_all add: packet_accessors)
  then have reply: "dispatch ser iter p (start_worker p db) = reply ser r (start_worker p db)"
    using assms(4) by (simp add: dispatch_def handler_simps assms(6))
  show ?thesis
    using handleRequest_replies [OF assms(5,1) hdr(1) assms(2) reply _ assms(7,8)] by simp
qed

end

text \<open>On the wire a list of users is at least as long as each name in it.\<close>

lemma users_packet_length:
  assumes "e \<in> set es" "fst e \<noteq> i"
  shows "length (username (snd e)) \<le> length (wire_ser (users_packet i es))"
proof -
  let ?us = "map online_user (filter (\<lambda>e. fst e \<noteq> i) es)"
  have "length (username (snd e)) \<le> length (enc_fields (OnlineUser_fields (online_user e)))"
    using enc_fields_contains [of 2 "bytes_of_string (username (snd e))" "OnlineUser_fields (online_user e)"]
    by (simp add: OnlineUser_fields_def online_user_def put_string_def)
  also have "\<dots> \<le> length (enc_fields (RespUsers_fields \<lparr>users_resp_value = Some 0, users_online_users = ?us\<rparr>))"
    by (rule enc_fields_contains [of 2]) (use assms in \<open>auto simp: RespUsers_fields_def put_rep_def\<close>)
  also have "\<dots> \<le> length (wire_ser (users_packet i es))"
    unfolding wire_ser_def
    by (rule enc_fields_contains [of 7]) (simp add: Packet_fields_def users_packet_def put_msg_def)
  finally show ?thesis .
qed

section \<open>A small server\<close>

text \<open>Requests and a database on which the properties are evaluated, on the wire format.\<close>

definition hello_packet :: Packet where
  "hello_packet = (Packet_of_type PACKET_TYPE_REQUEST_REGISTER)\<lparr>req_reg := Some \<lparr>reg_username = Some ''al''\<rparr>\<rparr>"

definition who_packet :: Packet where
  "who_packet = (Packet_of_type PACKET_TYPE_REQUEST_USERS)\<lparr>req_users := Some \<lparr>users_requestor_id = Some 0\<rparr>\<rparr>"

definition inbox_packet :: Packet where
  "inbox_packet = (Packet_of_type PACKET_TYPE_REQUEST_RECV)\<lparr>req_recv := Some \<lparr>recv_requestor_id = Some 0\<rparr>\<rparr>"

definition pair_db :: "string \<Rightarrow> Database" where
  "pair_db name = fst (registerUser (fst (registerUser Database_init ''al'')) name)"

lemma example_packets_ser:
  "wire_ser hello_packet = [10, 2, 8, 0, 18, 4, 10, 2, 97, 108]"
  "wire_ser who_packet = [10, 2, 8, 1, 26, 2, 8, 0]"
  "wire_ser inbox_packet = [10, 2, 8, 3, 42, 2, 8, 0]"
  by code_simp+

lemma example_packets_wf: "wf_wire hello_packet" "wf_wire who_packet" "wf_wire inbox_packet"
proof -
  have "wf_PacketType (packet_type hello_packet) \<and> list_all ascii (packet_strings hello_packet)"
    "wf_PacketType (packet_type who_packet) \<and> list_all ascii (packet_strings who_packet)"
    "wf_PacketType (packet_type inbox_packet) \<and> list_all ascii (packet_strings inbox_packet)"
    by code_simp+
  then show "wf_wire hello_packet" "wf_wire who_packet" "wf_wire inbox_packet"
    by (simp_all add: wf_wire_def example_packets_ser)
qed

lemma example_replies:
  "wire_ser (register_packet 0) = [10, 2, 8, 4, 50, 4, 8, 0, 16, 0]"
  "wire_ser (users_packet 0 [(0, \<lparr>username = ''al'', msg_q = []\<rparr>), (1, \<lparr>username = ''bo'', msg_q = []\<rparr>)])
     = [10, 2, 8, 5, 58, 10, 8, 0, 18, 6, 8, 1, 18, 2, 98, 111]"
  by code_simp+

lemma pair_db_eq: "pair_db name = \<lparr>next_id = 2, user_map =
    [(0, \<lparr>username = ''al'', msg_q = []\<rparr>), (1, \<lparr>username = name, msg_q = []\<rparr>)]\<rparr>"
  by (simp add: pair_db_def registerUser_def Database_init_def Let_def)

section \<open>Reachable databases\<close>

text \<open>
  The databases a running server can reach when its request threads take effect one
  after the other, whatever the clients send and whatever the sockets report.
\<close>

inductive server_reachable ::
    "(Packet \<Rightarrow> bytes) \<Rightarrow> (bytes \<Rightarrow> Packet) \<Rightarrow> (Packet \<Rightarrow> string) \<Rightarrow>
     ((user_id_t \<times> UserMetadata) list \<Rightarrow> (user_id_t \<times> UserMetadata) list) \<Rightarrow> Database \<Rightarrow> bool"
  for ser parse debug iter where
  start: "server_reachable ser parse debug iter Database_init"
| request: "server_reachable ser parse debug iter db \<Longrightarrow>
     handleRequest ser parse debug iter d rx_evs tx_evs db = Some (Inr (w, wire)) \<Longrightarrow>
     server_reachable ser parse debug iter (shared_db w)"

lemma handlePacket_db:
  "handlePacket ser debug iter s p tx_evs w = Some (Inr (w', wire)) \<Longrightarrow>
   shared_db w' = shared_db (fst (dispatch ser iter p (check_header p w)))"
  by (auto simp: handlePacket_def send_reply_def split: option.splits sum.splits prod.splits)

lemma handleRequest_db:
  assumes "handleRequest ser parse debug iter d rx_evs tx_evs db = Some (Inr (w, wire))"
  shows "shared_db w = db \<or> (\<exists>name. shared_db w = fst (registerUser db name))"
proof -
  let ?w0 = "\<lparr>shared_db = db, tx = replicate kBufferSize 0, lines = []\<rparr>"
  obtain s p where "handlePacket ser debug iter s p tx_evs ?w0 = Some (Inr (w, wire))"
    using assms by (auto simp: handleRequest_def Let_def split: option.splits sum.splits)
  from handlePacket_db [OF this] dispatch_db [of ser iter p "check_header p ?w0"] show ?thesis
    by auto
qed

lemma registerUser_empty_inboxes:
  "\<forall>i. inbox_of db i = [] \<Longrightarrow> \<forall>i. inbox_of (fst (registerUser db name)) i = []"
  by (simp add: registerUser_eq inbox_of_def)

section \<open>Properties\<close>

text \<open>
  A registration request that arrives in one piece: the server stores the name
  under the next id, as \<^verbatim>\<open>Database::registerUser\<close> does, and sends back exactly the
  serialised answer with response value 0 and that id.
\<close>

lemma server_registers:
  assumes "packet_codec ser parse wf_packet" "wf_packet p" "length (ser p) \<le> kBufferSize"
    and "hdr p = Some \<lparr>hdr_packet_type = Some PACKET_TYPE_REQUEST_REGISTER\<rparr>"
    and "req_reg p = Some \<lparr>reg_username = Some name\<rparr>"
    and "arrives_whole (ser p) rx_evs"
    and "length (ser (register_packet (next_id db))) \<le> kBufferSize"
    and "accepts_all (length (ser (register_packet (next_id db)))) tx_evs"
  shows "\<exists>w. handleRequest ser parse debug iter d rx_evs tx_evs db
      = Some (Inr (w, ser (register_packet (next_id db))))
    \<and> shared_db w = fst (registerUser db name)"
  using packet_codec.register_handled [OF assms] .

lemma server_registers_example:
  "\<exists>w. handleRequest wire_ser wire_parse (\<lambda>p. []) (\<lambda>es. es) 4
      [RecvErr EAGAIN, Data [10, 2, 8, 0, 18, 4, 10, 2, 97, 108]] [Sent 3, Sent 99] Database_init
      = Some (Inr (w, [10, 2, 8, 4, 50, 4, 8, 0, 16, 0]))
    \<and> shared_db w = fst (registerUser Database_init ''al'')"
proof -
  have "arrives_whole (wire_ser hello_packet) [RecvErr EAGAIN, Data (wire_ser hello_packet)]"
    unfolding arrives_whole_def by (rule exI [of _ "[RecvErr EAGAIN]"], rule exI [of _ "[]"]) simp
  moreover have "next_id Database_init = 0"
    by (simp add: Database_init_def)
  ultimately show ?thesis
    using server_registers [OF wire.packet_codec_axioms example_packets_wf(1), of "''al''"
        "[RecvErr EAGAIN, Data (wire_ser hello_packet)]" Database_init "[Sent 3, Sent 99]" "\<lambda>p. []" "\<lambda>es. es" 4]
    by (simp add: example_packets_ser example_replies kBufferSize_def accepts_all_def accepts_def)
      (simp add: hello_packet_def packet_accessors)
qed

text \<open>
  A users request that arrives in one piece and whose answer fits the buffer: the
  server sends the id and name of every user but the requestor, in the iteration
  order of its map, or response value 1 for an unknown requestor, and leaves its
  database as it is.
\<close>

lemma server_lists_users:
  assumes "packet_codec ser parse wf_packet" "wf_packet p" "length (ser p) \<le> kBufferSize"
    and "hdr p = Some \<lparr>hdr_packet_type = Some PACKET_TYPE_REQUEST_USERS\<rparr>"
    and "req_users p = Some \<lparr>users_requestor_id = Some i\<rparr>"
    and "arrives_whole (ser p) rx_evs"
    and "r = (if userExists db i then users_packet i (iter (user_map db)) else no_users_packet)"
    and "length (ser r) \<le> kBufferSize" "accepts_all (length (ser r)) tx_evs"
  shows "\<exists>w. handleRequest ser parse debug iter d rx_evs tx_evs db = Some (Inr (w, ser r)) \<and> shared_db w = db"
  using packet_codec.users_handled [where iter = iter, OF assms] .

lemma server_lists_users_example:
  "\<exists>w. handleRequest wire_ser wire_parse (\<lambda>p. []) (\<lambda>es. es) 4
      [Data [10, 2, 8, 1, 26, 2, 8, 0]] [Sent 99] (pair_db ''bo'')
      = Some (Inr (w, [10, 2, 8, 5, 58, 10, 8, 0, 18, 6, 8, 1, 18, 2, 98, 111]))
    \<and> shared_db w = pair_db ''bo''"
proof -
  have "hdr who_packet = Some \<lparr>hdr_packet_type = Some PACKET_TYPE_REQUEST_USERS\<rparr>"
    "req_users who_packet = Some \<lparr>users_requestor_id = Some 0\<rparr>"
    by (simp_all add: who_packet_def packet_accessors)
  moreover have "userExists (pair_db ''bo'') 0"
    by (simp add: pair_db_eq userExists_def)
  ultimately show ?thesis
    using server_lists_users [OF wire.packet_codec_axioms example_packets_wf(2), of 0
        "[Data (wire_ser who_packet)]" _ "pair_db ''bo''" "\<lambda>es. es" "[Sent 99]" "\<lambda>p. []" 4]
    by (simp add: example_packets_ser arrives_wholeI kBufferSize_def)
      (simp add: pair_db_eq example_replies accepts_all_def accepts_def)
qed

text \<open>
  C27. When the list of users does not fit the 1024-byte buffer, nothing is serialised,
  and the server then sends as many bytes as the packet would have needed: it reads
  past the end of its transmit buffer.
\<close>

theorem users_reply_overruns:
  assumes "packet_codec ser parse wf_packet" "wf_packet p" "length (ser p) \<le> kBufferSize"
    and "hdr p = Some \<lparr>hdr_packet_type = Some PACKET_TYPE_REQUEST_USERS\<rparr>"
    and "req_users p = Some \<lparr>users_requestor_id = Some i\<rparr>" "userExists db i"
    and "arrives_whole (ser p) rx_evs"
    and "kBufferSize < length (ser (users_packet i (iter (user_map db))))" "tx_evs \<noteq> []"
  shows "handleRequest ser parse debug iter d rx_evs tx_evs db = Some (Inl OutOfBounds)"
proof -
  have hdr: "hdr p \<noteq> None" "packet_type p = PACKET_TYPE_REQUEST_USERS"
    using assms(4) by (simp_all add: packet_accessors)
  then have reply: "dispatch ser iter p (start_worker p db) =
      reply ser (users_packet i (iter (user_map db))) (start_worker p db)"
    using assms(5,6) by (simp add: dispatch_def handler_simps)
  show ?thesis
    using packet_codec.handleRequest_overruns [OF assms(1,7,2) hdr(1) assms(3) reply _ assms(8,9)] by simp
qed

theorem users_reply_overruns_witness:
  "handleRequest wire_ser wire_parse (\<lambda>p. []) (\<lambda>es. es) 4
     [Data [10, 2, 8, 1, 26, 2, 8, 0]] [Sent 99] (pair_db (replicate 1025 (CHR ''b'')))
     = Some (Inl OutOfBounds)"
proof -
  let ?db = "pair_db (replicate 1025 (CHR ''b''))"
  have "hdr who_packet = Some \<lparr>hdr_packet_type = Some PACKET_TYPE_REQUEST_USERS\<rparr>"
    "req_users who_packet = Some \<lparr>users_requestor_id = Some 0\<rparr>"
    by (simp_all add: who_packet_def packet_accessors)
  moreover have "userExists ?db 0" by (simp add: pair_db_eq userExists_def)
  moreover have "kBufferSize < length (wire_ser (users_packet 0 (user_map ?db)))"
    using users_packet_length [of "(1, \<lparr>username = replicate 1025 (CHR ''b''), msg_q = []\<rparr>)" "user_map ?db" 0]
    by (simp add: pair_db_eq kBufferSize_def)
  ultimately show ?thesis
    using users_reply_overruns [OF wire.packet_codec_axioms example_packets_wf(2), of 0 ?db
        "[Data (wire_ser who_packet)]" "\<lambda>es. es" "[Sent 99]" "\<lambda>p. []" 4]
    by (simp add: example_packets_ser arrives_wholeI kBufferSize_def)
qed

text \<open>
  Requests to send and to receive messages are not answered and change nothing:
  the switch has no call for them.
\<close>

lemma server_ignores_messages:
  assumes "packet_codec ser parse wf_packet" "wf_packet p" "length (ser p) \<le> kBufferSize"
    and "hdr p = Some \<lparr>hdr_packet_type = Some t\<rparr>"
    and "t = PACKET_TYPE_REQUEST_SEND \<or> t = PACKET_TYPE_REQUEST_RECV"
    and "arrives_whole (ser p) rx_evs"
  shows "\<exists>w. handleRequest ser parse debug iter d rx_evs tx_evs db = Some (Inr (w, [])) \<and> shared_db w = db"
proof -
  have hdr: "hdr p \<noteq> None" "packet_type p = t"
    using assms(4) by (simp_all add: packet_accessors)
  then have reply: "dispatch ser iter p (start_worker p db) = (start_worker p db, 0)"
    using assms(5) by (auto simp: dispatch_def)
  show ?thesis
    using packet_codec.handleRequest_silent [OF assms(1,6,2) hdr(1) assms(3) reply] by simp
qed

lemma server_ignores_messages_example:
  "\<exists>w. handleRequest wire_ser wire_parse (\<lambda>p. []) (\<lambda>es. es) 4
      [Data [10, 2, 8, 3, 42, 2, 8, 0]] [] (pair_db ''bo'') = Some (Inr (w, []))
    \<and> shared_db w = pair_db ''bo''"
  using server_ignores_messages [OF wire.packet_codec_axioms example_packets_wf(3), of PACKET_TYPE_REQUEST_RECV
      "[Data (wire_ser inbox_packet)]" "\<lambda>p. []" "\<lambda>es. es" 4 "[]" "pair_db ''bo''"]
  by (simp add: example_packets_ser arrives_wholeI kBufferSize_def)
    (simp add: inbox_packet_def packet_accessors)

text \<open>
  In every database the server can reach the invariant of the user map holds and
  no user has a message waiting: this server never stores one.
\<close>

lemma server_reachable_invariant:
  assumes "server_reachable ser parse debug iter db"
  shows "db_inv db \<and> (\<forall>i. inbox_of db i = [])"
  using assms
proof (induction rule: server_reachable.induct)
  case start
  show ?case by (simp add: db_inv_def Database_init_def inbox_of_def Database_at_def user_ids_def)
next
  case (request db d rx_evs tx_evs w wire)
  from handleRequest_db [OF request(2)] request.IH show ?case
    using db.inv_register registerUser_empty_inboxes by metis
qed

lemma server_reachable_example:
  "server_reachable wire_ser wire_parse (\<lambda>p. []) (\<lambda>es. es) (fst (registerUser Database_init ''al''))"
proof -
  have "next_id Database_init = 0"
    by (simp add: Database_init_def)
  then obtain w where w: "handleRequest wire_ser wire_parse (\<lambda>p. []) (\<lambda>es. es) 4
      [Data (wire_ser hello_packet)] [Sent 99] Database_init = Some (Inr (w, wire_ser (register_packet 0)))"
    "shared_db w = fst (registerUser Database_init ''al'')"
    using wire.register_handled [OF example_packets_wf(1), of "''al''" "[Data (wire_ser hello_packet)]"
        Database_init "[Sent 99]" "\<lambda>p. []" "\<lambda>es. es" 4]
    by (simp add: arrives_wholeI example_packets_ser example_replies kBufferSize_def accepts_all_def accepts_def)
      (auto simp add: hello_packet_def packet_accessors)
  from server_reachable.request [OF server_reachable.start w(1)] show ?thesis
    by (simp add: w(2))
qed

lemma server_reachable_invariant_example:
  "db_inv (fst (registerUser Database_init ''al'')) \<and> (\<forall>i. inbox_of (fst (registerUser Database_init ''al'')) i = [])"
  using server_reachable_invariant [OF server_reachable_example] .

text \<open>
  A packet without a header is reported and then handled as a registration: the
  default of the missing type is the first enumerator.
\<close>

lemma missing_header_registers:
  assumes "packet_codec ser parse wf_packet" "wf_packet p" "ser p \<noteq> []" "length (ser p) \<le> kBufferSize"
    and "hdr p = None" "req_reg p = Some \<lparr>reg_username = Some name\<rparr>"
    and "arrives_whole (ser p) rx_evs"
    and "length (ser (register_packet (next_id db))) \<le> kBufferSize"
    and "accepts_all (length (ser (register_packet (next_id db)))) tx_evs"
  shows "\<exists>w. handleRequest ser parse debug iter d rx_evs tx_evs db
      = Some (Inr (w, ser (register_packet (next_id db))))
    \<and> shared_db w = fst (registerUser db name)
    \<and> ''Received a request with an invalid header'' \<in> set (lines w)"
proof -
  let ?r = "register_packet (next_id db)"
  let ?w = "(start_worker p db)\<lparr>shared_db := fst (registerUser db name)\<rparr>"
  have "dispatch ser iter p (start_worker p db) = reply ser ?r ?w"
    using assms(5,6) by (simp add: dispatch_def handler_simps packet_accessors)
  also have "\<dots> = (?w\<lparr>tx := ser ?r @ drop (length (ser ?r)) (tx ?w)\<rparr>, length (ser ?r))"
    using assms(8) by (simp add: reply_def SerializeToArray_def ByteSizeLong_def)
  finally have reply: "dispatch ser iter p (start_worker p db) = \<dots>" .
  have "parse (ser p @ replicate (kBufferSize - length (ser p)) 0) = p"
    by (rule packet_codec.parse_padded [OF assms(1,2)])
  note handled = handleRequest_received [where parse = parse, OF assms(7,3,4) this reply]
  have "\<exists>evs'. sendB tx_evs (Socket_new d True 0 0 0)
      (ser ?r @ replicate (kBufferSize - length (ser ?r)) 0) (length (ser ?r))
      = Some (Inr (Socket_new d True 0 0 0, True, ser ?r, evs'))"
    using sendB_accepted [OF _ assms(9), of "ser ?r @ replicate (kBufferSize - length (ser ?r)) 0"
        "Socket_new d True 0 0 0"] by simp
  then show ?thesis
    using assms(5) by (auto simp: handled send_reply_def start_worker_def check_header_def)
qed

lemma missing_header_registers_example:
  "\<exists>w. handleRequest wire_ser wire_parse (\<lambda>p. []) (\<lambda>es. es) 4
      [Data [18, 4, 10, 2, 97, 108]] [Sent 99] Database_init
      = Some (Inr (w, [10, 2, 8, 4, 50, 4, 8, 0, 16, 0]))
    \<and> shared_db w = fst (registerUser Database_init ''al'')
    \<and> ''Received a request with an invalid header'' \<in> set (lines w)"
proof -
  let ?p = "Packet_empty\<lparr>req_reg := Some \<lparr>reg_username = Some ''al''\<rparr>\<rparr>"
  have ser: "wire_ser ?p = [18, 4, 10, 2, 97, 108]"
    by code_simp
  have "wf_PacketType (packet_type ?p) \<and> list_all ascii (packet_strings ?p)"
    by code_simp
  then have "wf_wire ?p" by (simp add: wf_wire_def ser)
  moreover have "next_id Database_init = 0"
    by (simp add: Database_init_def)
  ultimately show ?thesis
    using missing_header_registers [OF wire.packet_codec_axioms, of ?p "''al''"
        "[Data (wire_ser ?p)]" Database_init "[Sent 99]" "\<lambda>p. []" "\<lambda>es. es" 4]
    by (simp add: ser example_replies arrives_wholeI kBufferSize_def accepts_all_def accepts_def)
      (simp add: packet_accessors)
qed

text \<open>
  The server reads once: when the first bytes to arrive are only the header field of
  a registration, it parses these, registers nobody and sends no answer, although the
  rest of the request arrives right after.
\<close>

lemma split_request_lost:
  assumes "arrives_whole (take 4 (wire_ser p)) rx_evs"
    and "hdr p = Some \<lparr>hdr_packet_type = Some PACKET_TYPE_REQUEST_REGISTER\<rparr>"
  shows "\<exists>w. handleRequest wire_ser wire_parse debug iter d rx_evs tx_evs db = Some (Inr (w, []))
    \<and> shared_db w = db"
proof -
  let ?h = "Packet_of_type PACKET_TYPE_REQUEST_REGISTER"
  have h: "wire_ser ?h = [10, 2, 8, 0]" by code_simp
  have "wf_PacketType (packet_type ?h) \<and> list_all ascii (packet_strings ?h)" by code_simp
  then have wf: "wf_wire ?h" by (simp add: wf_wire_def h)
  have "enc_fields (put_msg Header_fields 1 (hdr ?h)) = [10, 2, 8, 0]"
    by code_simp
  then have "take 4 (wire_ser p) = wire_ser ?h"
    unfolding h by (simp add: wire_ser_def Packet_fields_def assms(2) Packet_of_type_def)
  with assms(1) have arr: "arrives_whole (wire_ser ?h) rx_evs" by simp
  have hdr: "hdr ?h \<noteq> None"
    by (simp add: packet_accessors)
  have len: "length (wire_ser ?h) \<le> kBufferSize"
    by (simp add: h kBufferSize_def)
  have "dispatch wire_ser iter ?h (start_worker ?h db)
      = (report ''Invalid request register from client'' (start_worker ?h db), 0)"
    by (simp add: dispatch_def handleRequestRegister_def packet_accessors)
  from wire.handleRequest_silent [OF arr wf hdr len this, of debug d tx_evs] show ?thesis
    by simp
qed

lemma split_request_lost_example:
  "\<exists>w. handleRequest wire_ser wire_parse (\<lambda>p. []) (\<lambda>es. es) 4
      [Data [10, 2, 8, 0], Data [18, 4, 10, 2, 97, 108]] [Sent 99] Database_init = Some (Inr (w, []))
    \<and> shared_db w = Database_init"
proof -
  have "take 4 (wire_ser hello_packet) = [10, 2, 8, 0]"
    by (simp add: example_packets_ser)
  moreover have "arrives_whole [10, 2, 8, 0] [Data [10, 2, 8, 0], Data [18, 4, 10, 2, 97, 108]]"
    unfolding arrives_whole_def by (rule exI [of _ "[]"]) simp
  ultimately show ?thesis
    by (intro split_request_lost [of hello_packet]) (simp_all add: hello_packet_def packet_accessors)
qed

text \<open>
  \<^verbatim>\<open>handleRequestRecv\<close>, which no request reaches, would answer with the waiting
  messages in order but keep them waiting: the database is unchanged, so the next
  call answers with the same messages.
\<close>

lemma handleRequestRecv_keeps_messages:
  assumes "db_inv (shared_db w)" "userExists (shared_db w) i"
    and "req_recv p = Some \<lparr>recv_requestor_id = Some i\<rparr>"
  shows "handleRequestRecv ser p w = reply ser
      ((Packet_of_type PACKET_TYPE_RESP_RECV)\<lparr>resp_recv := Some \<lparr>recv_resp_value = Some 0,
         recv_messages = map (\<lambda>m. \<lparr>um_user_id = Some (sender_id m), um_message = Some (msg m)\<rparr>)
                             (inbox_of (shared_db w) i)\<rparr>\<rparr>) w
    \<and> shared_db (fst (handleRequestRecv ser p w)) = shared_db w"
proof -
  have add: "add_messages ms r = r\<lparr>recv_messages := recv_messages r @
      map (\<lambda>m. \<lparr>um_user_id = Some (sender_id m), um_message = Some (msg m)\<rparr>) ms\<rparr>" for ms r
    by (induction ms r rule: add_messages.induct) simp_all
  show ?thesis
    using assms
    by (simp add: handleRequestRecv_def packet_accessors Let_def add Database_ref_known inbox_of_def)
qed

lemma handleRequestRecv_keeps_messages_example:
  "shared_db (fst (handleRequestRecv wire_ser inbox_packet
     \<lparr>shared_db = fst (queueMsg (pair_db ''bo'') 0 \<lparr>sender_id = 1, msg = ''hi''\<rparr>), tx = [], lines = []\<rparr>))
   = fst (queueMsg (pair_db ''bo'') 0 \<lparr>sender_id = 1, msg = ''hi''\<rparr>)"
proof -
  let ?db = "fst (queueMsg (pair_db ''bo'') 0 \<lparr>sender_id = 1, msg = ''hi''\<rparr>)"
  have "db_inv Database_init"
    by (simp add: db_inv_def Database_init_def user_ids_def)
  then have "db_inv ?db" "userExists ?db 0"
    by (simp_all add: pair_db_def db.inv_register db.inv_enqueue)
      (simp add: pair_db_def [symmetric] pair_db_eq queueMsg_eq userExists_def Database_set_def Let_def)
  then show ?thesis
    using handleRequestRecv_keeps_messages [of "\<lparr>shared_db = ?db, tx = [], lines = []\<rparr>" 0 inbox_packet wire_ser]
    by (simp add: inbox_packet_def packet_accessors)
qed

text \<open>
  The accept loop hands every accepted connection to exactly one request thread, in
  the order of arrival, and a failing \<^verbatim>\<open>accept\<close> never stops it.
\<close>

lemma accept_loop_serves_all:
  "snd (run_loop evs (s, threads)) = threads @ [int d. Accepted d \<leftarrow> evs]"
proof (induction evs arbitrary: s threads)
  case (Cons ev evs)
  show ?case
    by (cases ev) (simp_all add: getConnection_def Cons)
qed simp

end
