(* ===== verification/App_Protocol.thy ===== *)
theory App_Protocol
  imports App Server_App
begin

text \<open>
  The client program against the server program: what a client's operations do when
  the server's answer arrives, and when none does. The two meet in the bytes: what
  the client puts on the wire is what the server's socket delivers, and back.
\<close>

section \<open>Exchanges\<close>

lemma connect_server_ok: "ConnOk \<in> set (conns net) \<Longrightarrow> \<exists>s. connect_server net = Some s"
  using connectB_None [of "Socket_new (- 1) False (n_socket net) (n_getfl net) (n_setfl net)" "conns net"]
  by (auto simp: connect_server_def split: option.splits)

text \<open>The bytes behind the response in the receive buffer are zero.\<close>

definition zero_from :: "nat \<Rightarrow> bytes \<Rightarrow> bool" where
  "zero_from n buf \<longleftrightarrow> drop n buf = replicate (length buf - n) 0"

lemma zero_from_fresh [simp]: "zero_from n (replicate k 0)"
  by (simp add: zero_from_def)

lemma transact_waits:
  assumes "length (ser req) \<le> length txb" "accepts_all (length (ser req)) (sends net)"
    and "recvs net = replicate n (Data [])"
  shows "transact ser parse req s net txb rxb = None"
proof -
  let ?tx = "ser req @ drop (length (ser req)) txb"
  obtain evs' where "sendB (sends net) s ?tx (length (ser req)) = Some (Inr (s, True, ser req, evs'))"
    using sendB_accepted [of "length (ser req)" ?tx "sends net" s] assms(2) by auto
  moreover have "list_all recv_retry (replicate n (Data [])) \<and> arrives (replicate n (Data [])) = []"
    by (induction n) simp_all
  then have "recv_poll (replicate n (Data [])) s rxb = None"
    by (simp add: recv_poll_starves)
  ultimately show ?thesis
    using assms(1,3) by (simp add: transact_def SerializeToArray_def ByteSizeLong_def)
qed

lemma transact_overruns:
  assumes "length txb < length (ser req)" "sends net \<noteq> []"
  shows "transact ser parse req s net txb rxb = Some (Inl OutOfBounds)"
proof -
  have "sendB (sends net) s txb (length (ser req)) = Some (Inl OutOfBounds)"
    using assms by (cases "sends net") (auto simp: sendB_def sendB_loop.simps load_at_def)
  then show ?thesis
    using assms(1) by (simp add: transact_def SerializeToArray_def ByteSizeLong_def)
qed

text \<open>
  The server's buffer holds 1024 bytes, the client's 1000: of a longer answer the client
  parses the part that fits.
\<close>

lemma recv_poll_cut:
  assumes "list_all recv_retry idle" "arrives idle = []" "buf \<noteq> []" "length buf < length bs"
  shows "\<exists>left. recv_poll (idle @ Data bs # evs) s buf = Some (Inr (s, int (length buf), take (length buf) bs, left))"
  using assms(1,2)
proof (induction idle)
  case Nil
  have "bs \<noteq> []" using assms(4) by auto
  then show ?case using assms(3,4) by (simp add: recv_poll_Data del: recv_poll.simps)
qed (simp del: recv_poll.simps)

lemma long_answer_cut:
  assumes "length (ser req) \<le> length txb" "accepts_all (length (ser req)) (sends net)"
    and "arrives_whole bs (recvs net)" "rxb \<noteq> []" "length rxb < length bs"
  shows "\<exists>x. transact ser parse req s net txb rxb = Some (Inr x)
    \<and> rx_buf x = take (length rxb) bs \<and> resp_packet x = parse (take (length rxb) bs)"
proof -
  let ?tx = "ser req @ drop (length (ser req)) txb"
  obtain evs' where send: "sendB (sends net) s ?tx (length (ser req)) = Some (Inr (s, True, ser req, evs'))"
    using sendB_accepted [of "length (ser req)" ?tx "sends net" s] assms(2) by auto
  from assms(3) obtain idle rest
    where evs: "recvs net = idle @ Data bs # rest" "list_all recv_retry idle" "arrives idle = []"
    by (auto simp: arrives_whole_def)
  obtain left where "recv_poll (recvs net) s rxb = Some (Inr (s, int (length rxb), take (length rxb) bs, left))"
    using recv_poll_cut [OF evs(2,3) assms(4,5), of rest s] by (auto simp: evs(1))
  with send show ?thesis
    using assms(1) by (simp add: transact_def SerializeToArray_def ByteSizeLong_def Let_def)
qed

context packet_codec
begin

lemma transact_answered:
  assumes "length (ser req) \<le> length txb" "accepts_all (length (ser req)) (sends net)"
    and "arrives_whole (ser resp) (recvs net)" "wf_packet resp" "hdr resp \<noteq> None"
    and "length (ser resp) \<le> length rxb" "zero_from (length (ser resp)) rxb"
  shows "transact ser parse req s net txb rxb = Some (Inr \<lparr>resp_packet = resp,
     tx_buf = ser req @ drop (length (ser req)) txb, rx_buf = ser resp @ drop (length (ser resp)) rxb,
     on_wire = ser req, sock_errs = sock_log s\<rparr>)"
proof -
  let ?tx = "ser req @ drop (length (ser req)) txb" and ?rx = "ser resp @ drop (length (ser resp)) rxb"
  obtain evs' where send: "sendB (sends net) s ?tx (length (ser req)) = Some (Inr (s, True, ser req, evs'))"
    using sendB_accepted [of "length (ser req)" ?tx "sends net" s] assms(2) by auto
  from assms(3) obtain idle more
    where evs: "recvs net = idle @ Data (ser resp) # more" "list_all recv_retry idle" "arrives idle = []"
    by (auto simp: arrives_whole_def)
  have "recv_poll (recvs net) s rxb = Some (Inr (s, int (length (ser resp)), ?rx, more))"
    using recv_poll_first_data [OF evs(2,3) ser_nonempty [OF assms(4,5)] assms(6)] by (simp add: evs(1))
  moreover have "parse ?rx = resp"
    using assms(7) parse_padded [OF assms(4)] by (simp add: zero_from_def)
  ultimately show ?thesis
    using assms(1) send by (simp add: transact_def SerializeToArray_def ByteSizeLong_def Let_def)
qed

end

section \<open>The maps of online users\<close>

text \<open>The two maps are inverse to each other, keys and ids are distinct.\<close>

definition app_maps :: "App \<Rightarrow> bool" where
  "app_maps a \<longleftrightarrow> distinct (map fst (name_to_id a)) \<and> distinct (map snd (name_to_id a)) \<and>
     (\<forall>i n. map_of (id_to_name a) i = Some n \<longleftrightarrow> map_of (name_to_id a) n = Some i)"

lemma add_cerr_sel [simp]:
  "name_to_id (add_cerr ls a) = name_to_id a" "id_to_name (add_cerr ls a) = id_to_name a"
  "app_id (add_cerr ls a) = app_id a" "app_username (add_cerr ls a) = app_username a"
  "console (add_cerr ls a) = console a"
  by (simp_all add: add_cerr_def)

lemma foldl_keeps: "(\<And>a x. f (g a x) = f a) \<Longrightarrow> f (foldl g a xs) = f a"
  by (induction xs arbitrary: a) simp_all

lemma printOnlineUsers_sel [simp]:
  "name_to_id (printOnlineUsers iter a) = name_to_id a"
  "id_to_name (printOnlineUsers iter a) = id_to_name a"
  "app_id (printOnlineUsers iter a) = app_id a"
  "app_username (printOnlineUsers iter a) = app_username a"
  "m_user_input (console (printOnlineUsers iter a)) = m_user_input (console a)"
  unfolding printOnlineUsers_def by (rule foldl_keeps, simp)+

lemma map_of_foldl_update:
  "map_of (foldl (\<lambda>m u. AList.update (f u) (g u) m) m us) = map_of m ++ map_of (rev (map (\<lambda>u. (f u, g u)) us))"
proof (induction us arbitrary: m)
  case (Cons u us)
  then show ?case by (auto simp: update_conv' map_add_def fun_eq_iff split: option.splits)
qed simp

lemma distinct_foldl_update:
  "distinct (map fst m) \<Longrightarrow> distinct (map fst (foldl (\<lambda>m u. AList.update (f u) (g u) m) m us))"
  by (induction us arbitrary: m) (simp_all add: distinct_update)

lemma set_update_snd: "snd ` set (AList.update k v m) \<subseteq> insert v (snd ` set m)"
  by (induction m) auto

lemma distinct_ids_update:
  "distinct (map snd m) \<Longrightarrow> v \<notin> snd ` set m \<Longrightarrow> distinct (map snd (AList.update k v m))"
proof (induction m)
  case (Cons e m)
  then show ?case using set_update_snd [of k v m] by (cases e) auto
qed simp

lemma disjoint_subset: "A \<subseteq> B \<Longrightarrow> B \<inter> C = {} \<Longrightarrow> A \<inter> C = {}"
  by blast

lemma distinct_ids_foldl_update:
  assumes "distinct (map snd m)" "distinct (map g us)" "snd ` set m \<inter> g ` set us = {}"
  shows "distinct (map snd (foldl (\<lambda>m u. AList.update (f u) (g u) m) m us))"
  using assms
proof (induction us arbitrary: m)
  case (Cons u us)
  let ?m = "AList.update (f u) (g u) m"
  have "g u \<notin> snd ` set m" using Cons.prems(3) by auto
  then have d: "distinct (map snd ?m)"
    using Cons.prems(1) by (rule distinct_ids_update [rotated])
  have "g u \<notin> g ` set us" using Cons.prems(2) by simp
  moreover have "snd ` set m \<inter> g ` set us = {}" using Cons.prems(3) by auto
  ultimately have "insert (g u) (snd ` set m) \<inter> g ` set us = {}" by simp
  then have "snd ` set ?m \<inter> g ` set us = {}"
    by (rule disjoint_subset [OF set_update_snd])
  moreover have "distinct (map g us)" using Cons.prems(2) by simp
  ultimately have "distinct (map snd (foldl (\<lambda>m u. AList.update (f u) (g u) m) ?m us))"
    by (intro Cons.IH [OF d])
  then show ?case by (simp only: foldl_Cons)
qed simp

lemma emplace_inverse:
  "distinct (map fst ms) \<Longrightarrow> distinct (map snd ms) \<Longrightarrow> fst ` set m \<inter> snd ` set ms = {} \<Longrightarrow>
   foldl (\<lambda>m mapping. emplace (snd mapping) (fst mapping) m) m ms = m @ map prod.swap ms"
proof (induction ms arbitrary: m)
  case (Cons e ms)
  have new: "map_of m (snd e) = None"
    using Cons.prems(3) by (auto simp: map_of_eq_None_iff)
  have "fst ` set (m @ [(snd e, fst e)]) \<inter> snd ` set ms = {}"
    using Cons.prems by auto
  then have "foldl (\<lambda>m mapping. emplace (snd mapping) (fst mapping) m) (m @ [(snd e, fst e)]) ms
      = (m @ [(snd e, fst e)]) @ map prod.swap ms"
    using Cons by simp
  then show ?case
    by (simp add: emplace_def new prod.swap_def)
qed simp

lemma invert_names_inverse:
  assumes "distinct (map fst ms)" "distinct (map snd ms)"
  shows "map_of (invert_names ms) i = Some n \<longleftrightarrow> map_of ms n = Some i"
proof -
  have inv: "invert_names ms = map prod.swap ms"
    using emplace_inverse [OF assms, of "[]"] by (simp add: invert_names_def)
  have "distinct (map fst (map prod.swap ms))"
    using assms(2) by (simp add: comp_def)
  then have "map_of (invert_names ms) i = Some n \<longleftrightarrow> (i, n) \<in> set (map prod.swap ms)"
    unfolding inv by (rule map_of_eq_Some_iff)
  also have "\<dots> \<longleftrightarrow> (n, i) \<in> set ms"
    by force
  also have "\<dots> \<longleftrightarrow> map_of ms n = Some i"
    using assms(1) by simp
  finally show ?thesis .
qed

lemma same_map_eq:
  assumes "same_map xs ys" "distinct (map fst xs)" "distinct (map fst ys)"
  shows "map_of xs = map_of ys"
proof -
  have sub: "set xs \<subseteq> set ys"
    using assms(1,3) by (auto simp: same_map_def list_all_iff)
  have "distinct xs" "distinct ys"
    using assms(2,3) by (simp_all add: distinct_map)
  then have "card (set xs) = card (set ys)"
    using assms(1) by (simp add: same_map_def distinct_card)
  with sub have "set xs = set ys"
    by (simp add: card_subset_eq)
  then have "map_of xs k = Some v \<longleftrightarrow> map_of ys k = Some v" for k v
    using assms(2,3) by simp
  then show ?thesis
    by (intro ext) (metis not_None_eq)
qed

lemma iteration_order_map:
  assumes "iteration_order iter" "distinct (map fst ms)"
  shows "distinct (map fst (iter ms))" "map_of (iter ms) = map_of ms"
proof -
  have ms: "mset (iter ms) = mset ms"
    using assms(1) by (simp add: iteration_order_def)
  then have "mset (map fst (iter ms)) = mset (map fst ms)" by simp
  then show d: "distinct (map fst (iter ms))"
    using assms(2) mset_eq_imp_distinct_iff by blast
  have "set (iter ms) = set ms"
    using ms by (rule mset_eq_setD)
  then have "map_of (iter ms) k = Some v \<longleftrightarrow> map_of ms k = Some v" for k v
    using d assms(2) by simp
  then show "map_of (iter ms) = map_of ms"
    by (intro ext) (metis not_None_eq)
qed

lemma iteration_order_ids:
  assumes "iteration_order iter" "distinct (map snd ms)"
  shows "distinct (map snd (iter ms))"
proof -
  have "mset (map snd (iter ms)) = mset (map snd ms)"
    using assms(1) by (simp add: iteration_order_def)
  then show ?thesis
    using assms(2) mset_eq_imp_distinct_iff by blast
qed

text \<open>What a users answer puts into the map: for each name the last user of that name.\<close>

definition others :: "user_id_t \<Rightarrow> (user_id_t \<times> UserMetadata) list \<Rightarrow> (user_id_t \<times> UserMetadata) list" where
  "others i es = filter (\<lambda>e. fst e \<noteq> i) es"

definition last_named :: "(user_id_t \<times> UserMetadata) list \<Rightarrow> string \<Rightarrow> user_id_t option" where
  "last_named es = map_of (rev (map (\<lambda>e. (username (snd e), fst e)) es))"

lemma names_of_users_eq:
  "names_of_users (map online_user es) = foldl (\<lambda>m e. AList.update (username (snd e)) (fst e) m) [] es"
  by (simp add: names_of_users_def foldl_map online_user_def)

lemma names_of_users_maps:
  assumes "distinct (map fst es)"
  shows "map_of (names_of_users (map online_user es)) = last_named es"
    "distinct (map fst (names_of_users (map online_user es)))"
    "distinct (map snd (names_of_users (map online_user es)))"
  using assms distinct_foldl_update [of "[]"] distinct_ids_foldl_update [of "[]" fst es "\<lambda>e. username (snd e)"]
  by (simp_all add: names_of_users_eq map_of_foldl_update last_named_def)

lemma update_online_users_sel [simp]:
  "app_id (update_online_users iter p a) = app_id a" "app_username (update_online_users iter p a) = app_username a"
  "m_user_input (console (update_online_users iter p a)) = m_user_input (console a)"
  by (simp_all add: update_online_users_def Let_def)

lemma update_online_users_maps:
  assumes "app_maps a" "iteration_order iter" "distinct (map fst es)"
  shows "app_maps (update_online_users iter (users_packet i es) a)
    \<and> map_of (name_to_id (update_online_users iter (users_packet i es) a)) = last_named (others i es)"
proof -
  let ?ms = "names_of_users (map online_user (others i es))"
  have "distinct (map fst (others i es))"
    using assms(3) by (simp add: others_def distinct_map_filter)
  note ms = names_of_users_maps [OF this]
  have resp: "get_or 0 (users_resp_value (get_resp_users (users_packet i es))) = 0"
    "names_of_users (users_online_users (get_resp_users (users_packet i es))) = ?ms"
    by (simp_all add: users_packet_def packet_accessors others_def)
  show ?thesis
  proof (cases "same_map ?ms (name_to_id a)")
    case True
    then have "map_of (name_to_id a) = map_of ?ms"
      using same_map_eq ms(2) assms(1) by (metis app_maps_def)
    with True show ?thesis
      using assms(1) ms(1) by (simp add: update_online_users_def resp)
  next
    case False
    let ?a = "update_online_users iter (users_packet i es) a"
    have a: "name_to_id ?a = ?ms" "id_to_name ?a = invert_names (iter ?ms)"
      using False by (simp_all add: update_online_users_def resp Let_def)
    have "map_of (id_to_name ?a) j = Some n \<longleftrightarrow> map_of ?ms n = Some j" for j n
      using invert_names_inverse [OF iteration_order_map(1) [OF assms(2) ms(2)] iteration_order_ids [OF assms(2) ms(3)]]
      by (simp add: a(2) iteration_order_map(2) [OF assms(2) ms(2)])
    then show ?thesis
      using ms by (simp add: app_maps_def a(1))
  qed
qed

lemma name_in_entry: "db_inv db \<Longrightarrow> e \<in> set (user_map db) \<Longrightarrow> name_in db (fst e) = username (snd e)"
proof -
  assume "db_inv db" "e \<in> set (user_map db)"
  then have "map_of (user_map db) (fst e) = Some (snd e)"
    by (simp add: db_inv_def)
  then show ?thesis by (simp add: name_in_def Database_at_def)
qed

lemma last_named_true:
  assumes "db_inv db" "set es \<subseteq> set (user_map db)" "last_named (others i es) n = Some j"
  shows "j \<in> user_ids db - {i} \<and> name_in db j = n"
proof -
  have "(n, j) \<in> set (rev (map (\<lambda>e. (username (snd e), fst e)) (others i es)))"
    using assms(3) unfolding last_named_def by (rule map_of_SomeD)
  then obtain e where "e \<in> set es" "fst e \<noteq> i" "n = username (snd e)" "j = fst e"
    by (auto simp: others_def)
  then show ?thesis
    using assms(1,2) name_in_entry [of db e] by (auto simp: user_ids_def)
qed

lemma last_named_others:
  assumes "db_inv db" "iteration_order iter"
  shows "dom (last_named (others i (iter (user_map db)))) = name_in db ` (user_ids db - {i})"
    and "last_named (others i (iter (user_map db))) n = Some j \<Longrightarrow> j \<in> user_ids db - {i} \<and> name_in db j = n"
proof -
  let ?es = "others i (iter (user_map db))"
  have all: "set (iter (user_map db)) = set (user_map db)"
    by (rule mset_eq_setD) (use assms(2) in \<open>simp add: iteration_order_def\<close>)
  then have es: "set ?es = {e \<in> set (user_map db). fst e \<noteq> i}"
    by (simp add: others_def)
  have "dom (last_named ?es) = (\<lambda>e. username (snd e)) ` set ?es"
    by (simp add: last_named_def dom_map_of_conv_image_fst image_image)
  also have "\<dots> = (\<lambda>e. name_in db (fst e)) ` set ?es"
    using name_in_entry [OF assms(1)] es by (intro image_cong) simp_all
  also have "\<dots> = name_in db ` (user_ids db - {i})"
    unfolding es user_ids_def by force
  finally show "dom (last_named ?es) = name_in db ` (user_ids db - {i})" .
  show "last_named ?es n = Some j \<Longrightarrow> j \<in> user_ids db - {i} \<and> name_in db j = n"
    using last_named_true [OF assms(1), of "iter (user_map db)"] all by simp
qed

text \<open>Writing a list of messages above the prompt.\<close>

lemma write_messages:
  assumes "prompt_last (console a)" "plain (m_prompt (console a) @ m_user_input (console a))"
    and "list_all (\<lambda>um. plain (message_line (id_to_name a) um)) ums"
  shows "\<exists>ks. prompt_last (console (print_messages ums a))
    \<and> m_user_input (console (print_messages ums a))
        = m_user_input (console a)
    \<and> length ks = length ums
    \<and> history (screen (console (print_messages ums a)))
        = history (screen (console a))
          @ map2 (\<lambda>um k. message_line (id_to_name a) um @ replicate k (CHR '' '')) ums ks"
  using assms
proof (induction ums arbitrary: a)
  case (Cons um ums)
  let ?l = "message_line (id_to_name a) um"
  obtain k where k: "prompt_last (Console_write ?l (console a))"
    "history (screen (Console_write ?l (console a))) = history (screen (console a)) @ [?l @ replicate k (CHR '' '')]"
    using write_display [OF Cons.prems(1), of ?l] Cons.prems(2,3) by auto
  have "\<exists>ks. prompt_last (console (print_messages ums (write_line ?l a)))
    \<and> m_user_input (console (print_messages ums (write_line ?l a)))
        = m_user_input (console (write_line ?l a))
    \<and> length ks = length ums
    \<and> history (screen (console (print_messages ums (write_line ?l a))))
        = history (screen (console (write_line ?l a)))
          @ map2 (\<lambda>um k. message_line (id_to_name (write_line ?l a)) um @ replicate k (CHR '' '')) ums ks"
    by (rule Cons.IH) (use k Cons.prems in simp_all)
  then obtain ks where ks: "prompt_last (console (print_messages ums (write_line ?l a)))"
    "m_user_input (console (print_messages ums (write_line ?l a)))
        = m_user_input (console a)"
    "length ks = length ums"
    "history (screen (console (print_messages ums (write_line ?l a))))
        = history (screen (console a)) @ [?l @ replicate k (CHR '' '')]
          @ map2 (\<lambda>um k. message_line (id_to_name a) um @ replicate k (CHR '' '')) ums ks"
    by (auto simp: k)
  then show ?case
    by (intro exI [of _ "k # ks"]) simp
qed simp

section \<open>The two exchanges\<close>

text \<open>The client's half of a registration: an answer with the id \<open>i\<close> has arrived.\<close>

lemma register_answer:
  assumes codec: "packet_codec ser parse wf_packet" and wf: "wf_packet (register_packet i)"
    and fits: "length (ser (register_request (edit [] ks))) \<le> kClientBuffer"
      "length (ser (register_packet i)) \<le> kClientBuffer"
    and typed: "kNewLine \<notin> set ks" "m_user_input (console a) = []"
    and client: "ConnOk \<in> set (conns net)" "accepts_all (length (ser (register_request (edit [] ks)))) (sends net)"
      "arrives_whole (ser (register_packet i)) (recvs net)"
  shows "\<exists>a'. App_registerUser ser parse (ks @ kNewLine # rest) net a
      = Some (Inr (a', rest, ser (register_request (edit [] ks))))
    \<and> app_username a' = edit [] ks \<and> app_id a' = i
    \<and> name_to_id a' = name_to_id a \<and> id_to_name a' = id_to_name a \<and> m_user_input (console a') = []"
proof -
  let ?req = "register_request (edit [] ks)" and ?resp = "register_packet i"
  obtain s where s: "connect_server net = Some s"
    using connect_server_ok [OF client(1)] by blast
  obtain c where c: "Console_read name_prompt (ks @ kNewLine # rest) (console a) = Some (c, edit [] ks, rest)" "m_user_input c = []"
    using Console_read_line [OF typed] by blast
  have hdr: "hdr ?resp \<noteq> None" by (simp add: register_packet_def packet_accessors)
  have t: "transact ser parse ?req s net (replicate kClientBuffer 0) (replicate kClientBuffer 0)
    = Some (Inr \<lparr>resp_packet = ?resp, tx_buf = ser ?req @ drop (length (ser ?req)) (replicate kClientBuffer 0),
        rx_buf = ser ?resp @ drop (length (ser ?resp)) (replicate kClientBuffer 0),
        on_wire = ser ?req, sock_errs = sock_log s\<rparr>)"
    using packet_codec.transact_answered [OF codec _ client(2,3) wf hdr] fits by simp
  have "get_or 0 (reg_assigned_id (get_resp_reg ?resp)) = i" "register_errors ?resp = []"
    by (simp_all add: register_packet_def packet_accessors register_errors_def)
  then show ?thesis
    by (simp add: App_registerUser_def s c t Let_def)
qed

lemma register_exchange:
  assumes codec: "packet_codec ser parse wf_packet"
    and wf: "wf_packet (register_request (edit [] ks))" "wf_packet (register_packet (next_id db))"
    and fits: "length (ser (register_request (edit [] ks))) \<le> kClientBuffer"
      "length (ser (register_packet (next_id db))) \<le> kClientBuffer"
    and typed: "kNewLine \<notin> set ks" "m_user_input (console a) = []"
    and client: "ConnOk \<in> set (conns net)" "accepts_all (length (ser (register_request (edit [] ks)))) (sends net)"
      "arrives_whole (ser (register_packet (next_id db))) (recvs net)"
    and server: "arrives_whole (ser (register_request (edit [] ks))) rx_evs"
      "accepts_all (length (ser (register_packet (next_id db)))) tx_evs"
  shows "\<exists>a' w. App_registerUser ser parse (ks @ kNewLine # rest) net a
      = Some (Inr (a', rest, ser (register_request (edit [] ks))))
    \<and> handleRequest ser parse debug iter d rx_evs tx_evs db
      = Some (Inr (w, ser (register_packet (next_id db))))
    \<and> app_username a' = edit [] ks
    \<and> (shared_db w, app_id a') = registerUser db (edit [] ks)
    \<and> register_errors (register_packet (next_id db)) = []
    \<and> name_to_id a' = name_to_id a \<and> id_to_name a' = id_to_name a \<and> m_user_input (console a') = []"
proof -
  let ?req = "register_request (edit [] ks)" and ?resp = "register_packet (next_id db)"
  obtain w where w: "handleRequest ser parse debug iter d rx_evs tx_evs db = Some (Inr (w, ser ?resp))"
    "shared_db w = fst (registerUser db (edit [] ks))"
    using packet_codec.register_handled [OF codec wf(1) _ _ _ server(1) _ server(2), of "edit [] ks" debug iter d] fits
    by (auto simp: register_request_def packet_accessors kBufferSize_def kClientBuffer_def)
  have "next_id db = snd (registerUser db (edit [] ks))" "register_errors ?resp = []"
    by (simp_all add: register_packet_def packet_accessors registerUser_def Let_def register_errors_def)
  with register_answer [OF codec wf(2) fits typed client] w show ?thesis
    by (metis prod.collapse)
qed

text \<open>The client's half of a round: an answer that lists \<open>es\<close> has arrived.\<close>

lemma users_answer:
  assumes codec: "packet_codec ser parse wf_packet"
    and resp: "r = users_packet (app_id a) es" "distinct (map fst es)" "wf_packet r"
    and fits: "length (ser (users_request (app_id a))) \<le> kClientBuffer" "length (ser r) \<le> kClientBuffer"
    and bufs: "length txb = kClientBuffer" "length rxb = kClientBuffer" "zero_from (length (ser r)) rxb"
    and client: "app_maps a" "iteration_order citer" "ConnOk \<in> set (conns net)"
      "accepts_all (length (ser (users_request (app_id a)))) (sends net)" "arrives_whole (ser r) (recvs net)"
  shows "\<exists>a'. periodicGetOnlineUsers ser parse citer net (txb, rxb) a
      = Some (Inr (a', (ser (users_request (app_id a)) @ drop (length (ser (users_request (app_id a)))) txb, ser r @ drop (length (ser r)) rxb), ser (users_request (app_id a))))
    \<and> app_maps a' \<and> app_id a' = app_id a \<and> app_username a' = app_username a
    \<and> m_user_input (console a') = m_user_input (console a)
    \<and> map_of (name_to_id a') = last_named (others (app_id a) es)"
proof -
  let ?req = "users_request (app_id a)"
  let ?a = "\<lambda>s. update_online_users citer r (add_cerr (sock_log s) a)"
  obtain s where s: "connect_server net = Some s"
    using connect_server_ok [OF client(3)] by blast
  have hdr: "hdr r \<noteq> None" by (simp add: resp users_packet_def packet_accessors)
  have "periodicGetOnlineUsers ser parse citer net (txb, rxb) a
      = Some (Inr (?a s, (ser ?req @ drop (length (ser ?req)) txb, ser r @ drop (length (ser r)) rxb), ser ?req))"
    using packet_codec.transact_answered [OF codec _ client(4,5) resp(3) hdr _ bufs(3)] fits bufs
    by (simp add: periodicGetOnlineUsers_def s)
  moreover have "app_maps (?a s) \<and> map_of (name_to_id (?a s)) = last_named (others (app_id a) es)"
    using update_online_users_maps [OF _ client(2) resp(2), of "add_cerr (sock_log s) a" "app_id a"] client(1)
    by (simp add: resp(1) app_maps_def)
  moreover have "app_id (?a s) = app_id a" "app_username (?a s) = app_username a"
    "m_user_input (console (?a s)) = m_user_input (console a)"
    by simp_all
  ultimately show ?thesis by blast
qed

lemma users_exchange:
  assumes codec: "packet_codec ser parse wf_packet"
    and resp: "r = users_packet (app_id a) (iter (user_map db))"
    and wf: "wf_packet (users_request (app_id a))" "wf_packet r"
    and fits: "length (ser (users_request (app_id a))) \<le> kClientBuffer" "length (ser r) \<le> kClientBuffer"
    and bufs: "length txb = kClientBuffer" "length rxb = kClientBuffer" "zero_from (length (ser r)) rxb"
    and client: "app_maps a" "iteration_order citer" "ConnOk \<in> set (conns net)"
      "accepts_all (length (ser (users_request (app_id a)))) (sends net)" "arrives_whole (ser r) (recvs net)"
    and server: "db_inv db" "userExists db (app_id a)" "iteration_order iter"
      "arrives_whole (ser (users_request (app_id a))) rx_evs" "accepts_all (length (ser r)) tx_evs"
  shows "\<exists>a' w. periodicGetOnlineUsers ser parse citer net (txb, rxb) a
      = Some (Inr (a', (ser (users_request (app_id a)) @ drop (length (ser (users_request (app_id a)))) txb, ser r @ drop (length (ser r)) rxb), ser (users_request (app_id a))))
    \<and> handleRequest ser parse debug iter d rx_evs tx_evs db = Some (Inr (w, ser r))
    \<and> shared_db w = db \<and> app_maps a' \<and> app_id a' = app_id a \<and> app_username a' = app_username a
    \<and> m_user_input (console a') = m_user_input (console a)
    \<and> dom (map_of (name_to_id a')) = name_in db ` (user_ids db - {app_id a})
    \<and> (\<forall>n i. map_of (name_to_id a') n = Some i \<longrightarrow> i \<in> user_ids db - {app_id a} \<and> name_in db i = n)"
proof -
  obtain w where w: "handleRequest ser parse debug iter d rx_evs tx_evs db = Some (Inr (w, ser r))"
    "shared_db w = db"
    using packet_codec.users_handled [OF codec wf(1) _ _ _ server(4) _ _ server(5), of "app_id a" db iter debug d]
      fits server(2)
    by (auto simp: resp users_request_def packet_accessors kBufferSize_def kClientBuffer_def)
  have "distinct (map fst (iter (user_map db)))"
    using iteration_order_map(1) [OF server(3)] server(1) by (simp add: db_inv_def)
  from users_answer [OF codec resp this wf(2) fits bufs client] obtain a' where
    "periodicGetOnlineUsers ser parse citer net (txb, rxb) a
      = Some (Inr (a', (ser (users_request (app_id a)) @ drop (length (ser (users_request (app_id a)))) txb, ser r @ drop (length (ser r)) rxb), ser (users_request (app_id a))))"
    "app_maps a'" "app_id a' = app_id a" "app_username a' = app_username a"
    "m_user_input (console a') = m_user_input (console a)"
    "map_of (name_to_id a') = last_named (others (app_id a) (iter (user_map db)))"
    by blast
  with last_named_others [OF server(1,3), of "app_id a"] w show ?thesis
    by (intro exI [of _ a'] exI [of _ w] conjI allI impI) simp_all
qed

section \<open>A small client\<close>

text \<open>A connection that comes up at the second attempt and delivers the given answers.\<close>

definition net_of :: "recv_ev list \<Rightarrow> Net" where
  "net_of answers = \<lparr>n_socket = 5, n_getfl = 0, n_setfl = 0, conns = [ConnErr EINPROGRESS, ConnOk],
     sends = [Sent 2, Sent 99], recvs = answers\<rparr>"

lemma example_requests:
  "register_request ''al'' = hello_packet" "users_request 0 = who_packet" "recv_request 0 = inbox_packet"
  by (simp_all add: register_request_def users_request_def recv_request_def hello_packet_def
      who_packet_def inbox_packet_def)

lemma example_replies_wf:
  "wf_wire (register_packet 0)"
  "wf_wire (users_packet 0 [(0, \<lparr>username = ''al'', msg_q = []\<rparr>), (1, \<lparr>username = ''bo'', msg_q = []\<rparr>)])"
proof -
  let ?u = "users_packet 0 [(0, \<lparr>username = ''al'', msg_q = []\<rparr>), (1, \<lparr>username = ''bo'', msg_q = []\<rparr>)]"
  have "wf_PacketType (packet_type (register_packet 0)) \<and> list_all ascii (packet_strings (register_packet 0))"
    "wf_PacketType (packet_type ?u) \<and> list_all ascii (packet_strings ?u)"
    by code_simp+
  then show "wf_wire (register_packet 0)" "wf_wire ?u"
    by (simp_all add: wf_wire_def example_replies)
qed

lemma app_maps_init: "app_maps App_init"
  by (simp add: app_maps_def App_init_def)

lemma net_of_sel:
  "ConnOk \<in> set (conns (net_of answers))" "recvs (net_of answers) = answers"
  "n \<le> 101 \<Longrightarrow> accepts_all n (sends (net_of answers))"
  by (simp_all add: net_of_def accepts_all_def accepts_def)

section \<open>Properties\<close>

text \<open>
  C7. Registration, from the keys the user types to the server's database and back: the
  client sends exactly the bytes the server receives, the server stores the typed
  name under its next id, and the client ends up with the name it asked for and the
  id the server assigned, without an error report from the checks.
\<close>

theorem register_end_to_end:
  assumes codec: "packet_codec ser parse wf_packet"
    and wf: "wf_packet (register_request (edit [] ks))" "wf_packet (register_packet (next_id db))"
    and fits: "length (ser (register_request (edit [] ks))) \<le> kClientBuffer"
      "length (ser (register_packet (next_id db))) \<le> kClientBuffer"
    and typed: "kNewLine \<notin> set ks" "m_user_input (console a) = []"
    and client: "ConnOk \<in> set (conns net)" "accepts_all (length (ser (register_request (edit [] ks)))) (sends net)"
      "arrives_whole (ser (register_packet (next_id db))) (recvs net)"
    and server: "arrives_whole (ser (register_request (edit [] ks))) rx_evs"
      "accepts_all (length (ser (register_packet (next_id db)))) tx_evs"
  shows "\<exists>a' w. App_registerUser ser parse (ks @ kNewLine # rest) net a
      = Some (Inr (a', rest, ser (register_request (edit [] ks))))
    \<and> handleRequest ser parse debug iter d rx_evs tx_evs db
      = Some (Inr (w, ser (register_packet (next_id db))))
    \<and> app_username a' = edit [] ks
    \<and> (shared_db w, app_id a') = registerUser db (edit [] ks)
    \<and> register_errors (register_packet (next_id db)) = []"
  using register_exchange [OF assms] by blast

theorem register_end_to_end_witness:
  "\<exists>a' w. App_registerUser wire_ser wire_parse [97, 108, 0x0A, 49] (net_of [Data [], Data [10, 2, 8, 4, 50, 4, 8, 0, 16, 0]]) App_init
      = Some (Inr (a', [49], [10, 2, 8, 0, 18, 4, 10, 2, 97, 108]))
    \<and> handleRequest wire_ser wire_parse (\<lambda>p. []) (\<lambda>es. es) 4 [Data [10, 2, 8, 0, 18, 4, 10, 2, 97, 108]] [Sent 99] Database_init
      = Some (Inr (w, [10, 2, 8, 4, 50, 4, 8, 0, 16, 0]))
    \<and> app_username a' = ''al'' \<and> (shared_db w, app_id a') = registerUser Database_init ''al''"
proof -
  have typed: "edit [] [97, 108] = ''al''" "kNewLine \<notin> set [97, 108]" "m_user_input (console App_init) = []"
    by (code_simp, simp_all add: kNewLine_def App_init_def Console_init_def)
  have id: "next_id Database_init = 0" by (simp add: Database_init_def)
  have arr: "arrives_whole bs [Data [], Data bs]" for bs
    unfolding arrives_whole_def by (rule exI [of _ "[Data []]"], rule exI [of _ "[]"]) simp
  have "\<exists>a' w. App_registerUser wire_ser wire_parse ([97, 108] @ kNewLine # [49])
        (net_of [Data [], Data (wire_ser (register_packet 0))]) App_init
      = Some (Inr (a', [49], wire_ser (register_request (edit [] [97, 108]))))
    \<and> handleRequest wire_ser wire_parse (\<lambda>p. []) (\<lambda>es. es) 4 [Data (wire_ser hello_packet)] [Sent 99] Database_init
      = Some (Inr (w, wire_ser (register_packet (next_id Database_init))))
    \<and> app_username a' = edit [] [97, 108]
    \<and> (shared_db w, app_id a') = registerUser Database_init (edit [] [97, 108])
    \<and> register_errors (register_packet (next_id Database_init)) = []"
    by (rule register_end_to_end [OF wire.packet_codec_axioms])
      (simp_all add: typed id example_requests example_packets_wf example_packets_ser example_replies
        example_replies_wf net_of_def kNewLine_def arr arrives_wholeI kClientBuffer_def accepts_all_def accepts_def)
  then show ?thesis
    by (auto simp: typed id example_requests example_packets_ser example_replies kNewLine_def)
qed

text \<open>
  One round of the online-users thread against the server: the client's map of names
  then holds a name exactly when another registered user has it, with the id of a
  user of that name; the map of ids is its inverse; the server's database is
  unchanged. Users who share a name share one entry.
\<close>

lemma users_end_to_end:
  assumes codec: "packet_codec ser parse wf_packet"
    and resp: "r = users_packet (app_id a) (iter (user_map db))"
    and wf: "wf_packet (users_request (app_id a))" "wf_packet r"
    and fits: "length (ser (users_request (app_id a))) \<le> kClientBuffer" "length (ser r) \<le> kClientBuffer"
    and bufs: "length txb = kClientBuffer" "length rxb = kClientBuffer" "zero_from (length (ser r)) rxb"
    and client: "app_maps a" "iteration_order citer" "ConnOk \<in> set (conns net)"
      "accepts_all (length (ser (users_request (app_id a)))) (sends net)" "arrives_whole (ser r) (recvs net)"
    and server: "db_inv db" "userExists db (app_id a)" "iteration_order iter"
      "arrives_whole (ser (users_request (app_id a))) rx_evs" "accepts_all (length (ser r)) tx_evs"
  shows "\<exists>a' bufs' w. periodicGetOnlineUsers ser parse citer net (txb, rxb) a
      = Some (Inr (a', bufs', ser (users_request (app_id a))))
    \<and> handleRequest ser parse debug iter d rx_evs tx_evs db = Some (Inr (w, ser r))
    \<and> shared_db w = db \<and> app_maps a'
    \<and> dom (map_of (name_to_id a')) = name_in db ` (user_ids db - {app_id a})
    \<and> (\<forall>n i. map_of (name_to_id a') n = Some i \<longrightarrow> i \<in> user_ids db - {app_id a} \<and> name_in db i = n)"
  using users_exchange [OF assms] by blast

lemma users_end_to_end_example:
  "\<exists>a' bufs'. periodicGetOnlineUsers wire_ser wire_parse (\<lambda>xs. xs)
        (net_of [Data [10, 2, 8, 5, 58, 10, 8, 0, 18, 6, 8, 1, 18, 2, 98, 111]])
        (replicate 1000 0, replicate 1000 0) App_init
      = Some (Inr (a', bufs', [10, 2, 8, 1, 26, 2, 8, 0]))
    \<and> dom (map_of (name_to_id a')) = {''bo''}"
proof -
  let ?db = "pair_db ''bo''"
  let ?es = "[(0, \<lparr>username = ''al'', msg_q = []\<rparr>), (1, \<lparr>username = ''bo'', msg_q = []\<rparr>)]"
  have a: "app_id App_init = 0" by (simp add: App_init_def)
  have db: "user_map ?db = ?es" "db_inv ?db" "userExists ?db 0" "name_in ?db ` (user_ids ?db - {0}) = {''bo''}"
  proof -
    show "user_map ?db = ?es" by (simp add: pair_db_eq)
    have "db_inv Database_init" by (simp add: db_inv_def Database_init_def user_ids_def)
    then show "db_inv ?db" by (simp add: pair_db_def db.inv_register)
  qed (simp_all add: pair_db_eq userExists_def name_in_def Database_at_def user_ids_def)
  have it: "iteration_order (\<lambda>xs. xs)" "iteration_order (\<lambda>xs. xs)"
    by (simp_all add: iteration_order_def)
  have "\<exists>a' bufs' w. periodicGetOnlineUsers wire_ser wire_parse (\<lambda>xs. xs)
        (net_of [Data (wire_ser (users_packet 0 ?es))]) (replicate kClientBuffer 0, replicate kClientBuffer 0) App_init
      = Some (Inr (a', bufs', wire_ser (users_request (app_id App_init))))
    \<and> handleRequest wire_ser wire_parse (\<lambda>p. []) (\<lambda>es. es) 4 [Data (wire_ser who_packet)] [Sent 99] ?db
      = Some (Inr (w, wire_ser (users_packet 0 ?es)))
    \<and> shared_db w = ?db \<and> app_maps a'
    \<and> dom (map_of (name_to_id a')) = name_in ?db ` (user_ids ?db - {app_id App_init})
    \<and> (\<forall>n i. map_of (name_to_id a') n = Some i \<longrightarrow> i \<in> user_ids ?db - {app_id App_init} \<and> name_in ?db i = n)"
    by (rule users_end_to_end [OF wire.packet_codec_axioms])
      (simp_all add: a db it example_requests example_packets_wf example_packets_ser example_replies
        example_replies_wf net_of_def arrives_wholeI app_maps_init kClientBuffer_def accepts_all_def accepts_def)
  then show ?thesis
    by (auto simp: a db example_requests example_packets_ser example_replies kClientBuffer_def)
qed

text \<open>
  C29. Messages never reach a user through these two programs: the server takes the
  client's receive request and closes the connection without an answer, and the
  client's thread then waits forever.
\<close>

theorem messages_never_arrive:
  assumes "packet_codec ser parse wf_packet" "wf_packet (recv_request (app_id a))"
    and "length (ser (recv_request (app_id a))) \<le> kClientBuffer" "length txb = kClientBuffer"
    and "accepts_all (length (ser (recv_request (app_id a)))) (sends net)"
    and "recvs net = replicate n (Data [])"
    and "arrives_whole (ser (recv_request (app_id a))) rx_evs"
  shows "(\<exists>w. handleRequest ser parse debug iter d rx_evs tx_evs db = Some (Inr (w, [])) \<and> shared_db w = db)
    \<and> periodicGetMessages ser parse net (txb, rxb) a = None"
proof -
  let ?p = "recv_request (app_id a)"
  have hdr: "hdr ?p \<noteq> None" and len: "length (ser ?p) \<le> kBufferSize"
    using assms(3) by (simp_all add: recv_request_def packet_accessors kBufferSize_def kClientBuffer_def)
  have "dispatch ser iter ?p (start_worker ?p db) = (start_worker ?p db, 0)"
    by (simp add: dispatch_def recv_request_def packet_accessors)
  from packet_codec.handleRequest_silent [OF assms(1,7,2) hdr len this, of debug d tx_evs]
  have "\<exists>w. handleRequest ser parse debug iter d rx_evs tx_evs db = Some (Inr (w, [])) \<and> shared_db w = db"
    by simp
  moreover have "periodicGetMessages ser parse net (txb, rxb) a = None"
    using transact_waits [of ser ?p txb net n parse] assms(3-6)
    by (simp add: periodicGetMessages_def split: option.splits)
  ultimately show ?thesis ..
qed

theorem messages_never_arrive_witness:
  "periodicGetMessages wire_ser wire_parse (net_of (replicate 500 (Data [])))
     (replicate kClientBuffer 0, replicate kClientBuffer 0) App_init = None"
proof -
  have "app_id App_init = 0" by (simp add: App_init_def)
  then show ?thesis
    using messages_never_arrive [OF wire.packet_codec_axioms, of App_init "replicate kClientBuffer 0"
        "net_of (replicate 500 (Data []))" 500 "[Data (wire_ser inbox_packet)]"]
    by (simp add: example_requests example_packets_wf example_packets_ser net_of_sel arrives_wholeI kClientBuffer_def)
qed

text \<open>
  C28. A request longer than the client's 1000-byte buffer, here a chat message, is not
  serialised, and the client then sends memory past the end of the buffer.
\<close>

theorem chat_message_overruns:
  assumes "Console_read (''Send message to '' @ target @ ''>'') keys (console a) = Some (c, m, rest)" "m \<noteq> ''x''"
    and "map_of (name_to_id a) target = Some i" "ConnOk \<in> set (conns net)" "sends net \<noteq> []"
    and "length (fst bufs) < length (ser (send_request (app_id a) i m))"
  shows "chat_loop ser parse target keys (net # nets) bufs a sent_bytes = Some (Inl OutOfBounds)"
proof -
  obtain s where s: "connect_server net = Some s"
    using connect_server_ok [OF assms(4)] by blast
  have "transact ser parse (send_request (app_id a) i m) s net (fst bufs) (snd bufs) = Some (Inl OutOfBounds)"
    by (rule transact_overruns) (use assms(5,6) in auto)
  then show ?thesis
    using assms(1-3) s by (simp add: chat_loop.simps [of _ _ _ keys] name_to_id_ref_def Let_def)
qed

lemma send_request_length: "length m \<le> length (wire_ser (send_request i j m))"
proof -
  let ?r = "\<lparr>send_source_id = Some i, send_target_id = Some j, send_message = Some m\<rparr>"
  have "length (bytes_of_string m) \<le> length (enc_fields (RequestSend_fields ?r))"
    by (rule enc_fields_contains [of 3]) (simp add: RequestSend_fields_def put_string_def)
  also have "\<dots> \<le> length (wire_ser (send_request i j m))"
    unfolding wire_ser_def
    by (rule enc_fields_contains [of 4]) (simp add: Packet_fields_def send_request_def put_msg_def)
  finally show ?thesis by simp
qed

theorem chat_message_overruns_witness:
  "chat_loop wire_ser wire_parse ''bo'' (replicate 1001 104 @ [kNewLine]) [net_of []]
     (replicate 1000 0, replicate 1000 0) (App_init\<lparr>name_to_id := [(''bo'', 1)]\<rparr>) [] = Some (Inl OutOfBounds)"
proof -
  let ?a = "App_init\<lparr>name_to_id := [(''bo'', 1)]\<rparr>"
  let ?m = "edit [] (replicate 1001 104)"
  have "length (foldl (\<lambda>line k. if k = kDelete then butlast line else line @ [char_cast k]) l (replicate n 104))
      = length l + n" for n l
    by (induction n arbitrary: l) (simp_all add: kDelete_def)
  then have m: "length ?m = 1001" by (simp add: edit_def)
  obtain c where "Console_read (''Send message to '' @ ''bo'' @ ''>'') (replicate 1001 104 @ kNewLine # []) (console ?a)
      = Some (c, ?m, [])"
    using read_loop_eq [of "replicate 1001 104" "[]" "read_start (''Send message to '' @ ''bo'' @ ''>'') (console ?a)"]
    by (auto simp: Console_read_def kNewLine_def read_start_def App_init_def Console_init_def)
  then show ?thesis
    using m send_request_length [of ?m "app_id ?a" 1]
    by (intro chat_message_overruns [where i = 1]) (auto simp: net_of_def App_init_def)
qed

text \<open>
  C18. Incoming messages, when a server does answer with a list of them that arrives whole and
  fits the buffer, and prompt, input and messages are plain text (no newline, carriage return
  or backspace): every message of the answer appears on a line of its own above the
  prompt, in order, headed by the name the client's map of ids holds for the sender and \<open>> \<close>,
  or by \<open>Unknown sender > \<close> when it holds none, and the prompt and the half-typed input
  stay the last line.
\<close>

theorem messages_shown:
  assumes codec: "packet_codec ser parse wf_packet"
    and resp: "r = (Packet_of_type PACKET_TYPE_RESP_RECV)\<lparr>resp_recv :=
      Some \<lparr>recv_resp_value = Some 0, recv_messages = ums\<rparr>\<rparr>" "wf_packet r"
    and fits: "length (ser (recv_request (app_id a))) \<le> length txb" "length (ser r) \<le> length rxb"
      "zero_from (length (ser r)) rxb"
    and client: "ConnOk \<in> set (conns net)" "accepts_all (length (ser (recv_request (app_id a)))) (sends net)"
      "arrives_whole (ser r) (recvs net)"
    and headed: "texts = map (\<lambda>um. (case map_of (id_to_name a) (get_or 0 (um_user_id um)) of
        Some name \<Rightarrow> name @ ''> '' | None \<Rightarrow> ''Unknown sender > '') @ get_or [] (um_message um)) ums"
    and shown: "prompt_last (console a)" "plain (m_prompt (console a) @ m_user_input (console a))"
      "list_all plain texts"
  shows "\<exists>a' bufs' ks. periodicGetMessages ser parse net (txb, rxb) a
      = Some (Inr (a', bufs', ser (recv_request (app_id a))))
    \<and> prompt_last (console a') \<and> m_user_input (console a') = m_user_input (console a)
    \<and> length ks = length ums
    \<and> history (screen (console a')) = history (screen (console a))
        @ map2 (\<lambda>text k. text @ replicate k (CHR '' '')) texts ks"
proof -
  obtain s where s: "connect_server net = Some s"
    using connect_server_ok [OF client(1)] by blast
  have hdr: "hdr r \<noteq> None" by (simp add: resp packet_accessors)
  have ums: "recv_messages (get_resp_recv r) = ums"
    by (simp add: resp packet_accessors)
  have texts: "texts = map (message_line (id_to_name a)) ums"
    by (simp add: headed message_line_def)
  let ?a = "add_cerr (sock_log s) a"
  let ?a' = "print_messages ums ?a"
  have "\<exists>bufs'. periodicGetMessages ser parse net (txb, rxb) a
      = Some (Inr (?a', bufs', ser (recv_request (app_id a))))"
    using packet_codec.transact_answered [OF codec fits(1) client(2,3) resp(2) hdr fits(2,3)]
    by (simp add: periodicGetMessages_def s ums Let_def)
  moreover have "\<exists>ks. prompt_last (console ?a') \<and> m_user_input (console ?a') = m_user_input (console ?a)
    \<and> length ks = length ums
    \<and> history (screen (console ?a')) = history (screen (console ?a))
        @ map2 (\<lambda>um k. message_line (id_to_name ?a) um @ replicate k (CHR '' '')) ums ks"
    by (rule write_messages) (use shown in \<open>simp_all add: texts list.pred_map comp_def\<close>)
  moreover have "map2 (\<lambda>text k. text @ replicate k (CHR '' '')) texts ks
      = map2 (\<lambda>um k. message_line (id_to_name ?a) um @ replicate k (CHR '' '')) ums ks" for ks
    by (simp add: texts zip_map1 comp_def case_prod_unfold)
  ultimately show ?thesis by (simp only: add_cerr_sel) blast
qed

theorem messages_shown_witness:
  "\<exists>a' bufs' j k. periodicGetMessages wire_ser wire_parse
        (net_of [Data [10, 2, 8, 7, 74, 18, 8, 0, 18, 6, 8, 1, 18, 2, 121, 111, 18, 6, 8, 2, 18, 2, 104, 105]])
        (replicate 100 0, replicate 100 0) (App_init\<lparr>console := typing, id_to_name := [(1, ''bo'')]\<rparr>)
      = Some (Inr (a', bufs', [10, 2, 8, 3, 42, 2, 8, 0]))
    \<and> prompt_last (console a') \<and> m_user_input (console a') = ''h''
    \<and> history (screen (console a')) = history (screen typing)
        @ [''bo> yo'' @ replicate j (CHR '' ''), ''Unknown sender > hi'' @ replicate k (CHR '' '')]"
proof -
  let ?ums = "[\<lparr>um_user_id = Some 1, um_message = Some ''yo''\<rparr>, \<lparr>um_user_id = Some 2, um_message = Some ''hi''\<rparr>]"
  let ?r = "(Packet_of_type PACKET_TYPE_RESP_RECV)\<lparr>resp_recv := Some \<lparr>recv_resp_value = Some 0, recv_messages = ?ums\<rparr>\<rparr>"
  let ?a = "App_init\<lparr>console := typing, id_to_name := [(1, ''bo'')]\<rparr>"
  have ser: "wire_ser ?r = [10, 2, 8, 7, 74, 18, 8, 0, 18, 6, 8, 1, 18, 2, 121, 111, 18, 6, 8, 2, 18, 2, 104, 105]"
    by code_simp
  have "wf_PacketType (packet_type ?r) \<and> list_all ascii (packet_strings ?r)"
    by code_simp
  then have wf: "wf_wire ?r" by (simp add: wf_wire_def ser)
  have a: "app_id ?a = 0" "console ?a = typing" "id_to_name ?a = [(1, ''bo'')]"
    by (simp_all add: App_init_def)
  have fits: "length (wire_ser (recv_request (app_id ?a))) \<le> length (replicate 100 (0 :: byte))"
    "length (wire_ser ?r) \<le> length (replicate 100 (0 :: byte))" "zero_from (length (wire_ser ?r)) (replicate 100 0)"
    by (simp_all add: a(1) ser example_requests example_packets_ser)
  have net: "ConnOk \<in> set (conns (net_of [Data (wire_ser ?r)]))"
    "accepts_all (length (wire_ser (recv_request (app_id ?a)))) (sends (net_of [Data (wire_ser ?r)]))"
    "arrives_whole (wire_ser ?r) (recvs (net_of [Data (wire_ser ?r)]))"
    unfolding a(1) by (simp_all add: net_of_sel example_requests example_packets_ser arrives_wholeI)
  have texts: "[''bo> yo'', ''Unknown sender > hi''] = map (\<lambda>um. (case map_of (id_to_name ?a) (get_or 0 (um_user_id um)) of
        Some name \<Rightarrow> name @ ''> '' | None \<Rightarrow> ''Unknown sender > '') @ get_or [] (um_message um)) ?ums"
    unfolding a(3) by simp
  have shown: "prompt_last (console ?a)" "plain (m_prompt (console ?a) @ m_user_input (console ?a))"
    "list_all plain [''bo> yo'', ''Unknown sender > hi'']"
    unfolding a using typing_shown
    by simp_all (simp add: newline_def carriage_return_def backspace_def)
  from messages_shown [OF wire.packet_codec_axioms refl wf fits net texts shown]
  obtain a' bufs' ks where r: "periodicGetMessages wire_ser wire_parse (net_of [Data (wire_ser ?r)])
        (replicate 100 0, replicate 100 0) ?a = Some (Inr (a', bufs', wire_ser (recv_request (app_id ?a))))"
    "prompt_last (console a')" "m_user_input (console a') = m_user_input (console ?a)" "length ks = length ?ums"
    "history (screen (console a')) = history (screen (console ?a))
        @ map2 (\<lambda>text k. text @ replicate k (CHR '' '')) [''bo> yo'', ''Unknown sender > hi''] ks"
    by (elim exE conjE) (rule that, assumption+)
  obtain j k where "ks = [j, k]" using r(4) by (auto simp: length_Suc_conv)
  with r show ?thesis
    unfolding a ser by (intro exI [of _ a'] exI [of _ bufs'] exI [of _ j] exI [of _ k])
      (simp add: typing_out example_requests example_packets_ser)
qed

end
