(* ===== verification/System.thy ===== *)
theory System
  imports App_Protocol "HOL-Library.Sublist"
begin

text \<open>
  The server program and any number of client programs together: a step relation on the
  server's database and the clients' states. A step is one exchange between a client and
  the server (a registration, a round of the online-users thread), a command of a
  client, or a request of an unknown sender that the server handles whatever arrives.
  The operations are those of theories \<open>App\<close> and \<open>Server_App\<close>, joined by the bytes. The
  invariant says what the programs together keep true.
\<close>

section \<open>State and steps\<close>

text \<open>
  A client: its members, the transmit and receive buffer of its online-users thread, and
  whether its registration has returned.
\<close>

record Client =
  capp :: App
  cbufs :: "bytes \<times> bytes"
  online :: bool

record System =
  sdb :: Database
  sclients :: "Client list"

definition Client_init :: Client where
  "Client_init = \<lparr>capp = App_init, cbufs = (replicate kClientBuffer 0, replicate kClientBuffer 0), online = False\<rparr>"

definition System_init :: "nat \<Rightarrow> System" where
  "System_init n = \<lparr>sdb = Database_init, sclients = replicate n Client_init\<rparr>"

text \<open>
  A connection that works: it comes up, both sides accept what is sent, and request and
  response, which fit the client's buffers, arrive in one piece each.
\<close>

definition link_ok :: "bytes \<Rightarrow> bytes \<Rightarrow> Net \<Rightarrow> recv_ev list \<Rightarrow> send_ev list \<Rightarrow> bool" where
  "link_ok req resp net rx_evs tx_evs \<longleftrightarrow>
     length req \<le> kClientBuffer \<and> length resp \<le> kClientBuffer \<and> ConnOk \<in> set (conns net) \<and>
     accepts_all (length req) (sends net) \<and> arrives_whole req rx_evs \<and>
     accepts_all (length resp) tx_evs \<and> arrives_whole resp (recvs net)"

text \<open>A connection on which no answer comes.\<close>

definition silent :: "Net \<Rightarrow> bool" where
  "silent net \<longleftrightarrow> list_all recv_retry (recvs net) \<and> arrives (recvs net) = []"

text \<open>
  \<open>iter\<close> and \<open>citer\<close> are the iteration orders of the server's and the client's maps, which may
  be different in every step. The exchanges of the clients are those that go well (\<open>link_ok\<close>):
  \<^verbatim>\<open>app.cpp\<close> also returns on a failed or split answer and on one of 1001 to 1024 bytes,
  of which it parses the first 1000 (\<open>long_answer_cut\<close>); these are not steps here. For a
  request of an unknown sender there is no such restriction. Nobody registers when all \<open>2 ^ 32\<close> ids are taken. The requests
  to send a message that a command makes are never answered (\<open>messages_never_arrive\<close>), so
  that it has returned only when it has not sent any.
\<close>

inductive sys_step ::
    "(Packet \<Rightarrow> bytes) \<Rightarrow> (bytes \<Rightarrow> Packet) \<Rightarrow> (Packet \<Rightarrow> bool) \<Rightarrow> System \<Rightarrow> System \<Rightarrow> bool"
  for ser parse wf_packet where
  sys_register: "c < length (sclients s) \<Longrightarrow> \<not> online (sclients s ! c) \<Longrightarrow> \<not> db_full (sdb s) \<Longrightarrow>
     kNewLine \<notin> set ks \<Longrightarrow> wf_packet (register_request (edit [] ks)) \<Longrightarrow> wf_packet (register_packet (next_id (sdb s))) \<Longrightarrow>
     link_ok (ser (register_request (edit [] ks))) (ser (register_packet (next_id (sdb s)))) net rx_evs tx_evs \<Longrightarrow>
     App_registerUser ser parse (ks @ kNewLine # keys) net (capp (sclients s ! c)) = Some (Inr (a, keys', req)) \<Longrightarrow>
     handleRequest ser parse debug iter d rx_evs tx_evs (sdb s) = Some (Inr (w, resp)) \<Longrightarrow>
     sys_step ser parse wf_packet s
       \<lparr>sdb = shared_db w, sclients = (sclients s)[c := (sclients s ! c)\<lparr>capp := a, online := True\<rparr>]\<rparr>"
| sys_users: "c < length (sclients s) \<Longrightarrow> online (sclients s ! c) \<Longrightarrow>
     iteration_order iter \<Longrightarrow> iteration_order citer \<Longrightarrow> i = app_id (capp (sclients s ! c)) \<Longrightarrow>
     wf_packet (users_request i) \<Longrightarrow> wf_packet (users_packet i (iter (user_map (sdb s)))) \<Longrightarrow>
     link_ok (ser (users_request i)) (ser (users_packet i (iter (user_map (sdb s))))) net rx_evs tx_evs \<Longrightarrow>
     periodicGetOnlineUsers ser parse citer net (cbufs (sclients s ! c)) (capp (sclients s ! c))
       = Some (Inr (a, bufs, req)) \<Longrightarrow>
     handleRequest ser parse debug iter d rx_evs tx_evs (sdb s) = Some (Inr (w, resp)) \<Longrightarrow>
     sys_step ser parse wf_packet s
       \<lparr>sdb = shared_db w, sclients = (sclients s)[c := (sclients s ! c)\<lparr>capp := a, cbufs := bufs\<rparr>]\<rparr>"
| sys_command: "c < length (sclients s) \<Longrightarrow> online (sclients s ! c) \<Longrightarrow> list_all silent nets \<Longrightarrow>
     run_command ser parse citer keys nets (capp (sclients s ! c)) = Some (Inr (a, keys', wire)) \<Longrightarrow>
     sys_step ser parse wf_packet s (s\<lparr>sclients := (sclients s)[c := (sclients s ! c)\<lparr>capp := a\<rparr>]\<rparr>)"
| sys_stranger: "\<not> db_full (sdb s) \<Longrightarrow>
     handleRequest ser parse debug iter d rx_evs tx_evs (sdb s) = Some (Inr (w, resp)) \<Longrightarrow>
     sys_step ser parse wf_packet s (s\<lparr>sdb := shared_db w\<rparr>)"

inductive sys_reachable ::
    "(Packet \<Rightarrow> bytes) \<Rightarrow> (bytes \<Rightarrow> Packet) \<Rightarrow> (Packet \<Rightarrow> bool) \<Rightarrow> System \<Rightarrow> bool"
  for ser parse wf_packet where
  sys_init: "sys_reachable ser parse wf_packet (System_init n)"
| sys_next: "sys_reachable ser parse wf_packet s \<Longrightarrow> sys_step ser parse wf_packet s s' \<Longrightarrow>
     sys_reachable ser parse wf_packet s'"

section \<open>Commands keep the maps\<close>

definition same_user :: "App \<Rightarrow> App \<Rightarrow> bool" where
  "same_user a b \<longleftrightarrow> name_to_id b = name_to_id a \<and> id_to_name b = id_to_name a \<and>
     app_id b = app_id a \<and> app_username b = app_username a"

lemma same_user_refl [simp]: "same_user a a"
  by (simp add: same_user_def)

lemma same_user_trans: "same_user a b \<Longrightarrow> same_user b c \<Longrightarrow> same_user a c"
  by (simp add: same_user_def)

lemma same_user_updates [simp]:
  "same_user a (b\<lparr>console := c\<rparr>) \<longleftrightarrow> same_user a b" "same_user a (write_line l b) \<longleftrightarrow> same_user a b"
  "same_user (b\<lparr>console := c\<rparr>) a \<longleftrightarrow> same_user b a" "same_user (write_line l b) a \<longleftrightarrow> same_user b a"
  by (simp_all add: same_user_def)

lemma getUserCommand_loop_same: "getUserCommand_loop keys a = Some (a', cmd, rest) \<Longrightarrow> same_user a a'"
proof (induction keys a rule: getUserCommand_loop.induct)
  case (1 keys a)
  obtain c line ks where read: "Console_read cmd_prompt keys (console a) = Some (c, line, ks)"
    using "1.prems" by (auto simp: getUserCommand_loop.simps [of keys] split: option.splits)
  let ?bad = "length line = 0 \<or> 1 < length line \<or> map_of cmd_map (line ! 0) = None"
  show ?case
  proof (cases ?bad)
    case True
    have "getUserCommand_loop keys a
        = getUserCommand_loop ks (write_line ''Invalid selection, try again'' (a\<lparr>console := c\<rparr>))"
      unfolding getUserCommand_loop.simps [of keys] using True by (simp add: read)
    then show ?thesis
      using "1.IH" [OF read refl _ refl True] "1.prems" by simp
  next
    case False
    then obtain cmd where "map_of cmd_map (line ! 0) = Some cmd" by auto
    with False have "getUserCommand_loop keys a = Some (a\<lparr>console := c\<rparr>, cmd, ks)"
      unfolding getUserCommand_loop.simps [of keys] by (simp add: read Let_def)
    then show ?thesis
      using "1.prems" by auto
  qed
qed

lemma getUserCommand_same: "getUserCommand keys a = Some (a', cmd, rest) \<Longrightarrow> same_user a a'"
  using getUserCommand_loop_same by (fastforce simp: getUserCommand_def Let_def)

lemma transact_silent:
  "silent net \<Longrightarrow> transact ser parse req s net txb rxb \<noteq> Some (Inr x)"
  by (auto simp: transact_def silent_def recv_poll_starves Let_def split: option.splits sum.splits)

lemma name_to_id_ref_known:
  "map_of (name_to_id a) name \<noteq> None \<Longrightarrow> name_to_id_ref name a = (a, the (map_of (name_to_id a) name))"
  by (auto simp: name_to_id_ref_def)

text \<open>Nothing is sent that returns: the dialogue ends when the user leaves it.\<close>

lemma chat_loop_same:
  assumes "list_all silent nets" "chat_loop ser parse target keys nets bufs a wire = Some (Inr (a', rest, wire'))"
  shows "same_user a a'"
proof -
  obtain c m ks where read: "Console_read (''Send message to '' @ target @ ''>'') keys (console a) = Some (c, m, ks)"
    using assms(2) by (auto simp: chat_loop.simps [of _ _ _ keys] split: option.splits)
  show ?thesis
  proof (cases "m = ''x''")
    case True
    then show ?thesis
      using assms(2) unfolding chat_loop.simps [of _ _ _ keys] read by auto
  next
    case False
    then show ?thesis
      using assms transact_silent unfolding chat_loop.simps [of _ _ _ keys] read
      by (cases nets) (auto simp: Let_def split: option.splits prod.splits sum.splits)
  qed
qed

lemma select_target_same: "select_target keys a = Some (a', t, rest) \<Longrightarrow> same_user a a'"
proof (induction keys a rule: select_target.induct)
  case (1 keys a)
  obtain c line ks where read: "Console_read target_prompt keys (console a) = Some (c, line, ks)"
    using "1.prems" by (auto simp: select_target.simps [of keys] split: option.splits)
  show ?case
  proof (cases "line \<noteq> ''x'' \<and> map_of (name_to_id a) line = None")
    case True
    then have "select_target keys a
        = select_target ks (write_line ''Error,  user not available'' (a\<lparr>console := c\<rparr>))"
      by (simp add: select_target.simps [of keys] read)
    with "1.IH" [OF read refl _ refl] True "1.prems" show ?thesis by simp
  next
    case False
    with "1.prems" show ?thesis
      by (auto simp: select_target.simps [of keys] read Let_def split: if_splits)
  qed
qed

lemma printOnlineUsers_same: "same_user a (printOnlineUsers iter a)"
  by (simp add: same_user_def)

lemma run_command_same:
  assumes "list_all silent nets" "run_command ser parse iter keys nets a = Some (Inr (a', keys', wire))"
  shows "same_user a a'"
proof -
  obtain a1 cmd ks where cmd: "getUserCommand keys a = Some (a1, cmd, ks)"
    using assms(2) by (auto simp: run_command_def split: option.splits)
  then have "same_user a a1" by (rule getUserCommand_same)
  moreover have "same_user a1 a'"
  proof (cases cmd)
    case kDisplayOnlineUsers
    then show ?thesis
      using assms(2) printOnlineUsers_same by (auto simp: run_command_def cmd)
  next
    case kChatWithUser
    then have chat: "taskChatWithUser ser parse ks nets a1 = Some (Inr (a', keys', wire))"
      using assms(2) by (simp add: run_command_def cmd)
    then obtain a2 t rest where sel: "select_target ks a1 = Some (a2, t, rest)"
      by (auto simp: taskChatWithUser_def split: option.splits)
    then have "same_user a1 a2" by (rule select_target_same)
    moreover have "same_user a2 a'"
      using chat chat_loop_same [OF assms(1)] by (auto simp: taskChatWithUser_def sel split: option.splits)
    ultimately show ?thesis by (rule same_user_trans)
  qed
  ultimately show ?thesis by (rule same_user_trans)
qed

section \<open>What a chat sends\<close>

text \<open>
  The keys of lines typed one after the other. Every message of a chat is on the wire as a send
  request from the client to the id the chosen name has in the map: a prefix of the
  request whatever the system calls return, and the whole of it when \<^verbatim>\<open>send\<close> reports no
  error. The chat has ended at the first line \<open>x\<close>, or with an answer without a response value.
\<close>

definition typed_lines :: "int list list \<Rightarrow> int list" where
  "typed_lines kss = concat (map (\<lambda>ks. ks @ [kNewLine]) kss)"

lemma typed_lines_simps [simp]:
  "typed_lines [] = []" "typed_lines (ks # kss) = ks @ kNewLine # typed_lines kss"
  by (simp_all add: typed_lines_def)

lemma Console_read_no_keys [simp]: "Console_read prompt [] c = None"
  by (simp add: Console_read_def)

lemma sendB_loop_error_free:
  assumes "target \<le> length buf" "list_all send_retry evs"
    and "sendB_loop evs s buf target cnt wire = Some (Inr (s', ok, wire', evs'))"
  shows ok
  using assms(2,3)
proof (induction evs arbitrary: cnt wire)
  case Nil
  then show ?case by (cases "cnt < target") auto
next
  case (Cons ev evs)
  then show ?case
    using assms(1) by (cases "cnt < target"; cases ev) auto
qed

lemma sendB_error_free:
  assumes "target \<le> length buf" "list_all send_retry evs" "sendB evs s buf target = Some (Inr (s', ok, wire, evs'))"
  shows "wire = take target buf"
proof -
  have ok
    by (rule sendB_loop_error_free [OF assms(1,2)]) (use assms(3) in \<open>simp add: sendB_def\<close>)
  then show ?thesis
    using sendB_sends_prefix [OF assms(1,3)] by auto
qed

lemma transact_sends:
  assumes "transact ser parse req s net txb rxb = Some (Inr x)"
  shows "prefix (on_wire x) (ser req) \<and> (list_all send_retry (sends net) \<longrightarrow> on_wire x = ser req)"
proof -
  let ?tx = "fst (SerializeToArray ser req txb)"
  obtain s' ok wire evs where send: "sendB (sends net) s ?tx (length (ser req)) = Some (Inr (s', ok, wire, evs))"
    "on_wire x = wire"
    using assms by (auto simp: transact_def ByteSizeLong_def Let_def split: option.splits sum.splits)
  show ?thesis
  proof (cases "length (ser req) \<le> length txb")
    case True
    then have tx: "take (length (ser req)) ?tx = ser req" and len: "length (ser req) \<le> length ?tx"
      by (simp_all add: SerializeToArray_def)
    obtain n where "n \<le> length (ser req)" "wire = take n ?tx"
      using sendB_sends_prefix [OF len send(1)] by blast
    then have "wire = take n (ser req)"
      using tx by (metis min.absorb1 take_take)
    then show ?thesis
      using sendB_error_free [OF len _ send(1)] tx by (auto simp: send(2) take_is_prefix)
  next
    case False
    then have "0 < length (ser req)" "length ?tx < length (ser req)" by (simp_all, force)
    then have "sendB (sends net) s ?tx (length (ser req)) \<noteq> Some (Inr y)" for y
      using sendB_reads_past_buffer [of ?tx "length (ser req)" "sends net" s]
      by (cases "sends net = []") (simp_all only: sendB_def sendB_loop_Nil, simp_all)
    with send(1) show ?thesis by blast
  qed
qed

definition sent_as :: "(Packet \<Rightarrow> bytes) \<Rightarrow> user_id_t \<Rightarrow> user_id_t \<Rightarrow> Net \<Rightarrow> int list \<Rightarrow> bytes \<Rightarrow> bool" where
  "sent_as ser src trgt net ks part \<longleftrightarrow> edit [] ks \<noteq> ''x'' \<and>
     prefix part (ser (send_request src trgt (edit [] ks))) \<and>
     (list_all send_retry (sends net) \<longrightarrow> part = ser (send_request src trgt (edit [] ks)))"

definition chat_sent ::
    "(Packet \<Rightarrow> bytes) \<Rightarrow> user_id_t \<Rightarrow> user_id_t \<Rightarrow> Net list \<Rightarrow> int list list \<Rightarrow> int list \<Rightarrow> int list \<Rightarrow> bytes \<Rightarrow> bool" where
  "chat_sent ser src trgt nets kss tail rest wire \<longleftrightarrow>
     (\<exists>parts. length parts \<le> length kss \<and> length parts \<le> length nets \<and> wire = concat parts \<and>
        (\<forall>j < length parts. sent_as ser src trgt (nets ! j) (kss ! j) (parts ! j)) \<and>
        (length parts < length kss \<and> edit [] (kss ! length parts) = ''x'' \<and>
           rest = typed_lines (drop (Suc (length parts)) kss) @ tail
         \<or> parts \<noteq> [] \<and> rest = typed_lines (drop (length parts) kss) @ tail))"

lemma chat_sent_exit: "edit [] ks = ''x'' \<Longrightarrow> chat_sent ser src trgt nets (ks # kss) tail (typed_lines kss @ tail) []"
  unfolding chat_sent_def by (rule exI [of _ "[]"]) simp

lemma chat_sent_last:
  "sent_as ser src trgt net ks part \<Longrightarrow> chat_sent ser src trgt (net # nets) (ks # kss) tail (typed_lines kss @ tail) part"
  unfolding chat_sent_def by (rule exI [of _ "[part]"]) simp

lemma chat_sent_more:
  assumes "sent_as ser src trgt net ks part" "chat_sent ser src trgt nets kss tail rest wire"
  shows "chat_sent ser src trgt (net # nets) (ks # kss) tail rest (part @ wire)"
proof -
  obtain parts where "length parts \<le> length kss \<and> length parts \<le> length nets \<and> wire = concat parts \<and>
      (\<forall>j < length parts. sent_as ser src trgt (nets ! j) (kss ! j) (parts ! j)) \<and>
      (length parts < length kss \<and> edit [] (kss ! length parts) = ''x'' \<and>
         rest = typed_lines (drop (Suc (length parts)) kss) @ tail
       \<or> parts \<noteq> [] \<and> rest = typed_lines (drop (length parts) kss) @ tail)"
    using assms(2) by (auto simp: chat_sent_def)
  with assms(1) show ?thesis
    unfolding chat_sent_def by (intro exI [of _ "part # parts"]) (auto simp: nth_Cons split: nat.splits)
qed

lemma chat_loop_sends:
  assumes "chat_loop ser parse target (typed_lines kss @ tail) nets bufs a wire = Some (Inr (a', rest, wire'))"
    and "map_of (name_to_id a) target = Some i" "m_user_input (console a) = []"
    and "list_all (\<lambda>ks. kNewLine \<notin> set ks) kss" "kNewLine \<notin> set tail"
  shows "\<exists>sent. wire' = wire @ sent \<and> chat_sent ser (app_id a) i nets kss tail rest sent"
  using assms(1-4)
proof (induction kss arbitrary: nets bufs a wire)
  case Nil
  then show ?case
    using read_loop_open [OF assms(5)] by (simp add: chat_loop.simps [of _ _ _ tail] Console_read_def)
next
  case (Cons ks kss)
  let ?m = "edit [] ks" and ?keys = "ks @ kNewLine # typed_lines kss @ tail"
  have "kNewLine \<notin> set ks" using Cons.prems(4) by simp
  from Console_read_line [OF this Cons.prems(3), of "''Send message to '' @ target @ ''>''" "typed_lines kss @ tail"]
  obtain c where read: "Console_read (''Send message to '' @ target @ ''>'') ?keys (console a) = Some (c, ?m, typed_lines kss @ tail)"
    "m_user_input c = []" by auto
  let ?a = "a\<lparr>console := c\<rparr>"
  have keys: "typed_lines (ks # kss) @ tail = ?keys" by simp
  note loop = Cons.prems(1) [unfolded keys chat_loop.simps [of _ _ _ ?keys] read(1)]
  show ?case
  proof (cases "?m = ''x''")
    case True
    then show ?thesis
      using loop chat_sent_exit by auto
  next
    case False
    have ref: "name_to_id_ref target ?a = (?a, i)"
      using Cons.prems(2) by (simp add: name_to_id_ref_def)
    obtain net nets' s x where net: "nets = net # nets'" "connect_server net = Some s"
      "transact ser parse (send_request (app_id a) i ?m) s net (fst bufs) (snd bufs) = Some (Inr x)"
      using loop False by (auto simp: ref split: list.splits option.splits sum.splits)
    have sent: "sent_as ser (app_id a) i net ks (on_wire x)"
      using transact_sends [OF net(3)] False by (simp add: sent_as_def)
    show ?thesis
    proof (cases "send_resp_value (get_resp_send (resp_packet x))")
      case None
      then have "wire' = wire @ on_wire x" "rest = typed_lines kss @ tail"
        using loop False by (simp_all add: ref net)
      then show ?thesis
        using chat_sent_last [OF sent] by (simp add: net(1))
    next
      case (Some v)
      let ?a2 = "write_line (send_report v) (add_cerr (sock_errs x) ?a)"
      have "chat_loop ser parse target (typed_lines kss @ tail) nets' (tx_buf x, rx_buf x) ?a2 (wire @ on_wire x)
          = Some (Inr (a', rest, wire'))"
        using loop False Some by (simp add: ref net)
      from Cons.IH [OF this] obtain sent' where "wire' = (wire @ on_wire x) @ sent'"
        "chat_sent ser (app_id a) i nets' kss tail rest sent'"
        using Cons.prems(2,4) read(2) by auto
      then show ?thesis
        using chat_sent_more [OF sent] by (auto simp: net(1))
    qed
  qed
qed

text \<open>The dialogue for the partner leaves nothing half typed.\<close>

lemma read_loop_clears: "read_loop keys c = Some (c', line, rest) \<Longrightarrow> m_user_input c' = []"
  by (induction keys arbitrary: c) (auto simp: read_char_def Let_def split: if_splits)

lemma select_target_clears: "select_target keys a = Some (a', t, rest) \<Longrightarrow> m_user_input (console a') = []"
proof (induction keys a rule: select_target.induct)
  case (1 keys a)
  obtain c line ks where read: "Console_read target_prompt keys (console a) = Some (c, line, ks)"
    using "1.prems" by (auto simp: select_target.simps [of keys] split: option.splits)
  then have clear: "m_user_input c = []"
    by (auto simp: Console_read_def intro: read_loop_clears)
  show ?case
  proof (cases "line \<noteq> ''x'' \<and> map_of (name_to_id a) line = None")
    case True
    then have "select_target keys a
        = select_target ks (write_line ''Error,  user not available'' (a\<lparr>console := c\<rparr>))"
      by (simp add: select_target.simps [of keys] read)
    with "1.IH" [OF read refl _ refl] True "1.prems" show ?thesis by simp
  next
    case False
    with "1.prems" clear show ?thesis
      by (auto simp: select_target.simps [of keys] read Let_def split: if_splits)
  qed
qed

section \<open>The database grows\<close>

lemma zero_from_mono: "zero_from n buf \<Longrightarrow> n \<le> m \<Longrightarrow> zero_from m buf"
proof -
  assume zero: "zero_from n buf" and le: "n \<le> m"
  have "drop m buf = drop (m - n) (drop n buf)"
    using le by simp
  also have "\<dots> = replicate (length buf - m) 0"
    using zero le by (simp add: zero_from_def)
  finally show ?thesis by (simp add: zero_from_def)
qed


definition db_grows :: "Database \<Rightarrow> Database \<Rightarrow> bool" where
  "db_grows db db' \<longleftrightarrow> mset (user_map db) \<subseteq># mset (user_map db') \<and>
     (\<forall>i \<in> user_ids db. i \<in> user_ids db' \<and> name_in db' i = name_in db i)"

lemma db_grows_refl [simp]: "db_grows db db"
  by (simp add: db_grows_def)

lemma db_grows_register:
  assumes "db_inv db" "\<not> db_full db"
  shows "db_grows db (fst (registerUser db name))"
proof -
  have new: "next_id db \<notin> user_ids db"
    by (rule register_fresh_id [OF assms])
  then have "user_map (fst (registerUser db name)) = user_map db @ [(next_id db, \<lparr>username = name, msg_q = []\<rparr>)]"
    by (simp add: registerUser_def Let_def user_ids_def update_fresh)
  moreover have "i \<in> user_ids (fst (registerUser db name)) \<and> name_in (fst (registerUser db name)) i = name_in db i"
    if "i \<in> user_ids db" for i
    using that new by (auto simp: registerUser_eq name_in_def)
  ultimately show ?thesis
    by (simp add: db_grows_def)
qed

lemma handleRequest_grows:
  assumes "db_inv db" "\<not> db_full db" "handleRequest ser parse debug iter d rx_evs tx_evs db = Some (Inr (w, resp))"
  shows "db_inv (shared_db w) \<and> db_grows db (shared_db w)"
  using handleRequest_db [OF assms(3)] db_inv_register db_grows_register assms(1,2) by auto

section \<open>The invariant\<close>

text \<open>
  What parsing the whole receive buffer of the online-users thread needs of the codec: an
  answer is at least as long as every earlier answer, so that nothing of an earlier one
  is left behind it. The wire format has this property.
\<close>

locale growing_codec = packet_codec +
  assumes users_grow: "mset es \<subseteq># mset es' \<Longrightarrow> length (ser (users_packet i es)) \<le> length (ser (users_packet i es'))"

text \<open>
  A client's buffers: the receive buffer is zero behind an answer that listed some of the
  users who are now registered.
\<close>

definition bufs_ok :: "(Packet \<Rightarrow> bytes) \<Rightarrow> Database \<Rightarrow> user_id_t \<Rightarrow> bytes \<times> bytes \<Rightarrow> bool" where
  "bufs_ok ser db i bufs \<longleftrightarrow> length (fst bufs) = kClientBuffer \<and> length (snd bufs) = kClientBuffer \<and>
     (\<exists>es. mset es \<subseteq># mset (user_map db) \<and> zero_from (length (ser (users_packet i es))) (snd bufs))"

text \<open>The names a client knows are those of other registered users.\<close>

definition names_true :: "Database \<Rightarrow> App \<Rightarrow> bool" where
  "names_true db a \<longleftrightarrow> (\<forall>n i. map_of (name_to_id a) n = Some i \<longrightarrow> i \<in> user_ids db - {app_id a} \<and> name_in db i = n)"

definition client_ok :: "(Packet \<Rightarrow> bytes) \<Rightarrow> Database \<Rightarrow> Client \<Rightarrow> bool" where
  "client_ok ser db cl \<longleftrightarrow>
     (if online cl
      then app_id (capp cl) \<in> user_ids db \<and> name_in db (app_id (capp cl)) = app_username (capp cl) \<and>
           app_maps (capp cl) \<and> names_true db (capp cl) \<and> bufs_ok ser db (app_id (capp cl)) (cbufs cl)
      else cl = Client_init)"

definition ids_apart :: "Client list \<Rightarrow> bool" where
  "ids_apart cls \<longleftrightarrow> (\<forall>c c'. c < length cls \<and> c' < length cls \<and> c \<noteq> c' \<and> online (cls ! c) \<and> online (cls ! c')
     \<longrightarrow> app_id (capp (cls ! c)) \<noteq> app_id (capp (cls ! c')))"

definition sys_inv :: "(Packet \<Rightarrow> bytes) \<Rightarrow> System \<Rightarrow> bool" where
  "sys_inv ser s \<longleftrightarrow> db_inv (sdb s) \<and> list_all (client_ok ser (sdb s)) (sclients s) \<and> ids_apart (sclients s)"

lemma same_user_ok:
  assumes "client_ok ser db cl" "online cl" "same_user (capp cl) a"
  shows "client_ok ser db (cl\<lparr>capp := a\<rparr>)"
  using assms by (simp add: client_ok_def same_user_def app_maps_def names_true_def)

lemma bufs_ok_grows: "bufs_ok ser db i bufs \<Longrightarrow> db_grows db db' \<Longrightarrow> bufs_ok ser db' i bufs"
  unfolding bufs_ok_def db_grows_def using subset_mset.order_trans by blast

lemma names_true_grows: "names_true db a \<Longrightarrow> db_grows db db' \<Longrightarrow> names_true db' a"
  by (auto simp: names_true_def db_grows_def)

lemma client_ok_grows: "client_ok ser db cl \<Longrightarrow> db_grows db db' \<Longrightarrow> client_ok ser db' cl"
  using bufs_ok_grows [of ser db "app_id (capp cl)" "cbufs cl" db'] names_true_grows [of db "capp cl" db']
  by (simp add: client_ok_def db_grows_def)

lemma ids_apart_update:
  assumes "ids_apart cls" "c < length cls"
    and "\<And>c'. c' < length cls \<Longrightarrow> c' \<noteq> c \<Longrightarrow> online (cls ! c') \<Longrightarrow> app_id (capp (cls ! c')) \<noteq> app_id (capp cl)"
  shows "ids_apart (cls[c := cl])"
  using assms by (auto simp: ids_apart_def nth_list_update) metis

lemma ids_apart_same:
  assumes "ids_apart cls" "c < length cls" "online (cls ! c)" "app_id (capp cl) = app_id (capp (cls ! c))"
  shows "ids_apart (cls[c := cl])"
  using assms by (intro ids_apart_update) (auto simp: ids_apart_def)

lemma sys_inv_update:
  assumes "sys_inv ser s" "db_inv db" "db_grows (sdb s) db" "client_ok ser db cl" "ids_apart ((sclients s)[c := cl])"
  shows "sys_inv ser \<lparr>sdb = db, sclients = (sclients s)[c := cl]\<rparr>"
proof -
  have "client_ok ser db cl'" if "cl' \<in> set ((sclients s)[c := cl])" for cl'
  proof (cases "cl' = cl")
    case False
    then have "cl' \<in> set (sclients s)"
      using that set_update_subset_insert [of "sclients s" c cl] by auto
    then have "client_ok ser (sdb s) cl'"
      using assms(1) by (simp add: sys_inv_def list_all_iff)
    then show ?thesis by (rule client_ok_grows [OF _ assms(3)])
  qed (simp add: assms(4))
  then show ?thesis
    using assms(2,5) by (simp add: sys_inv_def list_all_iff)
qed

lemma sys_inv_client: "sys_inv ser s \<Longrightarrow> c < length (sclients s) \<Longrightarrow> client_ok ser (sdb s) (sclients s ! c)"
  by (simp add: sys_inv_def list_all_length)

lemma sys_inv_init: "sys_inv ser (System_init n)"
  by (auto simp: sys_inv_def System_init_def db_inv_init list_all_iff client_ok_def Client_init_def ids_apart_def)

section \<open>Every step keeps the invariant\<close>

context growing_codec
begin

text \<open>A registration: the exchange of theory \<open>App_Protocol\<close>, with a client that is new.\<close>

lemma register_step_ok:
  assumes inv: "db_inv db" "\<not> db_full db"
    and wf: "wf_packet (register_request (edit [] ks))" "wf_packet (register_packet (next_id db))"
    and link: "link_ok (ser (register_request (edit [] ks))) (ser (register_packet (next_id db))) net rx_evs tx_evs"
    and run: "kNewLine \<notin> set ks" "App_registerUser ser parse (ks @ kNewLine # keys) net App_init = Some (Inr (a, keys', req))"
      "handleRequest ser parse debug iter d rx_evs tx_evs db = Some (Inr (w, resp))"
  shows "shared_db w = fst (registerUser db (edit [] ks)) \<and> app_id a = next_id db
    \<and> client_ok ser (shared_db w) (Client_init\<lparr>capp := a, online := True\<rparr>)"
proof -
  have "m_user_input (console App_init) = []"
    by (simp add: App_init_def Console_init_def)
  then have ex: "app_username a = edit [] ks" "(shared_db w, app_id a) = registerUser db (edit [] ks)"
    "name_to_id a = []" "id_to_name a = []"
    using register_exchange [OF packet_codec_axioms wf _ _ run(1), of App_init net rx_evs tx_evs keys debug iter d] link run
    by (auto simp: link_ok_def App_init_def)
  then have db: "shared_db w = fst (registerUser db (edit [] ks))" "app_id a = snd (registerUser db (edit [] ks))"
    by (metis fst_conv, metis snd_conv)
  have "bufs_ok ser (shared_db w) (app_id a) (cbufs Client_init)"
    unfolding bufs_ok_def by (intro conjI exI [of _ "[]"]) (simp_all add: Client_init_def)
  moreover have "app_id a \<in> user_ids (shared_db w)" "name_in (shared_db w) (app_id a) = app_username a"
    by (simp_all add: db ex(1) registerUser_eq name_in_def)
  ultimately show ?thesis
    using ex(3,4) by (simp add: db registerUser_eq client_ok_def app_maps_def names_true_def)
qed

text \<open>A round of the online-users thread; its buffers are clean behind the new answer.\<close>

lemma users_step_ok:
  assumes db: "db_inv db" and cl: "client_ok ser db cl" "online cl"
    and iters: "iteration_order iter" "iteration_order citer"
    and wf: "wf_packet (users_request (app_id (capp cl)))"
      "wf_packet (users_packet (app_id (capp cl)) (iter (user_map db)))"
    and link: "link_ok (ser (users_request (app_id (capp cl))))
      (ser (users_packet (app_id (capp cl)) (iter (user_map db)))) net rx_evs tx_evs"
    and run: "periodicGetOnlineUsers ser parse citer net (cbufs cl) (capp cl) = Some (Inr (a, bufs, req))"
      "handleRequest ser parse debug iter d rx_evs tx_evs db = Some (Inr (w, resp))"
  shows "shared_db w = db \<and> client_ok ser db (cl\<lparr>capp := a, cbufs := bufs\<rparr>) \<and> app_id a = app_id (capp cl)
    \<and> dom (map_of (name_to_id a)) = name_in db ` (user_ids db - {app_id (capp cl)})"
proof -
  let ?i = "app_id (capp cl)"
  let ?req = "users_request ?i" and ?r = "users_packet ?i (iter (user_map db))"
  obtain txb rxb where bufs: "cbufs cl = (txb, rxb)" by force
  from cl bufs obtain es where rxb: "length txb = kClientBuffer" "length rxb = kClientBuffer"
    "mset es \<subseteq># mset (user_map db)" "zero_from (length (ser (users_packet ?i es))) rxb"
    by (auto simp: client_ok_def bufs_ok_def)
  have "mset es \<subseteq># mset (iter (user_map db))"
    using rxb(3) iters(1) by (simp add: iteration_order_def)
  then have clean: "zero_from (length (ser ?r)) rxb"
    using rxb(4) users_grow zero_from_mono by blast
  obtain a' w' where ex: "periodicGetOnlineUsers ser parse citer net (txb, rxb) (capp cl)
      = Some (Inr (a', (ser ?req @ drop (length (ser ?req)) txb, ser ?r @ drop (length (ser ?r)) rxb), ser ?req))"
    "handleRequest ser parse debug iter d rx_evs tx_evs db = Some (Inr (w', ser ?r))"
    "shared_db w' = db" "app_maps a'" "app_id a' = ?i" "app_username a' = app_username (capp cl)"
    "dom (map_of (name_to_id a')) = name_in db ` (user_ids db - {?i})"
    "\<forall>n i. map_of (name_to_id a') n = Some i \<longrightarrow> i \<in> user_ids db - {?i} \<and> name_in db i = n"
    using users_exchange [OF packet_codec_axioms refl wf _ _ rxb(1,2) clean _ iters(2) _ _ _ db _ iters(1), of net rx_evs tx_evs debug d]
      link cl by (auto simp: link_ok_def client_ok_def userExists_iff)
  have new: "a = a'" "w = w'" "bufs = (ser ?req @ drop (length (ser ?req)) txb, ser ?r @ drop (length (ser ?r)) rxb)"
    using run ex(1,2) by (auto simp: bufs)
  have "zero_from (length (ser ?r)) (ser ?r @ drop (length (ser ?r)) rxb)"
    using clean rxb(2) link by (simp add: zero_from_def link_ok_def)
  then have "bufs_ok ser db ?i bufs"
    using rxb link iters(1) unfolding bufs_ok_def
    by (intro conjI exI [of _ "iter (user_map db)"]) (simp_all add: new link_ok_def iteration_order_def)
  then show ?thesis
    using ex cl by (simp add: new client_ok_def names_true_def)
qed

lemma sys_step_inv: "sys_step ser parse wf_packet s s' \<Longrightarrow> sys_inv ser s \<Longrightarrow> sys_inv ser s'"
proof (induction rule: sys_step.induct)
  case (sys_register c s ks net rx_evs tx_evs keys a keys' req debug iter d w resp)
  have inv: "db_inv (sdb s)" and fresh: "sclients s ! c = Client_init"
    using sys_register.prems sys_inv_client [OF _ sys_register.hyps(1)] sys_register.hyps(2)
    by (auto simp: sys_inv_def client_ok_def)
  have "App_registerUser ser parse (ks @ kNewLine # keys) net App_init = Some (Inr (a, keys', req))"
    using sys_register.hyps(8) by (simp add: fresh Client_init_def)
  note ok = register_step_ok [OF inv sys_register.hyps(3,5,6,7,4) this sys_register.hyps(9)]
  have "app_id (capp (sclients s ! c')) \<noteq> app_id a" if "c' < length (sclients s)" "online (sclients s ! c')" for c'
    using sys_inv_client [OF sys_register.prems that(1)] that(2) register_fresh_id [OF inv sys_register.hyps(3)]
    by (auto simp: client_ok_def ok)
  then have "ids_apart ((sclients s)[c := (sclients s ! c)\<lparr>capp := a, online := True\<rparr>])"
    using sys_register.prems sys_register.hyps(1) by (intro ids_apart_update) (auto simp: sys_inv_def)
  then show ?case
    using db_inv_register [OF inv] db_grows_register [OF inv sys_register.hyps(3)] sys_register.prems ok
    by (intro sys_inv_update) (auto simp: fresh)
next
  case (sys_users c s iter citer i net rx_evs tx_evs a bufs req debug d w resp)
  have inv: "db_inv (sdb s)" and cl: "client_ok ser (sdb s) (sclients s ! c)"
    using sys_users.prems sys_inv_client [OF _ sys_users.hyps(1)] by (auto simp: sys_inv_def)
  have ok: "shared_db w = sdb s" "client_ok ser (sdb s) ((sclients s ! c)\<lparr>capp := a, cbufs := bufs\<rparr>)"
    "app_id a = app_id (capp (sclients s ! c))"
    using users_step_ok [OF inv cl sys_users.hyps(2,3,4) _ _ _ sys_users.hyps(9,10)] sys_users.hyps(5-8)
    by blast+
  have "ids_apart ((sclients s)[c := (sclients s ! c)\<lparr>capp := a, cbufs := bufs\<rparr>])"
    using sys_users.prems sys_users.hyps(1,2) ok(3) by (intro ids_apart_same) (simp_all add: sys_inv_def)
  then show ?case
    using inv sys_users.prems ok by (intro sys_inv_update) simp_all
next
  case (sys_command c s nets citer keys a keys' wire)
  have same: "same_user (capp (sclients s ! c)) a"
    by (rule run_command_same [OF sys_command.hyps(3,4)])
  then have "client_ok ser (sdb s) ((sclients s ! c)\<lparr>capp := a\<rparr>)"
    using sys_inv_client [OF sys_command.prems sys_command.hyps(1)] sys_command.hyps(2) by (intro same_user_ok)
  moreover have "ids_apart ((sclients s)[c := (sclients s ! c)\<lparr>capp := a\<rparr>])"
    using sys_command.prems sys_command.hyps(1,2) same
    by (intro ids_apart_same) (simp_all add: sys_inv_def same_user_def)
  ultimately show ?case
    using sys_command.prems sys_inv_update [OF sys_command.prems, of "sdb s"] by (simp add: sys_inv_def)
next
  case (sys_stranger s debug iter d rx_evs tx_evs w resp)
  then have "db_inv (shared_db w) \<and> db_grows (sdb s) (shared_db w)"
    by (intro handleRequest_grows) (simp_all add: sys_inv_def)
  then show ?case
    using sys_stranger.prems client_ok_grows by (auto simp: sys_inv_def list_all_iff)
qed

lemma sys_reachable_inv: "sys_reachable ser parse wf_packet s \<Longrightarrow> sys_inv ser s"
  by (induction rule: sys_reachable.induct) (auto simp: sys_inv_init sys_step_inv)

text \<open>Names known to a client stay known.\<close>

lemma sys_step_names:
  assumes "sys_step ser parse wf_packet s s'" "sys_inv ser s" "c < length (sclients s)" "online (sclients s ! c)"
  shows "length (sclients s') = length (sclients s) \<and> online (sclients s' ! c)
    \<and> dom (map_of (name_to_id (capp (sclients s ! c)))) \<subseteq> dom (map_of (name_to_id (capp (sclients s' ! c))))"
  using assms
proof (induction rule: sys_step.induct)
  case (sys_users c' s iter citer i net rx_evs tx_evs a bufs req debug d w resp)
  have inv: "db_inv (sdb s)" and cl: "client_ok ser (sdb s) (sclients s ! c')"
    using sys_users.prems(1) sys_inv_client [OF _ sys_users.hyps(1)] by (auto simp: sys_inv_def)
  have "dom (map_of (name_to_id a)) = name_in (sdb s) ` (user_ids (sdb s) - {i})"
    using users_step_ok [OF inv cl sys_users.hyps(2,3,4) _ _ _ sys_users.hyps(9,10)] sys_users.hyps(5-8)
    by blast
  moreover have "dom (map_of (name_to_id (capp (sclients s ! c')))) \<subseteq> name_in (sdb s) ` (user_ids (sdb s) - {i})"
    using cl sys_users.hyps(2,5) by (fastforce simp: client_ok_def names_true_def)
  ultimately show ?case
    using sys_users.prems sys_users.hyps(2) by (cases "c = c'") (simp_all add: nth_list_update)
next
  case (sys_command c' s nets citer keys a keys' wire)
  have "same_user (capp (sclients s ! c')) a"
    by (rule run_command_same [OF sys_command.hyps(3,4)])
  then show ?case
    using sys_command.prems by (cases "c = c'") (simp_all add: nth_list_update same_user_def)
qed (auto simp: nth_list_update)

lemma sys_run_names:
  assumes "(sys_step ser parse wf_packet)\<^sup>*\<^sup>* s s'" "sys_inv ser s" "c < length (sclients s)" "online (sclients s ! c)"
  shows "sys_inv ser s' \<and> length (sclients s') = length (sclients s) \<and> online (sclients s' ! c)
    \<and> dom (map_of (name_to_id (capp (sclients s ! c)))) \<subseteq> dom (map_of (name_to_id (capp (sclients s' ! c))))"
  using assms
proof (induction rule: rtranclp_induct)
  case (step y z)
  note y = step.IH [OF step.prems]
  then have c: "c < length (sclients y)"
    using step.prems(2) by simp
  with y have z: "sys_inv ser z" "length (sclients z) = length (sclients s)" "online (sclients z ! c)"
    "dom (map_of (name_to_id (capp (sclients y ! c)))) \<subseteq> dom (map_of (name_to_id (capp (sclients z ! c))))"
    using sys_step_inv [OF step.hyps(2)] sys_step_names [OF step.hyps(2) _ c] by simp_all
  have "dom (map_of (name_to_id (capp (sclients s ! c)))) \<subseteq> dom (map_of (name_to_id (capp (sclients z ! c))))"
    by (rule subset_trans [OF _ z(4)]) (use y in simp)
  with z show ?case by simp
qed simp

text \<open>In any state that satisfies the invariant a round over a working connection succeeds.\<close>

lemma users_round:
  assumes inv: "sys_inv ser s" and c: "c < length (sclients s)" "online (sclients s ! c)"
    and iters: "iteration_order iter" "iteration_order citer" and a: "a = capp (sclients s ! c)"
    and wf: "wf_packet (users_request (app_id a))" "wf_packet (users_packet (app_id a) (iter (user_map (sdb s))))"
    and link: "link_ok (ser (users_request (app_id a))) (ser (users_packet (app_id a) (iter (user_map (sdb s))))) net rx_evs tx_evs"
  shows "\<exists>a' bufs req w resp. periodicGetOnlineUsers ser parse citer net (cbufs (sclients s ! c)) a = Some (Inr (a', bufs, req))
    \<and> handleRequest ser parse debug iter d rx_evs tx_evs (sdb s) = Some (Inr (w, resp))
    \<and> sys_step ser parse wf_packet s
        (s\<lparr>sclients := (sclients s)[c := (sclients s ! c)\<lparr>capp := a', cbufs := bufs\<rparr>]\<rparr>)
    \<and> dom (map_of (name_to_id a')) = name_in (sdb s) ` (user_ids (sdb s) - {app_id a})"
proof -
  let ?r = "users_packet (app_id a) (iter (user_map (sdb s)))"
  have db: "db_inv (sdb s)" and cl: "client_ok ser (sdb s) (sclients s ! c)"
    using inv sys_inv_client [OF inv c(1)] by (auto simp: sys_inv_def)
  obtain txb rxb where bufs: "cbufs (sclients s ! c) = (txb, rxb)" by force
  from cl c(2) bufs a obtain es where rxb: "length txb = kClientBuffer" "length rxb = kClientBuffer"
    "mset es \<subseteq># mset (user_map (sdb s))" "zero_from (length (ser (users_packet (app_id a) es))) rxb"
    by (auto simp: client_ok_def bufs_ok_def)
  have "mset es \<subseteq># mset (iter (user_map (sdb s)))"
    using rxb(3) iters(1) by (simp add: iteration_order_def)
  then have clean: "zero_from (length (ser ?r)) rxb"
    using rxb(4) users_grow zero_from_mono by blast
  obtain a' bufs' w where ex: "periodicGetOnlineUsers ser parse citer net (txb, rxb) a = Some (Inr (a', bufs', ser (users_request (app_id a))))"
    "handleRequest ser parse debug iter d rx_evs tx_evs (sdb s) = Some (Inr (w, ser ?r))" "shared_db w = sdb s"
    "dom (map_of (name_to_id a')) = name_in (sdb s) ` (user_ids (sdb s) - {app_id a})"
    using users_exchange [OF packet_codec_axioms refl wf _ _ rxb(1,2) clean _ iters(2) _ _ _ db _ iters(1), of net rx_evs tx_evs debug d]
      link cl c(2) by (auto simp: link_ok_def client_ok_def userExists_iff a)
  have "sys_step ser parse wf_packet s
      \<lparr>sdb = shared_db w, sclients = (sclients s)[c := (sclients s ! c)\<lparr>capp := a', cbufs := bufs'\<rparr>]\<rparr>"
    using sys_step.sys_users [OF c iters _ wf link, of parse a' bufs' "ser (users_request (app_id a))" debug d w "ser ?r"] ex(1,2)
    by (simp add: a bufs)
  then have "sys_step ser parse wf_packet s
      (s\<lparr>sclients := (sclients s)[c := (sclients s ! c)\<lparr>capp := a', cbufs := bufs'\<rparr>]\<rparr>)"
    using ex(3) by (cases s) simp
  then show ?thesis
    using ex by (auto simp: bufs)
qed

end

section \<open>The wire format grows\<close>

lemma enc_varint_mono: "m \<le> n \<Longrightarrow> length (enc_varint m) \<le> length (enc_varint n)"
proof (induction n arbitrary: m rule: enc_varint.induct)
  case (1 n)
  show ?case
  proof (cases "m < 128")
    case True
    then have "length (enc_varint m) = 1" by (simp add: enc_varint.simps)
    then show ?thesis
      using enc_varint_nonempty [of n] by (cases "enc_varint n") auto
  next
    case False
    then have "\<not> n < 128" "m div 128 \<le> n div 128"
      using "1.prems" by (simp_all add: div_le_mono)
    then show ?thesis
      using False "1.IH" by (subst (1 2) enc_varint.simps) simp
  qed
qed

lemma length_enc_rep:
  "length (enc_fields (put_rep enc k xs)) = (\<Sum>x\<in>#mset xs. length (enc_field (k, Len (enc_fields (enc x)))))"
  by (induction xs) (simp_all add: put_rep_def enc_fields_def)

lemma length_enc_rep_mono:
  "mset xs \<subseteq># mset ys \<Longrightarrow> length (enc_fields (put_rep enc k xs)) \<le> length (enc_fields (put_rep enc k ys))"
  unfolding length_enc_rep by (auto simp: mset_subset_eq_exists_conv)

lemma length_enc_msg_mono:
  "length (enc_fields (enc x)) \<le> length (enc_fields (enc y)) \<Longrightarrow>
   length (enc_fields (put_msg enc k (Some x))) \<le> length (enc_fields (put_msg enc k (Some y)))"
  using enc_varint_mono by (simp add: put_msg_def enc_fields_def add_mono)

lemma users_packet_wire:
  "wire_ser (users_packet i es) = enc_fields (put_msg Header_fields 1 (Some \<lparr>hdr_packet_type = Some PACKET_TYPE_RESP_USERS\<rparr>))
    @ enc_fields (put_msg RespUsers_fields 7 (Some \<lparr>users_resp_value = Some 0,
        users_online_users = map online_user (others i es)\<rparr>))"
proof -
  have none: "put_msg enc k None = []" for enc :: "'x \<Rightarrow> wire_field list" and k
    by (simp add: put_msg_def)
  show ?thesis
    by (simp add: wire_ser_def Packet_fields_def users_packet_def others_def Packet_of_type_def Packet_empty_def none)
qed

interpretation wire: growing_codec wire_ser wire_parse wf_wire
proof unfold_locales
  fix es es' :: "(user_id_t \<times> UserMetadata) list" and i
  assume "mset es \<subseteq># mset es'"
  then have "mset (map online_user (others i es)) \<subseteq># mset (map online_user (others i es'))"
    by (simp add: others_def image_mset_subseteq_mono multiset_filter_mono)
  from length_enc_rep_mono [OF this] show "length (wire_ser (users_packet i es)) \<le> length (wire_ser (users_packet i es'))"
    unfolding users_packet_wire by (simp add: length_enc_msg_mono RespUsers_fields_def)
qed

end
