(* ===== verification/System_Late.thy ===== *)
theory System_Late
  imports System
begin

text \<open>
  Answers that are late. In theory \<open>System\<close> an exchange is one step; here the server handles
  a registration or a users request at one time and the client reads the answer at another,
  and any clients and unknown senders go on in between. A step of \<open>System\<close> is still
  possible as long as it leaves alone what the waiting threads own. As there, only
  exchanges that go well are steps of a client: \<open>request_link\<close> and \<open>answer_link\<close> say that both
  messages arrive in one piece, without an error, and fit 1000 bytes.
\<close>

section \<open>State and steps\<close>

text \<open>
  The answer a client waits for: the bytes the server has sent, and for a registration the
  keys the name was typed with.
\<close>

datatype answer =
    Reg_answer "int list" bytes
  | Users_answer bytes

record Late_System =
  lsys :: System
  flight :: "nat \<Rightarrow> answer option"

definition Late_init :: "nat \<Rightarrow> Late_System" where
  "Late_init n = \<lparr>lsys = System_init n, flight = (\<lambda>_. None)\<rparr>"

text \<open>The two directions of a working connection.\<close>

definition request_link :: "bytes \<Rightarrow> recv_ev list \<Rightarrow> send_ev list \<Rightarrow> bytes \<Rightarrow> bool" where
  "request_link req rx_evs tx_evs resp \<longleftrightarrow> length req \<le> kClientBuffer \<and> length resp \<le> kClientBuffer \<and>
     arrives_whole req rx_evs \<and> accepts_all (length resp) tx_evs"

definition answer_link :: "bytes \<Rightarrow> bytes \<Rightarrow> Net \<Rightarrow> bool" where
  "answer_link req resp net \<longleftrightarrow> ConnOk \<in> set (conns net) \<and> accepts_all (length req) (sends net) \<and>
     length req \<le> kClientBuffer \<and> arrives_whole resp (recvs net)"

text \<open>What a waiting client owns: whether it is registered, and the buffers of its thread.\<close>

definition waiting_untouched :: "(nat \<Rightarrow> answer option) \<Rightarrow> Client list \<Rightarrow> Client list \<Rightarrow> bool" where
  "waiting_untouched fl cls cls' \<longleftrightarrow> (\<forall>c<length cls. fl c \<noteq> None \<longrightarrow>
     online (cls' ! c) = online (cls ! c) \<and> cbufs (cls' ! c) = cbufs (cls ! c))"

text \<open>The server handles a request of client \<open>c\<close>.\<close>

inductive served ::
    "(Packet \<Rightarrow> bytes) \<Rightarrow> (bytes \<Rightarrow> Packet) \<Rightarrow> (Packet \<Rightarrow> bool) \<Rightarrow> nat \<Rightarrow> Late_System \<Rightarrow> Late_System \<Rightarrow> bool"
  for ser parse wf_packet c where
  reg_served: "c < length (sclients (lsys s)) \<Longrightarrow> \<not> online (sclients (lsys s) ! c) \<Longrightarrow> flight s c = None \<Longrightarrow>
     \<not> db_full (sdb (lsys s)) \<Longrightarrow> kNewLine \<notin> set ks \<Longrightarrow>
     wf_packet (register_request (edit [] ks)) \<Longrightarrow> wf_packet (register_packet (next_id (sdb (lsys s)))) \<Longrightarrow>
     request_link (ser (register_request (edit [] ks))) rx_evs tx_evs (ser (register_packet (next_id (sdb (lsys s))))) \<Longrightarrow>
     handleRequest ser parse debug iter d rx_evs tx_evs (sdb (lsys s)) = Some (Inr (w, resp)) \<Longrightarrow>
     served ser parse wf_packet c s
       \<lparr>lsys = (lsys s)\<lparr>sdb := shared_db w\<rparr>, flight = (flight s)(c \<mapsto> Reg_answer ks resp)\<rparr>"
| users_served: "c < length (sclients (lsys s)) \<Longrightarrow> online (sclients (lsys s) ! c) \<Longrightarrow> flight s c = None \<Longrightarrow>
     i = app_id (capp (sclients (lsys s) ! c)) \<Longrightarrow> iteration_order iter \<Longrightarrow>
     wf_packet (users_request i) \<Longrightarrow> wf_packet (users_packet i (iter (user_map (sdb (lsys s))))) \<Longrightarrow>
     request_link (ser (users_request i)) rx_evs tx_evs (ser (users_packet i (iter (user_map (sdb (lsys s)))))) \<Longrightarrow>
     handleRequest ser parse debug iter d rx_evs tx_evs (sdb (lsys s)) = Some (Inr (w, resp)) \<Longrightarrow>
     served ser parse wf_packet c s
       \<lparr>lsys = (lsys s)\<lparr>sdb := shared_db w\<rparr>, flight = (flight s)(c \<mapsto> Users_answer resp)\<rparr>"

text \<open>Client \<open>c\<close> reads the answer it waits for.\<close>

inductive answered_late ::
    "(Packet \<Rightarrow> bytes) \<Rightarrow> (bytes \<Rightarrow> Packet) \<Rightarrow> nat \<Rightarrow> Late_System \<Rightarrow> Late_System \<Rightarrow> bool"
  for ser parse c where
  reg_read: "flight s c = Some (Reg_answer ks resp) \<Longrightarrow>
     answer_link (ser (register_request (edit [] ks))) resp net \<Longrightarrow>
     App_registerUser ser parse (ks @ kNewLine # keys) net (capp (sclients (lsys s) ! c)) = Some (Inr (a, keys', req)) \<Longrightarrow>
     answered_late ser parse c s
       \<lparr>lsys = (lsys s)\<lparr>sclients := (sclients (lsys s))[c := (sclients (lsys s) ! c)\<lparr>capp := a, online := True\<rparr>]\<rparr>,
        flight = (flight s)(c := None)\<rparr>"
| users_read: "flight s c = Some (Users_answer resp) \<Longrightarrow> iteration_order citer \<Longrightarrow>
     answer_link (ser (users_request (app_id (capp (sclients (lsys s) ! c))))) resp net \<Longrightarrow>
     periodicGetOnlineUsers ser parse citer net (cbufs (sclients (lsys s) ! c)) (capp (sclients (lsys s) ! c))
       = Some (Inr (a, bufs, req)) \<Longrightarrow>
     answered_late ser parse c s
       \<lparr>lsys = (lsys s)\<lparr>sclients := (sclients (lsys s))[c := (sclients (lsys s) ! c)\<lparr>capp := a, cbufs := bufs\<rparr>]\<rparr>,
        flight = (flight s)(c := None)\<rparr>"

inductive late_step ::
    "(Packet \<Rightarrow> bytes) \<Rightarrow> (bytes \<Rightarrow> Packet) \<Rightarrow> (Packet \<Rightarrow> bool) \<Rightarrow> Late_System \<Rightarrow> Late_System \<Rightarrow> bool"
  for ser parse wf_packet where
  late_other: "sys_step ser parse wf_packet (lsys s) t \<Longrightarrow>
     waiting_untouched (flight s) (sclients (lsys s)) (sclients t) \<Longrightarrow>
     late_step ser parse wf_packet s (s\<lparr>lsys := t\<rparr>)"
| late_served: "served ser parse wf_packet c s s' \<Longrightarrow> late_step ser parse wf_packet s s'"
| late_read: "answered_late ser parse c s s' \<Longrightarrow> late_step ser parse wf_packet s s'"

inductive late_reachable ::
    "(Packet \<Rightarrow> bytes) \<Rightarrow> (bytes \<Rightarrow> Packet) \<Rightarrow> (Packet \<Rightarrow> bool) \<Rightarrow> Late_System \<Rightarrow> bool"
  for ser parse wf_packet where
  late_init: "late_reachable ser parse wf_packet (Late_init n)"
| late_next: "late_reachable ser parse wf_packet s \<Longrightarrow> late_step ser parse wf_packet s s' \<Longrightarrow>
     late_reachable ser parse wf_packet s'"

text \<open>A run of \<open>System\<close> is a run with late answers in which nobody waits.\<close>

lemma sys_reachable_late:
  "sys_reachable ser parse wf_packet s \<Longrightarrow> late_reachable ser parse wf_packet \<lparr>lsys = s, flight = (\<lambda>_. None)\<rparr>"
proof (induction rule: sys_reachable.induct)
  case (sys_init n)
  show ?case using late_init [of ser parse wf_packet n] by (simp add: Late_init_def)
next
  case (sys_next s s')
  have "late_step ser parse wf_packet \<lparr>lsys = s, flight = (\<lambda>_. None)\<rparr> (\<lparr>lsys = s, flight = (\<lambda>_. None)\<rparr>\<lparr>lsys := s'\<rparr>)"
    by (rule late_other) (simp_all add: sys_next.hyps(2) waiting_untouched_def)
  with sys_next.IH show ?case
    using late_next by fastforce
qed

section \<open>The invariant\<close>

text \<open>An answer under way is what the server sends for the users of an earlier time.\<close>

definition flight_ok :: "(Packet \<Rightarrow> bytes) \<Rightarrow> (Packet \<Rightarrow> bool) \<Rightarrow> Database \<Rightarrow> Client \<Rightarrow> answer \<Rightarrow> bool" where
  "flight_ok ser wf_packet db cl ans = (case ans of
       Reg_answer ks resp \<Rightarrow> \<not> online cl \<and> kNewLine \<notin> set ks \<and> length resp \<le> kClientBuffer
         \<and> (\<exists>i. resp = ser (register_packet i) \<and> wf_packet (register_packet i)
              \<and> i \<in> user_ids db \<and> name_in db i = edit [] ks)
     | Users_answer resp \<Rightarrow> online cl \<and> length resp \<le> kClientBuffer \<and> zero_from (length resp) (snd (cbufs cl))
         \<and> (\<exists>es. resp = ser (users_packet (app_id (capp cl)) es) \<and> wf_packet (users_packet (app_id (capp cl)) es)
              \<and> distinct (map fst es) \<and> mset es \<subseteq># mset (user_map db)))"

text \<open>The id of a client, also of one that has not read it yet.\<close>

definition owns :: "(Packet \<Rightarrow> bytes) \<Rightarrow> (Packet \<Rightarrow> bool) \<Rightarrow> Late_System \<Rightarrow> nat \<Rightarrow> user_id_t \<Rightarrow> bool" where
  "owns ser wf_packet s c i \<longleftrightarrow> c < length (sclients (lsys s)) \<and>
     (if online (sclients (lsys s) ! c) then app_id (capp (sclients (lsys s) ! c)) = i
      else wf_packet (register_packet i) \<and> (\<exists>ks. flight s c = Some (Reg_answer ks (ser (register_packet i)))))"

definition late_inv :: "(Packet \<Rightarrow> bytes) \<Rightarrow> (Packet \<Rightarrow> bool) \<Rightarrow> Late_System \<Rightarrow> bool" where
  "late_inv ser wf_packet s \<longleftrightarrow> sys_inv ser (lsys s)
     \<and> (\<forall>c ans. flight s c = Some ans \<longrightarrow> c < length (sclients (lsys s))
          \<and> flight_ok ser wf_packet (sdb (lsys s)) (sclients (lsys s) ! c) ans)
     \<and> (\<forall>c c' i. owns ser wf_packet s c i \<and> owns ser wf_packet s c' i \<longrightarrow> c = c')"

lemma late_inv_flight:
  "late_inv ser wf_packet s \<Longrightarrow> flight s c = Some ans \<Longrightarrow>
   c < length (sclients (lsys s)) \<and> flight_ok ser wf_packet (sdb (lsys s)) (sclients (lsys s) ! c) ans"
  unfolding late_inv_def by blast

lemma owns_unique:
  "late_inv ser wf_packet s \<Longrightarrow> owns ser wf_packet s c i \<Longrightarrow> owns ser wf_packet s c' i \<Longrightarrow> c = c'"
  unfolding late_inv_def by blast

lemma late_inv_init: "late_inv ser wf_packet (Late_init n)"
  using sys_inv_init [of ser n]
  by (auto simp: late_inv_def Late_init_def owns_def System_init_def Client_init_def)

lemma flight_ok_grows:
  "flight_ok ser wf_packet db cl ans \<Longrightarrow> db_grows db db' \<Longrightarrow> flight_ok ser wf_packet db' cl ans"
  by (cases ans) (auto simp: flight_ok_def db_grows_def intro: subset_mset.order_trans)

lemma register_packet_inject: "register_packet i = register_packet j \<longleftrightarrow> i = j"
  by (auto simp: register_packet_def packet_accessors)

section \<open>Every step keeps the invariant\<close>

context growing_codec
begin

text \<open>What a step of \<open>System\<close> does to a client and to the database.\<close>

lemma sys_step_clients:
  assumes "sys_step ser parse wf_packet s s'" "sys_inv ser s"
  shows "length (sclients s') = length (sclients s) \<and> db_grows (sdb s) (sdb s')
    \<and> (\<forall>c<length (sclients s). if online (sclients s ! c)
         then online (sclients s' ! c) \<and> app_id (capp (sclients s' ! c)) = app_id (capp (sclients s ! c))
         else online (sclients s' ! c) \<longrightarrow> app_id (capp (sclients s' ! c)) \<notin> user_ids (sdb s))"
  using assms
proof (induction rule: sys_step.induct)
  case (sys_register c s ks net rx_evs tx_evs keys a keys' req debug iter d w resp)
  have inv: "db_inv (sdb s)" and fresh: "sclients s ! c = Client_init"
    using sys_register.prems sys_inv_client [OF _ sys_register.hyps(1)] sys_register.hyps(2)
    by (auto simp: sys_inv_def client_ok_def)
  have "App_registerUser ser parse (ks @ kNewLine # keys) net App_init = Some (Inr (a, keys', req))"
    using sys_register.hyps(8) by (simp add: fresh Client_init_def)
  note ok = register_step_ok [OF inv sys_register.hyps(3,5,6,7,4) this sys_register.hyps(9)]
  then show ?case
    using db_grows_register [OF inv sys_register.hyps(3)] register_fresh_id [OF inv sys_register.hyps(3)]
      sys_register.hyps(1,2) by (auto simp: nth_list_update)
next
  case (sys_users c s iter citer i net rx_evs tx_evs a bufs req debug d w resp)
  have inv: "db_inv (sdb s)" and cl: "client_ok ser (sdb s) (sclients s ! c)"
    using sys_users.prems sys_inv_client [OF _ sys_users.hyps(1)] by (auto simp: sys_inv_def)
  have "shared_db w = sdb s" "app_id a = app_id (capp (sclients s ! c))"
    using users_step_ok [OF inv cl sys_users.hyps(2,3,4) _ _ _ sys_users.hyps(9,10)] sys_users.hyps(5-8)
    by blast+
  then show ?case
    using sys_users.hyps(1,2) by (simp add: nth_list_update)
next
  case (sys_command c s nets citer keys a keys' wire)
  have "same_user (capp (sclients s ! c)) a"
    by (rule run_command_same [OF sys_command.hyps(3,4)])
  then show ?case
    using sys_command.hyps(1,2) by (simp add: nth_list_update same_user_def)
next
  case (sys_stranger s debug iter d w resp)
  then show ?case
    using handleRequest_grows by (simp add: sys_inv_def)
qed

lemma owns_known: "late_inv ser wf_packet s \<Longrightarrow> owns ser wf_packet s c i \<Longrightarrow> i \<in> user_ids (sdb (lsys s))"
proof (cases "online (sclients (lsys s) ! c)")
  case True
  assume "late_inv ser wf_packet s" "owns ser wf_packet s c i"
  with True show ?thesis
    using sys_inv_client [of ser "lsys s" c] by (auto simp: late_inv_def owns_def client_ok_def)
next
  case False
  assume inv: "late_inv ser wf_packet s" and own: "owns ser wf_packet s c i"
  with False obtain ks where "flight s c = Some (Reg_answer ks (ser (register_packet i)))" "wf_packet (register_packet i)"
    by (auto simp: owns_def)
  with inv obtain j where "ser (register_packet i) = ser (register_packet j)" "wf_packet (register_packet j)" "j \<in> user_ids (sdb (lsys s))"
    unfolding late_inv_def flight_ok_def by force
  then show ?thesis
    using ser_inject [OF \<open>wf_packet (register_packet i)\<close>] register_packet_inject by metis
qed

text \<open>Other clients go on: what the waiting ones own and the users of before are still there.\<close>

lemma late_other_inv:
  assumes inv: "late_inv ser wf_packet s" and st: "sys_step ser parse wf_packet (lsys s) t"
    and wait: "waiting_untouched (flight s) (sclients (lsys s)) (sclients t)"
  shows "late_inv ser wf_packet (s\<lparr>lsys := t\<rparr>)"
proof -
  have sys: "sys_inv ser (lsys s)" using inv by (simp add: late_inv_def)
  have t: "sys_inv ser t" by (rule sys_step_inv [OF st sys])
  note cl = sys_step_clients [OF st sys]
  let ?owns = "owns ser wf_packet"
  have "flight_ok ser wf_packet (sdb t) (sclients t ! c) ans" if "flight s c = Some ans" for c ans
  proof -
    have c: "c < length (sclients (lsys s))" "flight_ok ser wf_packet (sdb (lsys s)) (sclients (lsys s) ! c) ans"
      using inv that by (simp_all add: late_inv_def)
    then have same: "online (sclients t ! c) = online (sclients (lsys s) ! c)" "cbufs (sclients t ! c) = cbufs (sclients (lsys s) ! c)"
      using wait that by (simp_all add: waiting_untouched_def)
    have "app_id (capp (sclients t ! c)) = app_id (capp (sclients (lsys s) ! c))" if "online (sclients (lsys s) ! c)"
      using cl c(1) that by simp
    with same flight_ok_grows [OF c(2), of "sdb t"] cl show ?thesis
      by (cases ans) (simp_all add: flight_ok_def)
  qed
  moreover have old_new: "?owns s c i \<or> (i \<notin> user_ids (sdb (lsys s)) \<and> c < length (sclients t) \<and> online (sclients t ! c) \<and> app_id (capp (sclients t ! c)) = i)"
    if "?owns (s\<lparr>lsys := t\<rparr>) c i" for c i
  proof -
    have c: "c < length (sclients (lsys s))" using that cl by (simp add: owns_def)
    show ?thesis
    proof (cases "online (sclients (lsys s) ! c)")
      case True
      with that cl c show ?thesis by (simp add: owns_def)
    next
      case False
      with that cl c show ?thesis by (auto simp: owns_def split: if_splits)
    qed
  qed
  have "c = c'" if "?owns (s\<lparr>lsys := t\<rparr>) c i" "?owns (s\<lparr>lsys := t\<rparr>) c' i" for c c' i
  proof (rule ccontr)
    assume "c \<noteq> c'"
    moreover have "ids_apart (sclients t)" using t by (simp add: sys_inv_def)
    moreover have "\<not> (?owns s c i \<and> ?owns s c' i)"
      using owns_unique [OF inv] \<open>c \<noteq> c'\<close> by blast
    ultimately show False
      using old_new [OF that(1)] old_new [OF that(2)] owns_known [OF inv]
      unfolding ids_apart_def by metis
  qed
  ultimately show ?thesis
    using t inv cl by (auto simp: late_inv_def)
qed

text \<open>The server's half of an exchange changes no client.\<close>

lemma late_server_inv:
  assumes inv: "late_inv ser wf_packet s" and c: "c < length (sclients (lsys s))" "flight s c = None"
    and db: "db_inv db" "db_grows (sdb (lsys s)) db"
    and ans: "flight_ok ser wf_packet db (sclients (lsys s) ! c) ans"
    and own: "\<And>c' i. owns ser wf_packet \<lparr>lsys = (lsys s)\<lparr>sdb := db\<rparr>, flight = (flight s)(c \<mapsto> ans)\<rparr> c' i \<Longrightarrow>
      owns ser wf_packet s c' i \<or> c' = c \<and> i \<notin> user_ids (sdb (lsys s))"
  shows "late_inv ser wf_packet \<lparr>lsys = (lsys s)\<lparr>sdb := db\<rparr>, flight = (flight s)(c \<mapsto> ans)\<rparr>"
proof -
  have "sys_inv ser ((lsys s)\<lparr>sdb := db\<rparr>)"
    using inv db client_ok_grows by (auto simp: late_inv_def sys_inv_def list_all_iff)
  moreover have "flight_ok ser wf_packet db (sclients (lsys s) ! c') ans'" if "flight s c' = Some ans'" for c' ans'
    using inv that flight_ok_grows [OF _ db(2)] by (simp add: late_inv_def)
  moreover have "c' = c''" if "owns ser wf_packet \<lparr>lsys = (lsys s)\<lparr>sdb := db\<rparr>, flight = (flight s)(c \<mapsto> ans)\<rparr> c' i"
    "owns ser wf_packet \<lparr>lsys = (lsys s)\<lparr>sdb := db\<rparr>, flight = (flight s)(c \<mapsto> ans)\<rparr> c'' i" for c' c'' i
    using own [OF that(1)] own [OF that(2)] owns_known [OF inv] owns_unique [OF inv] by blast
  ultimately show ?thesis
    using inv c ans by (auto simp: late_inv_def)
qed

lemma reg_served_inv:
  assumes late: "late_inv ser wf_packet s"
    and given: "c < length (sclients (lsys s))"
      "\<not> online (sclients (lsys s) ! c)"
      "flight s c = None"
      "\<not> db_full (sdb (lsys s))"
      "kNewLine \<notin> set ks"
      "wf_packet (register_request (edit [] ks))"
      "wf_packet (register_packet (next_id (sdb (lsys s))))"
      "request_link (ser (register_request (edit [] ks))) rx_evs tx_evs (ser (register_packet (next_id (sdb (lsys s)))))"
      "handleRequest ser parse debug iter d rx_evs tx_evs (sdb (lsys s)) = Some (Inr (w, resp))"
  shows "late_inv ser wf_packet (\<lparr>lsys = (lsys s)\<lparr>sdb := shared_db w\<rparr>, flight = (flight s)(c \<mapsto> Reg_answer ks resp)\<rparr>)"
proof -
  let ?db = "sdb (lsys s)" and ?i = "next_id (sdb (lsys s))" and ?req = "register_request (edit [] ks)"
  have inv: "db_inv ?db" using late by (simp add: late_inv_def sys_inv_def)
  have fresh: "?i \<notin> user_ids ?db" by (rule register_fresh_id [OF inv given(4)])
  have handled: "resp = ser (register_packet ?i)" "shared_db w = fst (registerUser ?db (edit [] ks))"
    using register_handled [OF given(6), of "edit [] ks" rx_evs ?db tx_evs debug iter d] given(8,9)
    by (auto simp: request_link_def register_request_def packet_accessors kBufferSize_def kClientBuffer_def)
  have db: "db_inv (shared_db w)" "db_grows ?db (shared_db w)"
    using db_inv_register [OF inv] db_grows_register [OF inv given(4)] by (simp_all add: handled)
  have known: "?i \<in> user_ids (shared_db w)" "name_in (shared_db w) ?i = edit [] ks"
    by (simp_all add: handled registerUser_eq name_in_def)
  show ?thesis
  proof (rule late_server_inv [OF late given(1,3) db])
    show "flight_ok ser wf_packet (shared_db w) (sclients (lsys s) ! c) (Reg_answer ks resp)"
      using given(2,5,7,8) known by (auto simp: flight_ok_def handled(1) request_link_def)
    show "owns ser wf_packet s c' i \<or> c' = c \<and> i \<notin> user_ids ?db"
      if "owns ser wf_packet \<lparr>lsys = (lsys s)\<lparr>sdb := shared_db w\<rparr>, flight = (flight s)(c \<mapsto> Reg_answer ks resp)\<rparr> c' i" for c' i
    proof (cases "c' = c")
      case True
      then have "wf_packet (register_packet i)" "ser (register_packet ?i) = ser (register_packet i)"
        using that given(2) by (auto simp: owns_def handled(1))
      then have "i = ?i"
        using ser_inject [OF given(7)] register_packet_inject by metis
      with fresh True show ?thesis by simp
    qed (use that in \<open>auto simp: owns_def split: if_splits\<close>)
  qed
qed

lemma users_served_inv:
  assumes late: "late_inv ser wf_packet s"
    and given: "c < length (sclients (lsys s))"
      "online (sclients (lsys s) ! c)"
      "flight s c = None"
      "i = app_id (capp (sclients (lsys s) ! c))"
      "iteration_order iter"
      "wf_packet (users_request i)"
      "wf_packet (users_packet i (iter (user_map (sdb (lsys s)))))"
      "request_link (ser (users_request i)) rx_evs tx_evs (ser (users_packet i (iter (user_map (sdb (lsys s))))))"
      "handleRequest ser parse debug iter d rx_evs tx_evs (sdb (lsys s)) = Some (Inr (w, resp))"
  shows "late_inv ser wf_packet (\<lparr>lsys = (lsys s)\<lparr>sdb := shared_db w\<rparr>, flight = (flight s)(c \<mapsto> Users_answer resp)\<rparr>)"
proof -
  let ?db = "sdb (lsys s)" and ?cl = "sclients (lsys s) ! c"
  have sys: "sys_inv ser (lsys s)" and inv: "db_inv ?db"
    using late by (simp_all add: late_inv_def sys_inv_def)
  have cl: "client_ok ser ?db ?cl" by (rule sys_inv_client [OF sys given(1)])
  have known: "userExists ?db i"
    using cl given(2,4) by (simp add: client_ok_def userExists_iff)
  have handled: "resp = ser (users_packet i (iter (user_map ?db)))" "shared_db w = ?db"
    using users_handled [OF given(6), of i rx_evs _ ?db iter tx_evs debug d] given(8,9) known
    by (auto simp: request_link_def users_request_def packet_accessors kBufferSize_def kClientBuffer_def)
  obtain es where es: "mset es \<subseteq># mset (user_map ?db)" "zero_from (length (ser (users_packet i es))) (snd (cbufs ?cl))"
    using cl given(2,4) by (auto simp: client_ok_def bufs_ok_def)
  have ms: "mset (iter (user_map ?db)) = mset (user_map ?db)"
    using given(5) by (simp add: iteration_order_def)
  with es(1) have "length (ser (users_packet i es)) \<le> length resp"
    unfolding handled(1) by (intro users_grow) simp
  with es(2) have clean: "zero_from (length resp) (snd (cbufs ?cl))"
    by (rule zero_from_mono)
  have "distinct (map fst (iter (user_map ?db)))"
    using iteration_order_map(1) [OF given(5)] inv by (simp add: db_inv_def)
  then have "flight_ok ser wf_packet ?db ?cl (Users_answer resp)"
    using given(2,4,7,8) clean ms
    by (auto simp: flight_ok_def handled(1) request_link_def intro!: exI [of _ "iter (user_map ?db)"])
  then show ?thesis
    using late_server_inv [OF late given(1,3) inv db_grows_refl, of "Users_answer resp"]
      given(1,2,3) unfolding handled(2) by (fastforce simp: owns_def split: if_splits)
qed

lemma served_inv:
  assumes "served ser parse wf_packet c s s'" "late_inv ser wf_packet s"
  shows "late_inv ser wf_packet s'"
  using assms
proof (induction rule: served.induct)
  case (reg_served s ks rx_evs tx_evs debug iter d w resp)
  show ?case by (rule reg_served_inv [OF reg_served.prems reg_served.hyps])
next
  case (users_served s i iter rx_evs tx_evs debug d w resp)
  show ?case by (rule users_served_inv [OF users_served.prems users_served.hyps])
qed

text \<open>The client's half changes one client and takes its answer away.\<close>

lemma late_client_inv:
  assumes inv: "late_inv ser wf_packet s" and c: "c < length (sclients (lsys s))"
    and cl: "client_ok ser (sdb (lsys s)) cl" "online cl" "owns ser wf_packet s c (app_id (capp cl))"
  shows "late_inv ser wf_packet \<lparr>lsys = (lsys s)\<lparr>sclients := (sclients (lsys s))[c := cl]\<rparr>, flight = (flight s)(c := None)\<rparr>"
    (is "late_inv _ _ ?s'")
proof -
  have sys: "sys_inv ser (lsys s)" using inv by (simp add: late_inv_def)
  have owns: "owns ser wf_packet s c' i" if "owns ser wf_packet ?s' c' i" for c' i
  proof (cases "c' = c")
    case True
    then have "i = app_id (capp cl)"
      using that c cl(2) by (simp add: owns_def)
    with cl(3) True show ?thesis by simp
  qed (use that in \<open>auto simp: owns_def split: if_splits\<close>)
  have "app_id (capp (sclients (lsys s) ! c')) \<noteq> app_id (capp cl)"
    if "c' < length (sclients (lsys s))" "c' \<noteq> c" "online (sclients (lsys s) ! c')" for c'
    using that owns_unique [OF inv cl(3), of c'] by (auto simp: owns_def)
  then have "ids_apart ((sclients (lsys s))[c := cl])"
    using sys c by (intro ids_apart_update) (auto simp: sys_inv_def)
  then have "sys_inv ser \<lparr>sdb = sdb (lsys s), sclients = (sclients (lsys s))[c := cl]\<rparr>"
    using sys cl(1) by (intro sys_inv_update) (simp_all add: sys_inv_def)
  then have "sys_inv ser ((lsys s)\<lparr>sclients := (sclients (lsys s))[c := cl]\<rparr>)"
    by (simp add: sys_inv_def)
  moreover have "flight_ok ser wf_packet (sdb (lsys s)) ((sclients (lsys s))[c := cl] ! c') ans \<and> c' < length (sclients (lsys s))"
    if "((flight s)(c := None)) c' = Some ans" for c' ans
    using inv that by (auto simp: late_inv_def split: if_splits)
  ultimately show ?thesis
    using owns owns_unique [OF inv] unfolding late_inv_def by (auto, blast)
qed

lemma users_read_ok:
  assumes inv: "late_inv ser wf_packet s" and fl: "flight s c = Some (Users_answer (ser (users_packet i es)))"
    and i: "i = app_id (capp (sclients (lsys s) ! c))" and es: "wf_packet (users_packet i es)" "distinct (map fst es)"
    and read: "iteration_order citer" "answer_link (ser (users_request i)) (ser (users_packet i es)) net"
      "periodicGetOnlineUsers ser parse citer net (cbufs (sclients (lsys s) ! c)) (capp (sclients (lsys s) ! c)) = Some (Inr (a, bufs, req))"
  shows "app_maps a \<and> app_id a = i \<and> app_username a = app_username (capp (sclients (lsys s) ! c))
    \<and> map_of (name_to_id a) = last_named (others i es)
    \<and> length (fst bufs) = kClientBuffer \<and> length (snd bufs) = kClientBuffer
    \<and> zero_from (length (ser (users_packet i es))) (snd bufs)"
proof -
  let ?cl = "sclients (lsys s) ! c" and ?r = "ser (users_packet i es)" and ?q = "ser (users_request i)"
  have c: "c < length (sclients (lsys s))" and ok: "online ?cl" "length ?r \<le> kClientBuffer" "zero_from (length ?r) (snd (cbufs ?cl))"
    using late_inv_flight [OF inv fl] by (simp_all add: flight_ok_def)
  have "client_ok ser (sdb (lsys s)) ?cl"
    using inv c by (simp add: late_inv_def sys_inv_client)
  then have cl: "length (fst (cbufs ?cl)) = kClientBuffer" "length (snd (cbufs ?cl)) = kClientBuffer" "app_maps (capp ?cl)"
    using ok(1) by (simp_all add: client_ok_def bufs_ok_def)
  have link: "length ?q \<le> kClientBuffer" "ConnOk \<in> set (conns net)" "accepts_all (length ?q) (sends net)" "arrives_whole ?r (recvs net)"
    using read(2) by (simp_all add: answer_link_def)
  obtain a' where a': "periodicGetOnlineUsers ser parse citer net (fst (cbufs ?cl), snd (cbufs ?cl)) (capp ?cl)
      = Some (Inr (a', (?q @ drop (length ?q) (fst (cbufs ?cl)), ?r @ drop (length ?r) (snd (cbufs ?cl))), ?q))"
    "app_maps a'" "app_id a' = i" "app_username a' = app_username (capp ?cl)" "map_of (name_to_id a') = last_named (others i es)"
    using users_answer [OF packet_codec_axioms _ es(2,1) _ ok(2) cl(1,2) ok(3) cl(3) read(1) link(2) _ link(4)] link(1,3) i
    by auto
  then have "a = a'" "bufs = (?q @ drop (length ?q) (fst (cbufs ?cl)), ?r @ drop (length ?r) (snd (cbufs ?cl)))"
    using read(3) by simp_all
  moreover have "zero_from (length ?r) (?r @ drop (length ?r) (snd (cbufs ?cl)))"
    using ok(2,3) cl(2) by (simp add: zero_from_def)
  ultimately show ?thesis
    using a'(2-5) cl(1,2) link(1) ok(2) by simp
qed

lemma reg_read_inv:
  assumes late: "late_inv ser wf_packet s"
    and given: "flight s c = Some (Reg_answer ks resp)"
      "answer_link (ser (register_request (edit [] ks))) resp net"
      "App_registerUser ser parse (ks @ kNewLine # keys) net (capp (sclients (lsys s) ! c)) = Some (Inr (a, keys', req))"
  shows "late_inv ser wf_packet (\<lparr>lsys = (lsys s)\<lparr>sclients := (sclients (lsys s))[c :=
    (sclients (lsys s) ! c)\<lparr>capp := a, online := True\<rparr>]\<rparr>,
    flight = (flight s)(c := None)\<rparr>)"
proof -
  let ?cl = "sclients (lsys s) ! c" and ?db = "sdb (lsys s)" and ?q = "ser (register_request (edit [] ks))"
  obtain i where c: "c < length (sclients (lsys s))" and i: "\<not> online ?cl" "kNewLine \<notin> set ks" "length resp \<le> kClientBuffer"
    "resp = ser (register_packet i)" "wf_packet (register_packet i)" "i \<in> user_ids ?db" "name_in ?db i = edit [] ks"
    using late_inv_flight [OF late given(1)] by (auto simp: flight_ok_def)
  have cl: "?cl = Client_init"
    using sys_inv_client [of ser "lsys s" c] late c i(1) by (simp add: late_inv_def client_ok_def)
  have link: "length ?q \<le> kClientBuffer" "ConnOk \<in> set (conns net)" "accepts_all (length ?q) (sends net)" "arrives_whole resp (recvs net)"
    using given(2) by (simp_all add: answer_link_def)
  have "m_user_input (console App_init) = []"
    by (simp add: App_init_def Console_init_def)
  then have a: "app_username a = edit [] ks" "app_id a = i" "name_to_id a = []" "id_to_name a = []"
    using register_answer [OF packet_codec_axioms i(5) link(1) _ i(2) _ link(2,3), of App_init keys] link(4) i(3,4) given(3)
    by (auto simp: cl Client_init_def App_init_def)
  have "bufs_ok ser ?db i (cbufs Client_init)"
    unfolding bufs_ok_def by (intro conjI exI [of _ "[]"]) (simp_all add: Client_init_def)
  then have "client_ok ser ?db (?cl\<lparr>capp := a, online := True\<rparr>)"
    using i(6,7) a by (simp add: cl client_ok_def app_maps_def names_true_def)
  moreover have "owns ser wf_packet s c i"
    using c i(1,4,5) given(1) by (simp add: owns_def)
  ultimately show ?thesis
    using late_client_inv [OF late c, of "?cl\<lparr>capp := a, online := True\<rparr>"] a(2) by simp
qed

lemma users_read_inv:
  assumes late: "late_inv ser wf_packet s"
    and given: "flight s c = Some (Users_answer resp)"
      "iteration_order citer"
      "answer_link (ser (users_request (app_id (capp (sclients (lsys s) ! c))))) resp net"
      "periodicGetOnlineUsers ser parse citer net (cbufs (sclients (lsys s) ! c)) (capp (sclients (lsys s) ! c)) = Some (Inr (a, bufs, req))"
  shows "late_inv ser wf_packet (\<lparr>lsys = (lsys s)\<lparr>sclients := (sclients (lsys s))[c :=
    (sclients (lsys s) ! c)\<lparr>capp := a, cbufs := bufs\<rparr>]\<rparr>,
    flight = (flight s)(c := None)\<rparr>)"
proof -
  let ?cl = "sclients (lsys s) ! c" and ?db = "sdb (lsys s)"
  let ?i = "app_id (capp ?cl)"
  obtain es where c: "c < length (sclients (lsys s))" and cl: "online ?cl"
    and es: "resp = ser (users_packet ?i es)" "wf_packet (users_packet ?i es)" "distinct (map fst es)" "mset es \<subseteq># mset (user_map ?db)"
    using late_inv_flight [OF late given(1)] by (auto simp: flight_ok_def)
  have db: "db_inv ?db" and ok: "client_ok ser ?db ?cl"
    using late c by (simp_all add: late_inv_def sys_inv_def list_all_length)
  note new = users_read_ok [OF late _ refl es(2,3) given(2) _ given(4)]
  have a: "app_maps a" "app_id a = ?i" "app_username a = app_username (capp ?cl)" "map_of (name_to_id a) = last_named (others ?i es)"
    "length (fst bufs) = kClientBuffer" "length (snd bufs) = kClientBuffer" "zero_from (length (ser (users_packet ?i es))) (snd bufs)"
    using new given(1,3) es(1) by auto
  have "set es \<subseteq> set (user_map ?db)"
    using set_mset_mono [OF es(4)] by simp
  then have "names_true ?db a"
    using last_named_true [OF db] by (simp add: names_true_def a(2,4))
  moreover have "bufs_ok ser ?db ?i bufs"
    using a(5-7) es(4) by (auto simp: bufs_ok_def)
  ultimately have "client_ok ser ?db (?cl\<lparr>capp := a, cbufs := bufs\<rparr>)"
    using ok cl a(1-3) by (simp add: client_ok_def)
  moreover have "owns ser wf_packet s c ?i"
    using c cl by (simp add: owns_def)
  ultimately show ?thesis
    using late_client_inv [OF late c, of "?cl\<lparr>capp := a, cbufs := bufs\<rparr>"] a(2) cl by simp
qed

lemma read_inv:
  assumes "answered_late ser parse c s s'" "late_inv ser wf_packet s"
  shows "late_inv ser wf_packet s'"
  using assms
proof (induction rule: answered_late.induct)
  case (reg_read s ks resp net keys a keys' req)
  show ?case by (rule reg_read_inv [OF reg_read.prems reg_read.hyps])
next
  case (users_read s resp citer net a bufs req)
  show ?case by (rule users_read_inv [OF users_read.prems users_read.hyps])
qed

lemma late_step_inv: "late_step ser parse wf_packet s s' \<Longrightarrow> late_inv ser wf_packet s \<Longrightarrow> late_inv ser wf_packet s'"
  by (induction rule: late_step.induct) (blast intro: late_other_inv served_inv read_inv)+

lemma late_reachable_inv: "late_reachable ser parse wf_packet s \<Longrightarrow> late_inv ser wf_packet s"
  by (induction rule: late_reachable.induct) (blast intro: late_inv_init late_step_inv)+

text \<open>A registered client keeps its id.\<close>

lemma late_step_id:
  assumes "late_step ser parse wf_packet s s'" "late_inv ser wf_packet s"
    and "c < length (sclients (lsys s))" "online (sclients (lsys s) ! c)"
  shows "c < length (sclients (lsys s')) \<and> online (sclients (lsys s') ! c)
    \<and> app_id (capp (sclients (lsys s') ! c)) = app_id (capp (sclients (lsys s) ! c))"
  using assms
proof (induction rule: late_step.induct)
  case (late_other s t)
  then show ?case
    using sys_step_clients [OF late_other.hyps(1)] by (simp add: late_inv_def)
next
  case (late_served c' s s')
  then show ?case by (auto elim!: served.cases)
next
  case (late_read c' s s')
  from late_read.hyps show ?case
  proof (cases rule: answered_late.cases)
    case (reg_read ks resp net keys a keys' req)
    then have "c' \<noteq> c"
      using late_inv_flight [OF late_read.prems(1) reg_read(2)] late_read.prems(3) by (auto simp: flight_ok_def)
    with reg_read late_read.prems show ?thesis by simp
  next
    case (users_read resp citer net a bufs req)
    have "app_id a = app_id (capp (sclients (lsys s) ! c'))"
    proof -
      obtain es where es: "resp = ser (users_packet (app_id (capp (sclients (lsys s) ! c'))) es)"
        "wf_packet (users_packet (app_id (capp (sclients (lsys s) ! c'))) es)" "distinct (map fst es)"
        using late_inv_flight [OF late_read.prems(1) users_read(2)] by (auto simp: flight_ok_def)
      show ?thesis
        using users_read_ok [OF late_read.prems(1) _ refl es(2,3) users_read(3) _ users_read(5)] users_read(2,4) es(1) by blast
    qed
    with users_read late_read.prems show ?thesis
      by (cases "c = c'") simp_all
  qed
qed

lemma late_run_id:
  assumes "(late_step ser parse wf_packet)\<^sup>*\<^sup>* s s'" "late_inv ser wf_packet s"
    and "c < length (sclients (lsys s))" "online (sclients (lsys s) ! c)"
  shows "late_inv ser wf_packet s' \<and> c < length (sclients (lsys s')) \<and> online (sclients (lsys s') ! c)
    \<and> app_id (capp (sclients (lsys s') ! c)) = app_id (capp (sclients (lsys s) ! c))"
  using assms(1)
proof (induction rule: rtranclp_induct)
  case (step y z)
  then show ?case
    using late_step_inv late_step_id by metis
qed (use assms in simp)

text \<open>What an answer of the server to client \<open>c\<close> holds.\<close>

lemma served_users:
  assumes "served ser parse wf_packet c s s'" "late_inv ser wf_packet s" "online (sclients (lsys s) ! c)"
    and "i = app_id (capp (sclients (lsys s) ! c))"
  obtains iter where "iteration_order iter" "sclients (lsys s') = sclients (lsys s)" "c < length (sclients (lsys s))"
    "wf_packet (users_packet i (iter (user_map (sdb (lsys s)))))" "distinct (map fst (iter (user_map (sdb (lsys s)))))"
    "flight s' c = Some (Users_answer (ser (users_packet i (iter (user_map (sdb (lsys s)))))))"
  using assms(1)
proof (cases rule: served.cases)
  case (users_served i' iter rx_evs tx_evs debug d w resp)
  let ?db = "sdb (lsys s)"
  have sys: "sys_inv ser (lsys s)" and inv: "db_inv ?db"
    using assms(2) by (simp_all add: late_inv_def sys_inv_def)
  have i: "i' = i" using users_served(5) assms(4) by simp
  have "userExists ?db i"
    using sys_inv_client [OF sys users_served(2)] assms(3,4) by (simp add: client_ok_def userExists_iff)
  then have "resp = ser (users_packet i (iter (user_map ?db)))"
    using users_handled [of "users_request i" i rx_evs _ ?db iter tx_evs debug d] users_served(7,9,10)
    by (auto simp: i request_link_def users_request_def packet_accessors kBufferSize_def kClientBuffer_def)
  moreover have "distinct (map fst (iter (user_map ?db)))"
    using iteration_order_map(1) [OF users_served(6)] inv by (simp add: db_inv_def)
  ultimately show thesis
    using that [OF users_served(6)] users_served by (simp add: i)
qed (use assms(3) in simp)

lemma late_answer:
  assumes inv: "late_inv ser wf_packet s" and srv: "served ser parse wf_packet c s s1"
    and on: "online (sclients (lsys s) ! c)" "i = app_id (capp (sclients (lsys s) ! c))"
    and run: "(late_step ser parse wf_packet)\<^sup>*\<^sup>* s1 s2" "flight s2 c = flight s1 c"
    and read: "answered_late ser parse c s2 s3"
  shows "dom (map_of (name_to_id (capp (sclients (lsys s3) ! c)))) = name_in (sdb (lsys s)) ` (user_ids (sdb (lsys s)) - {i})
    \<and> app_id (capp (sclients (lsys s3) ! c)) = i \<and> late_inv ser wf_packet s3
    \<and> c < length (sclients (lsys s3)) \<and> online (sclients (lsys s3) ! c)"
proof -
  obtain iter where s1: "iteration_order iter" "sclients (lsys s1) = sclients (lsys s)" "c < length (sclients (lsys s))"
    "wf_packet (users_packet i (iter (user_map (sdb (lsys s)))))" "distinct (map fst (iter (user_map (sdb (lsys s)))))"
    "flight s1 c = Some (Users_answer (ser (users_packet i (iter (user_map (sdb (lsys s)))))))"
    by (rule served_users [OF srv inv on])
  have s2: "late_inv ser wf_packet s2" "c < length (sclients (lsys s2))" "online (sclients (lsys s2) ! c)"
    "i = app_id (capp (sclients (lsys s2) ! c))"
    using late_run_id [OF run(1) served_inv [OF srv inv], of c] s1(2,3) on by simp_all
  have names: "app_id (capp (sclients (lsys s3) ! c)) = i
    \<and> map_of (name_to_id (capp (sclients (lsys s3) ! c))) = last_named (others i (iter (user_map (sdb (lsys s)))))
    \<and> c < length (sclients (lsys s3)) \<and> online (sclients (lsys s3) ! c)"
    using read
  proof (cases rule: answered_late.cases)
    case (users_read resp citer net a bufs req)
    have resp: "resp = ser (users_packet i (iter (user_map (sdb (lsys s)))))"
      using users_read(2) run(2) s1(6) by simp
    have new: "app_id a = i \<and> map_of (name_to_id a) = last_named (others i (iter (user_map (sdb (lsys s)))))"
      using users_read_ok [OF s2(1) _ s2(4) s1(4,5) users_read(3) _ users_read(5)] users_read(2,4)
      by (simp add: resp flip: s2(4))
    show ?thesis
      using new users_read(1) s2(2,3) by simp
  qed (use run(2) s1(6) in simp)
  have "db_inv (sdb (lsys s))"
    using inv by (simp add: late_inv_def sys_inv_def)
  with names last_named_others(1) [OF _ s1(1)] read_inv [OF read s2(1)] show ?thesis by simp
qed

end

end
