(* ===== verification/System_Runs.thy ===== *)
theory System_Runs
  imports System
begin

text \<open>
  The properties of the server and its clients together, and a small system on the wire
  format on which they are evaluated.
\<close>

section \<open>A small system\<close>

text \<open>Two clients; the first registers as \<open>al\<close>, an unknown sender as \<open>bo\<close>, then \<open>al\<close> asks who is there.\<close>

definition example_app :: App where
  "example_app = fst (the (case App_registerUser wire_ser wire_parse ([97, 108] @ kNewLine # [])
      (net_of [Data (wire_ser (register_packet 0))]) App_init of Some (Inr x) \<Rightarrow> Some x | _ \<Rightarrow> None))"

definition bo_packet :: Packet where
  "bo_packet = (Packet_of_type PACKET_TYPE_REQUEST_REGISTER)\<lparr>req_reg := Some \<lparr>reg_username = Some ''bo''\<rparr>\<rparr>"

definition pair_users :: "(user_id_t \<times> UserMetadata) list" where
  "pair_users = [(0, \<lparr>username = ''al'', msg_q = []\<rparr>), (1, \<lparr>username = ''bo'', msg_q = []\<rparr>)]"

definition example_round :: "App \<times> (bytes \<times> bytes) \<times> bytes" where
  "example_round = the (case periodicGetOnlineUsers wire_ser wire_parse (\<lambda>xs. xs)
      (net_of [Data (wire_ser (users_packet 0 pair_users))]) (cbufs Client_init) example_app of
        Some (Inr x) \<Rightarrow> Some x | _ \<Rightarrow> None)"

definition example_system :: System where
  "example_system = \<lparr>sdb = pair_db ''bo'',
     sclients = [\<lparr>capp = fst example_round, cbufs = fst (snd example_round), online = True\<rparr>, Client_init]\<rparr>"

lemma example_typed: "edit [] [97, 108] = ''al''"
  by code_simp

lemma example_register:
  "\<exists>keys req. App_registerUser wire_ser wire_parse ([97, 108] @ kNewLine # [])
      (net_of [Data (wire_ser (register_packet 0))]) App_init = Some (Inr (example_app, keys, req))"
  "\<exists>w resp. handleRequest wire_ser wire_parse (\<lambda>p. []) (\<lambda>es. es) 4 [Data (wire_ser hello_packet)] [Sent 99] Database_init
    = Some (Inr (w, resp)) \<and> shared_db w = fst (registerUser Database_init ''al'')"
  "app_id example_app = 0" "app_username example_app = ''al''" "app_maps example_app"
  "m_user_input (console example_app) = []"
proof -
  let ?keys = "[97, 108] @ kNewLine # []" and ?net = "net_of [Data (wire_ser (register_packet 0))]"
  have id: "next_id Database_init = 0" by (simp add: Database_init_def)
  have typed: "kNewLine \<notin> set [97, 108]" "m_user_input (console App_init) = []"
    by (simp_all add: kNewLine_def App_init_def Console_init_def)
  have "\<exists>a' w. App_registerUser wire_ser wire_parse ?keys ?net App_init
      = Some (Inr (a', [], wire_ser (register_request (edit [] [97, 108]))))
    \<and> handleRequest wire_ser wire_parse (\<lambda>p. []) (\<lambda>es. es) 4 [Data (wire_ser hello_packet)] [Sent 99] Database_init
      = Some (Inr (w, wire_ser (register_packet (next_id Database_init))))
    \<and> app_username a' = edit [] [97, 108]
    \<and> (shared_db w, app_id a') = registerUser Database_init (edit [] [97, 108])
    \<and> register_errors (register_packet (next_id Database_init)) = []
    \<and> name_to_id a' = name_to_id App_init \<and> id_to_name a' = id_to_name App_init \<and> m_user_input (console a') = []"
    by (rule register_exchange [OF wire.packet_codec_axioms])
      (simp_all add: typed id example_typed example_requests example_packets_wf example_packets_ser example_replies
        example_replies_wf net_of_def kNewLine_def arrives_wholeI kClientBuffer_def accepts_all_def accepts_def)
  then obtain a' w where r: "App_registerUser wire_ser wire_parse ?keys ?net App_init
      = Some (Inr (a', [], wire_ser (register_request (edit [] [97, 108]))))"
    "handleRequest wire_ser wire_parse (\<lambda>p. []) (\<lambda>es. es) 4 [Data (wire_ser hello_packet)] [Sent 99] Database_init
      = Some (Inr (w, wire_ser (register_packet (next_id Database_init))))"
    "app_username a' = ''al''" "(shared_db w, app_id a') = registerUser Database_init ''al''"
    "name_to_id a' = []" "id_to_name a' = []" "m_user_input (console a') = []"
    unfolding example_typed by (auto simp: App_init_def)
  have a: "example_app = a'" by (simp only: example_app_def r(1)) simp
  show "\<exists>keys req. App_registerUser wire_ser wire_parse ?keys ?net App_init = Some (Inr (example_app, keys, req))"
    using r(1) a by blast
  show "app_id example_app = 0" "app_username example_app = ''al''" "app_maps example_app"
    "m_user_input (console example_app) = []"
    using r(3-7) by (simp_all add: a registerUser_eq id app_maps_def)
  show "\<exists>w resp. handleRequest wire_ser wire_parse (\<lambda>p. []) (\<lambda>es. es) 4 [Data (wire_ser hello_packet)] [Sent 99] Database_init
    = Some (Inr (w, resp)) \<and> shared_db w = fst (registerUser Database_init ''al'')"
    using r(2,4) by (metis fst_conv)
qed

lemma example_round_eq:
  "periodicGetOnlineUsers wire_ser wire_parse (\<lambda>xs. xs)
      (net_of [Data (wire_ser (users_packet 0 pair_users))]) (cbufs Client_init) example_app = Some (Inr example_round)"
  "\<exists>w resp. handleRequest wire_ser wire_parse (\<lambda>p. []) (\<lambda>es. es) 4 [Data (wire_ser who_packet)] [Sent 99] (pair_db ''bo'')
    = Some (Inr (w, resp)) \<and> shared_db w = pair_db ''bo''"
  "app_id (fst example_round) = 0" "map_of (name_to_id (fst example_round)) = [''bo'' \<mapsto> 1]"
  "m_user_input (console (fst example_round)) = []"
proof -
  let ?net = "net_of [Data (wire_ser (users_packet 0 pair_users))]" and ?db = "pair_db ''bo''"
  have db: "user_map ?db = pair_users" "db_inv ?db" "userExists ?db 0"
  proof -
    show "user_map ?db = pair_users" by (simp add: pair_db_eq pair_users_def)
    show "db_inv ?db" by (simp add: pair_db_def db_inv_register db_inv_init)
  qed (simp add: pair_db_eq userExists_def)
  have ids: "user_ids ?db - {0} = {1}"
    by (auto simp: user_ids_def pair_db_eq)
  have it: "iteration_order (\<lambda>xs. xs)" "iteration_order (\<lambda>xs. xs)"
    by (simp_all add: iteration_order_def)
  have users: "wire_ser (users_packet 0 pair_users) = [10, 2, 8, 5, 58, 10, 8, 0, 18, 6, 8, 1, 18, 2, 98, 111]"
    "wf_wire (users_packet 0 pair_users)"
    unfolding pair_users_def by (rule example_replies example_replies_wf)+
  have "\<exists>a' w. periodicGetOnlineUsers wire_ser wire_parse (\<lambda>xs. xs) ?net
        (replicate kClientBuffer 0, replicate kClientBuffer 0) example_app
      = Some (Inr (a', (wire_ser (users_request (app_id example_app)) @ drop (length (wire_ser (users_request (app_id example_app)))) (replicate kClientBuffer 0),
          wire_ser (users_packet 0 pair_users) @ drop (length (wire_ser (users_packet 0 pair_users))) (replicate kClientBuffer 0)),
          wire_ser (users_request (app_id example_app))))
    \<and> handleRequest wire_ser wire_parse (\<lambda>p. []) (\<lambda>es. es) 4 [Data (wire_ser who_packet)] [Sent 99] ?db
      = Some (Inr (w, wire_ser (users_packet 0 pair_users)))
    \<and> shared_db w = ?db \<and> app_maps a' \<and> app_id a' = app_id example_app \<and> app_username a' = app_username example_app
    \<and> m_user_input (console a') = m_user_input (console example_app)
    \<and> dom (map_of (name_to_id a')) = name_in ?db ` (user_ids ?db - {app_id example_app})
    \<and> (\<forall>n i. map_of (name_to_id a') n = Some i \<longrightarrow> i \<in> user_ids ?db - {app_id example_app} \<and> name_in ?db i = n)"
    by (rule users_exchange [OF wire.packet_codec_axioms])
      (simp_all add: example_register db it example_requests example_packets_wf example_packets_ser users
        net_of_def arrives_wholeI kClientBuffer_def accepts_all_def accepts_def)
  then obtain a' bufs req w where r: "periodicGetOnlineUsers wire_ser wire_parse (\<lambda>xs. xs) ?net
        (replicate kClientBuffer 0, replicate kClientBuffer 0) example_app = Some (Inr (a', bufs, req))"
    "handleRequest wire_ser wire_parse (\<lambda>p. []) (\<lambda>es. es) 4 [Data (wire_ser who_packet)] [Sent 99] ?db
      = Some (Inr (w, wire_ser (users_packet 0 pair_users)))" "shared_db w = ?db" "app_id a' = 0"
    "dom (map_of (name_to_id a')) = name_in ?db ` {1}" "\<forall>n i. map_of (name_to_id a') n = Some i \<longrightarrow> i \<in> {1}"
    "m_user_input (console a') = []"
    by (auto simp: example_register ids)
  have round: "example_round = (a', bufs, req)"
    unfolding example_round_def using r(1) by (simp add: Client_init_def)
  show "periodicGetOnlineUsers wire_ser wire_parse (\<lambda>xs. xs) ?net (cbufs Client_init) example_app = Some (Inr example_round)"
    using r(1) by (simp add: round Client_init_def)
  show "\<exists>w resp. handleRequest wire_ser wire_parse (\<lambda>p. []) (\<lambda>es. es) 4 [Data (wire_ser who_packet)] [Sent 99] ?db
    = Some (Inr (w, resp)) \<and> shared_db w = ?db"
    using r(2,3) by blast
  show "app_id (fst example_round) = 0" "m_user_input (console (fst example_round)) = []"
    by (simp_all add: round r(4,7))
  have bo: "name_in ?db 1 = ''bo''" by (simp add: name_in_def Database_at_def pair_db_eq)
  have dom: "dom (map_of (name_to_id a')) = {''bo''}"
    using r(5) by (simp add: bo)
  then have "map_of (name_to_id a') ''bo'' \<noteq> None" by blast
  then have "map_of (name_to_id a') ''bo'' = Some 1"
    using r(6) by blast
  with dom show "map_of (name_to_id (fst example_round)) = [''bo'' \<mapsto> 1]"
    unfolding round fst_conv by (metis dom_eq_singleton_conv fun_upd_same option.inject)
qed

lemma bo_handled:
  "\<exists>w resp. handleRequest wire_ser wire_parse (\<lambda>p. []) (\<lambda>es. es) 5 [Data (wire_ser bo_packet)] [Sent 99]
      (fst (registerUser Database_init ''al'')) = Some (Inr (w, resp)) \<and> shared_db w = pair_db ''bo''"
proof -
  let ?db = "fst (registerUser Database_init ''al'')"
  have id: "next_id ?db = 1" by (simp add: registerUser_eq Database_init_def)
  have ser: "wire_ser bo_packet = [10, 2, 8, 0, 18, 4, 10, 2, 98, 111]"
    "wire_ser (register_packet 1) = [10, 2, 8, 4, 50, 4, 8, 0, 16, 1]"
    by code_simp+
  have "wf_PacketType (packet_type bo_packet) \<and> list_all ascii (packet_strings bo_packet)"
    by code_simp
  then have wf: "wf_wire bo_packet" by (simp add: wf_wire_def ser)
  have fields: "hdr bo_packet = Some \<lparr>hdr_packet_type = Some PACKET_TYPE_REQUEST_REGISTER\<rparr>"
    "req_reg bo_packet = Some \<lparr>reg_username = Some ''bo''\<rparr>"
    by (simp_all add: bo_packet_def packet_accessors)
  show ?thesis
    using wire.register_handled [OF wf _ fields, of "[Data (wire_ser bo_packet)]" ?db "[Sent 99]" "\<lambda>p. []" "\<lambda>es. es" 5]
    by (auto simp: ser id arrives_wholeI kBufferSize_def accepts_all_def accepts_def pair_db_def)
qed

lemma not_full: "length (user_map db) \<le> 2 \<Longrightarrow> \<not> db_full db"
  by (simp add: db_full_def)

definition example_waiting :: System where
  "example_waiting = \<lparr>sdb = pair_db ''bo'', sclients = [Client_init\<lparr>capp := example_app, online := True\<rparr>, Client_init]\<rparr>"

lemma iteration_order_id: "iteration_order (\<lambda>es. es)"
  by (simp add: iteration_order_def)

lemma pair_users_wire:
  "wire_ser (users_packet 0 pair_users) = [10, 2, 8, 5, 58, 10, 8, 0, 18, 6, 8, 1, 18, 2, 98, 111]"
  "wf_wire (users_packet 0 pair_users)"
  unfolding pair_users_def by (rule example_replies example_replies_wf)+

lemma pair_db_users: "user_map (pair_db ''bo'') = pair_users"
  by (simp add: pair_db_eq pair_users_def)

lemma example_waiting_reachable: "sys_reachable wire_ser wire_parse wf_wire example_waiting"
proof -
  let ?step = "sys_step wire_ser wire_parse wf_wire"
  let ?db = "fst (registerUser Database_init ''al'')"
  let ?c1 = "Client_init\<lparr>capp := example_app, online := True\<rparr>"
  have id: "next_id Database_init = 0" by (simp add: Database_init_def)
  have two: "System_init 2 = \<lparr>sdb = Database_init, sclients = [Client_init, Client_init]\<rparr>"
    by (simp add: System_init_def numeral_2_eq_2)
  have init: "capp Client_init = App_init" "\<not> online Client_init"
    by (simp_all add: Client_init_def)
  have link1: "link_ok (wire_ser (register_request (edit [] [97, 108]))) (wire_ser (register_packet 0))
      (net_of [Data (wire_ser (register_packet 0))]) [Data (wire_ser hello_packet)] [Sent 99]"
    by (simp add: link_ok_def example_typed example_requests example_packets_ser example_replies net_of_def
        arrives_wholeI kClientBuffer_def accepts_all_def accepts_def)
  obtain keys req w resp where reg:
    "App_registerUser wire_ser wire_parse ([97, 108] @ kNewLine # []) (net_of [Data (wire_ser (register_packet 0))]) App_init
      = Some (Inr (example_app, keys, req))"
    "handleRequest wire_ser wire_parse (\<lambda>p. []) (\<lambda>es. es) 4 [Data (wire_ser hello_packet)] [Sent 99] Database_init
      = Some (Inr (w, resp))" "shared_db w = ?db"
    using example_register(1,2) by blast
  have "?step (System_init 2) \<lparr>sdb = shared_db w, sclients = (sclients (System_init 2))[0 := (sclients (System_init 2) ! 0)\<lparr>capp := example_app, online := True\<rparr>]\<rparr>"
    by (rule sys_step.sys_register [where ks = "[97, 108]" and keys = "[]"])
      (use link1 reg in \<open>simp_all add: two init id not_full Database_init_def kNewLine_def example_typed example_requests
        example_packets_wf example_replies_wf\<close>)
  then have s1: "?step (System_init 2) \<lparr>sdb = ?db, sclients = [?c1, Client_init]\<rparr>"
    by (simp add: two reg(3))
  obtain w2 resp2 where bo: "handleRequest wire_ser wire_parse (\<lambda>p. []) (\<lambda>es. es) 5 [Data (wire_ser bo_packet)] [Sent 99] ?db
      = Some (Inr (w2, resp2))" "shared_db w2 = pair_db ''bo''"
    using bo_handled by blast
  have s2: "?step \<lparr>sdb = ?db, sclients = [?c1, Client_init]\<rparr> \<lparr>sdb = pair_db ''bo'', sclients = [?c1, Client_init]\<rparr>"
    using sys_step.sys_stranger [of "\<lparr>sdb = ?db, sclients = [?c1, Client_init]\<rparr>"] bo
    by (fastforce simp: not_full registerUser_eq Database_set_def Database_init_def)
  show ?thesis
    unfolding example_waiting_def by (rule sys_next [OF sys_next [OF sys_init s1] s2])
qed

lemma example_reachable: "sys_reachable wire_ser wire_parse wf_wire example_system"
proof -
  obtain w3 resp3 where who: "handleRequest wire_ser wire_parse (\<lambda>p. []) (\<lambda>es. es) 4 [Data (wire_ser who_packet)] [Sent 99] (pair_db ''bo'')
      = Some (Inr (w3, resp3))" "shared_db w3 = pair_db ''bo''"
    using example_round_eq(2) by blast
  obtain a bufs req3 where round: "example_round = (a, bufs, req3)"
    using prod_cases3 by blast
  have link3: "link_ok (wire_ser (users_request 0)) (wire_ser (users_packet 0 pair_users))
      (net_of [Data (wire_ser (users_packet 0 pair_users))]) [Data (wire_ser who_packet)] [Sent 99]"
    by (simp add: link_ok_def example_requests example_packets_ser pair_users_wire net_of_def
        arrives_wholeI kClientBuffer_def accepts_all_def accepts_def)
  let ?s2 = "example_waiting"
  have "sys_step wire_ser wire_parse wf_wire ?s2 \<lparr>sdb = shared_db w3, sclients = (sclients ?s2)[0 := (sclients ?s2 ! 0)\<lparr>capp := a, cbufs := bufs\<rparr>]\<rparr>"
    by (rule sys_step.sys_users [where iter = "\<lambda>es. es" and citer = "\<lambda>xs. xs" and i = 0])
      (use link3 who example_round_eq(1) in \<open>simp_all add: round iteration_order_id pair_db_users example_register example_requests
        example_packets_wf pair_users_wire example_waiting_def\<close>)
  then have s3: "sys_step wire_ser wire_parse wf_wire ?s2 example_system"
    by (simp add: who(2) example_system_def round Client_init_def example_waiting_def)
  show ?thesis
    by (rule sys_next [OF example_waiting_reachable s3])
qed

lemma chat_sends:
  assumes "select_target keys a = Some (a1, Some name, typed_lines kss @ tail)" "map_of (name_to_id a) name = Some i"
    and "list_all (\<lambda>ks. kNewLine \<notin> set ks) kss" "kNewLine \<notin> set tail"
    and "taskChatWithUser ser parse keys nets a = Some (Inr (a2, rest, wire))"
  shows "chat_sent ser (app_id a) i nets kss tail rest wire"
proof -
  have same: "same_user a a1" and "m_user_input (console a1) = []"
    using select_target_same [OF assms(1)] select_target_clears [OF assms(1)] by auto
  moreover have "chat_loop ser parse name (typed_lines kss @ tail) nets
      (replicate kClientBuffer 0, replicate kClientBuffer 0) a1 [] = Some (Inr (a2, rest, wire))"
    using assms(5) by (simp add: taskChatWithUser_def assms(1))
  ultimately show ?thesis
    using chat_loop_sends [of ser parse name kss tail nets _ a1 "[]"] assms(2-4) by (fastforce simp: same_user_def)
qed

text \<open>A chat in which \<open>hi\<close> is sent, answered, and the user leaves.\<close>

definition sent_packet :: Packet where
  "sent_packet = (Packet_of_type PACKET_TYPE_RESP_SEND)\<lparr>resp_send := Some \<lparr>send_resp_value = Some 0\<rparr>\<rparr>"

definition chat_net :: Net where
  "chat_net = net_of [Data (wire_ser sent_packet)]"

definition chat_lines :: "int list list" where
  "chat_lines = [[104, 105], [120]]"

lemma chat_lines_typed:
  "edit [] [104, 105] = ''hi''" "edit [] [120] = ''x''"
  "typed_lines chat_lines @ [] = [104, 105, 0x0A, 120, 0x0A]" "list_all (\<lambda>ks. kNewLine \<notin> set ks) chat_lines"
  by (code_simp, code_simp) (simp_all add: chat_lines_def kNewLine_def)

lemma example_chat:
  assumes "app_id a = 0" "map_of (name_to_id a) ''bo'' = Some 1" "m_user_input (console a) = []"
  shows "\<exists>a' w. chat_loop wire_ser wire_parse ''bo'' [104, 105, 0x0A, 120, 0x0A] [chat_net]
      (replicate kClientBuffer 0, replicate kClientBuffer 0) a [] = Some (Inr (a', [], w))"
proof -
  let ?req = "send_request 0 1 ''hi''" and ?p = "''Send message to '' @ ''bo'' @ ''>''"
  have ser: "length (wire_ser ?req) = 14" "length (wire_ser sent_packet) = 8"
    by code_simp+
  have "wf_PacketType (packet_type sent_packet) \<and> list_all ascii (packet_strings sent_packet)"
    by code_simp
  then have wf: "wf_wire sent_packet" by (simp add: wf_wire_def ser)
  have keys: "kNewLine \<notin> set [104, 105]" "kNewLine \<notin> set [120]" by (simp_all add: kNewLine_def)
  obtain c where c: "Console_read ?p ([104, 105] @ kNewLine # [120, 0x0A]) (console a) = Some (c, ''hi'', [120, 0x0A])"
    "m_user_input c = []"
    using Console_read_line [OF keys(1) assms(3), of ?p "[120, 0x0A]"] by (auto simp: chat_lines_typed)
  obtain s where s: "connect_server chat_net = Some s"
    using connect_server_ok [of chat_net] by (auto simp: chat_net_def net_of_sel)
  obtain x where x: "transact wire_ser wire_parse ?req s chat_net (replicate kClientBuffer 0) (replicate kClientBuffer 0)
      = Some (Inr x)" "resp_packet x = sent_packet"
    using wire.transact_answered [of ?req "replicate kClientBuffer 0" chat_net sent_packet "replicate kClientBuffer 0" s] wf
    by (simp add: chat_net_def net_of_sel ser kClientBuffer_def arrives_wholeI) (simp add: sent_packet_def packet_accessors)
  have v: "send_resp_value (get_resp_send sent_packet) = Some 0"
    by (simp add: sent_packet_def packet_accessors)
  let ?a1 = "write_line (send_report 0) (add_cerr (sock_errs x) (a\<lparr>console := c\<rparr>))"
  have "m_user_input (console ?a1) = []" using c(2) by simp
  from Console_read_line [OF keys(2) this, of ?p "[]"]
  obtain c' where c': "Console_read ?p [120, 0x0A] (console ?a1) = Some (c', ''x'', [])"
    by (auto simp: chat_lines_typed kNewLine_def)
  have "chat_loop wire_ser wire_parse ''bo'' [120, 0x0A] [] bufs ?a1 w = Some (Inr (?a1\<lparr>console := c'\<rparr>, [], w))" for bufs w
    unfolding chat_loop.simps [of _ _ _ "[120, 0x0A]"] c' by simp
  moreover have "chat_loop wire_ser wire_parse ''bo'' [104, 105, 0x0A, 120, 0x0A] [chat_net]
      (replicate kClientBuffer 0, replicate kClientBuffer 0) a []
    = chat_loop wire_ser wire_parse ''bo'' [120, 0x0A] [] (tx_buf x, rx_buf x) ?a1 (on_wire x)"
    using c(1) unfolding chat_loop.simps [of _ _ _ "[104, 105, 0x0A, 120, 0x0A]"]
    by (simp add: kNewLine_def s assms name_to_id_ref_def x v)
  ultimately have "chat_loop wire_ser wire_parse ''bo'' [104, 105, 0x0A, 120, 0x0A] [chat_net]
      (replicate kClientBuffer 0, replicate kClientBuffer 0) a [] = Some (Inr (?a1\<lparr>console := c'\<rparr>, [], on_wire x))"
    by (rule trans [rotated])
  then show ?thesis by blast
qed

lemma example_chat_sent:
  assumes "chat_sent wire_ser 0 1 [chat_net] chat_lines [] [] w"
  shows "w = wire_ser (send_request 0 1 ''hi'')"
proof -
  obtain parts where parts: "length parts \<le> 1" "w = concat parts"
    "\<forall>j < length parts. sent_as wire_ser 0 1 ([chat_net] ! j) (chat_lines ! j) (parts ! j)"
    "edit [] (chat_lines ! length parts) = ''x'' \<or> typed_lines (drop (length parts) chat_lines) = []"
    using assms by (auto simp: chat_sent_def)
  have "length parts \<noteq> 0"
    using parts(4) by (auto simp: chat_lines_def chat_lines_typed)
  then have "length parts = 1" using parts(1) by linarith
  then obtain p where p: "parts = [p]" by (auto simp: length_Suc_conv)
  have "list_all send_retry (sends chat_net)" by (simp add: chat_net_def net_of_def)
  with parts(2,3) show ?thesis
    by (simp add: p sent_as_def chat_lines_def chat_lines_typed)
qed

section \<open>Properties\<close>

text \<open>
  What the two programs keep true together, in every state they can reach by
  registrations, rounds of the online-users threads, commands and requests of unknown
  senders, in any order and while ids are left: the server knows every client whose
  registration has returned under the id and the name the client holds, no two clients
  have the same id, a client's two maps are inverse to each other, and every name in
  them leads to another registered user of that name.
\<close>

lemma clients_consistent:
  assumes "growing_codec ser parse wf_packet" "sys_reachable ser parse wf_packet s"
    and "c < length (sclients s)" "online (sclients s ! c)" "a = capp (sclients s ! c)"
  shows "userExists (sdb s) (app_id a) \<and> name_in (sdb s) (app_id a) = app_username a
    \<and> (\<forall>c' < length (sclients s). c' \<noteq> c \<and> online (sclients s ! c') \<longrightarrow> app_id (capp (sclients s ! c')) \<noteq> app_id a)
    \<and> app_maps a
    \<and> (\<forall>n i. map_of (name_to_id a) n = Some i \<longrightarrow> i \<noteq> app_id a \<and> userExists (sdb s) i \<and> name_in (sdb s) i = n)"
proof -
  have inv: "sys_inv ser s"
    by (rule growing_codec.sys_reachable_inv [OF assms(1,2)])
  then have "ids_apart (sclients s)"
    by (simp add: sys_inv_def)
  then show ?thesis
    using sys_inv_client [OF inv assms(3)] assms(3-5)
    by (auto simp: client_ok_def names_true_def ids_apart_def userExists_iff)
qed

lemma clients_consistent_example:
  "name_in (sdb example_system) (app_id (fst example_round)) = app_username (fst example_round)
    \<and> map_of (name_to_id (fst example_round)) ''bo'' = Some 1 \<and> name_in (sdb example_system) 1 = ''bo''"
proof -
  have sys: "0 < length (sclients example_system)" "online (sclients example_system ! 0)"
    "fst example_round = capp (sclients example_system ! 0)"
    by (simp_all add: example_system_def)
  have bo: "map_of (name_to_id (fst example_round)) ''bo'' = Some 1"
    by (simp add: example_round_eq(4))
  with clients_consistent [OF wire.growing_codec_axioms example_reachable sys] show ?thesis
    by blast
qed

text \<open>
  C4. A chat message is addressed to the user whose name was typed: in every state reachable by
  the steps of \<open>sys_step\<close>, whatever lines are typed and whatever the peer answers, every
  message of a chat that has returned is on the wire as a send request from the client's own id
  to the id behind the chosen name, in order, up to the first line \<open>x\<close> or an answer without a
  response value; on a connection without a send error the whole request, else a prefix of
  it. That id belongs to another registered user of that name, and when no two users
  share a name it is the id of the client that registered under it. (The server of this
  repository never answers a send request, so that with it the loop waits after the
  first message; the chat is stated for the answers of any peer.)
\<close>

theorem chat_addresses_named:
  assumes "growing_codec ser parse wf_packet" "sys_reachable ser parse wf_packet s"
    and "c < length (sclients s)" "online (sclients s ! c)"
    and "select_target keys (capp (sclients s ! c)) = Some (a', Some name, rest)"
    and "i = snd (name_to_id_ref name a')"
    and "c' < length (sclients s)" "online (sclients s ! c')"
  shows "userExists (sdb s) i \<and> name_in (sdb s) i = name \<and> i \<noteq> app_id a'
    \<and> (app_id (capp (sclients s ! c')) = i \<longrightarrow> app_username (capp (sclients s ! c')) = name)
    \<and> (inj_on (name_in (sdb s)) (user_ids (sdb s)) \<and> app_username (capp (sclients s ! c')) = name
        \<longrightarrow> app_id (capp (sclients s ! c')) = i)
    \<and> (\<forall>kss tail nets a'' rest' wire. rest = typed_lines kss @ tail
        \<and> list_all (\<lambda>ks. kNewLine \<notin> set ks) kss \<and> kNewLine \<notin> set tail
        \<and> taskChatWithUser ser parse keys nets (capp (sclients s ! c)) = Some (Inr (a'', rest', wire))
        \<longrightarrow> chat_sent ser (app_id (capp (sclients s ! c))) i nets kss tail rest' wire)"
proof -
  have inv: "sys_inv ser s"
    by (rule growing_codec.sys_reachable_inv [OF assms(1,2)])
  have same: "same_user (capp (sclients s ! c)) a'"
    by (rule select_target_same [OF assms(5)])
  then have "map_of (name_to_id a') name \<noteq> None"
    using select_target_sound [OF assms(5)] by simp
  then have i: "map_of (name_to_id (capp (sclients s ! c))) name = Some i"
    using assms(6) same by (auto simp: name_to_id_ref_known same_user_def)
  have "i \<in> user_ids (sdb s)" "i \<noteq> app_id a'" "name_in (sdb s) i = name"
    using sys_inv_client [OF inv assms(3)] assms(4) i same by (auto simp: client_ok_def names_true_def same_user_def)
  moreover have "app_id (capp (sclients s ! c')) \<in> user_ids (sdb s)"
    "name_in (sdb s) (app_id (capp (sclients s ! c'))) = app_username (capp (sclients s ! c'))"
    using sys_inv_client [OF inv assms(7)] assms(8) by (auto simp: client_ok_def)
  moreover have "chat_sent ser (app_id (capp (sclients s ! c))) i nets kss tail rest' wire"
    if "rest = typed_lines kss @ tail" "list_all (\<lambda>ks. kNewLine \<notin> set ks) kss" "kNewLine \<notin> set tail"
      "taskChatWithUser ser parse keys nets (capp (sclients s ! c)) = Some (Inr (a'', rest', wire))"
    for kss tail nets a'' rest' wire
    by (rule chat_sends [OF assms(5) [unfolded that(1)] i that(2-4)])
  ultimately show ?thesis
    by (auto simp: userExists_iff dest: inj_onD)
qed

lemma example_select:
  "\<exists>a'. select_target (98 # 111 # 0x0A # rest) (fst example_round) = Some (a', Some ''bo'', rest)
    \<and> same_user (fst example_round) a'"
proof -
  have e: "edit [] [98, 111] = ''bo''" by code_simp
  have "kNewLine \<notin> set [98, 111]" by (simp add: kNewLine_def)
  from Console_read_line [OF this example_round_eq(5), of target_prompt rest]
  obtain c where "Console_read target_prompt (98 # 111 # 0x0A # rest) (console (fst example_round)) = Some (c, ''bo'', rest)"
    by (auto simp: e kNewLine_def)
  then show ?thesis
    by (simp add: select_target.simps example_round_eq(4))
qed

lemma example_al: "app_username (fst example_round) = ''al''"
proof -
  have "client_ok wire_ser (pair_db ''bo'') \<lparr>capp = fst example_round, cbufs = fst (snd example_round), online = True\<rparr>"
    using sys_inv_client [OF wire.sys_reachable_inv [OF example_reachable], of 0] by (simp add: example_system_def)
  then show ?thesis
    by (simp add: client_ok_def example_round_eq pair_db_eq name_in_def Database_at_def)
qed

theorem chat_addresses_named_witness:
  "\<exists>a'. taskChatWithUser wire_ser wire_parse [98, 111, 0x0A, 104, 105, 0x0A, 120, 0x0A] [chat_net] (fst example_round)
      = Some (Inr (a', [], wire_ser (send_request 0 1 ''hi''))) \<and> name_in (sdb example_system) 1 = ''bo''"
proof -
  let ?rest = "[104, 105, 0x0A, 120, 0x0A]"
  have c: "0 < length (sclients example_system)" "online (sclients example_system ! 0)"
    "capp (sclients example_system ! 0) = fst example_round"
    by (simp_all add: example_system_def)
  obtain a1 where sel: "select_target (98 # 111 # 0x0A # ?rest) (fst example_round) = Some (a1, Some ''bo'', ?rest)"
    "same_user (fst example_round) a1"
    using example_select by blast
  have a1: "app_id a1 = 0" "map_of (name_to_id a1) ''bo'' = Some 1" "m_user_input (console a1) = []"
    using sel(2) select_target_clears [OF sel(1)] by (simp_all add: same_user_def example_round_eq)
  then have i: "1 = snd (name_to_id_ref ''bo'' a1)" by (simp add: name_to_id_ref_def)
  obtain a2 w where chat: "taskChatWithUser wire_ser wire_parse (98 # 111 # 0x0A # ?rest) [chat_net] (fst example_round)
      = Some (Inr (a2, [], w))"
    using example_chat [OF a1] by (auto simp: taskChatWithUser_def sel(1))
  have rest: "?rest = typed_lines chat_lines @ [] \<and> list_all (\<lambda>ks. kNewLine \<notin> set ks) chat_lines
      \<and> kNewLine \<notin> set ([] :: int list)
      \<and> taskChatWithUser wire_ser wire_parse (98 # 111 # 0x0A # ?rest) [chat_net] (capp (sclients example_system ! 0))
        = Some (Inr (a2, [], w))"
    using chat chat_lines_typed by (simp add: c(3))
  note named = chat_addresses_named [OF wire.growing_codec_axioms example_reachable c(1,2) sel(1) [folded c(3)] i c(1,2)]
  from named rest have "chat_sent wire_ser (app_id (capp (sclients example_system ! 0))) 1 [chat_net] chat_lines [] [] w"
    by blast
  then have "w = wire_ser (send_request 0 1 ''hi'')"
    by (simp add: c(3) example_round_eq(3) example_chat_sent)
  moreover have "name_in (sdb example_system) 1 = ''bo''" using named by blast
  ultimately show ?thesis
    using chat by blast
qed

text \<open>
  C14. The partner of a chat stays known: whatever steps of \<open>sys_step\<close> the system makes after
  a client has chosen a partner (exchanges whose requests and answers arrive whole and fit the
  client's buffer, commands, requests of unknown senders; an answer of 1001 to 1024 bytes,
  which the client cuts, is not among them, see \<open>long_answer_cut\<close>), its map still holds the
  name, no entry with id 0 is created, and the messages typed from then on are sent as
  requests to the id the map then has for the name, that of another registered user of that name.
\<close>

theorem chat_partner_stays:
  assumes "growing_codec ser parse wf_packet" "sys_reachable ser parse wf_packet s"
    and "c < length (sclients s)" "online (sclients s ! c)"
    and "select_target keys (capp (sclients s ! c)) = Some (a', Some name, rest)"
    and "(sys_step ser parse wf_packet)\<^sup>*\<^sup>* s s'" "a = capp (sclients s' ! c)"
  shows "\<exists>i. name_to_id_ref name a = (a, i) \<and> userExists (sdb s') i \<and> name_in (sdb s') i = name \<and> i \<noteq> app_id a
    \<and> (\<forall>con kss tail nets bufs a'' rest' wire. m_user_input con = []
        \<and> list_all (\<lambda>ks. kNewLine \<notin> set ks) kss \<and> kNewLine \<notin> set tail
        \<and> chat_loop ser parse name (typed_lines kss @ tail) nets bufs (a\<lparr>console := con\<rparr>) [] = Some (Inr (a'', rest', wire))
        \<longrightarrow> chat_sent ser (app_id a) i nets kss tail rest' wire)"
proof -
  have inv: "sys_inv ser s"
    by (rule growing_codec.sys_reachable_inv [OF assms(1,2)])
  note run = growing_codec.sys_run_names [OF assms(1,6) inv assms(3,4)]
  have "map_of (name_to_id (capp (sclients s ! c))) name \<noteq> None"
    using select_target_sound [OF assms(5)] by simp
  then obtain i where i: "map_of (name_to_id a) name = Some i"
    using run by (fastforce simp: assms(7))
  have "client_ok ser (sdb s') (sclients s' ! c)"
    using run assms(3) by (simp add: sys_inv_client)
  then have "userExists (sdb s') i \<and> name_in (sdb s') i = name \<and> i \<noteq> app_id a"
    using run i by (auto simp: assms(7) client_ok_def names_true_def userExists_iff)
  moreover have "chat_sent ser (app_id a) i nets kss tail rest' wire"
    if "m_user_input con = []" "list_all (\<lambda>ks. kNewLine \<notin> set ks) kss" "kNewLine \<notin> set tail"
      "chat_loop ser parse name (typed_lines kss @ tail) nets bufs (a\<lparr>console := con\<rparr>) [] = Some (Inr (a'', rest', wire))"
    for con kss tail nets bufs a'' rest' wire
    using chat_loop_sends [OF that(4) _ _ that(2,3)] i that(1) by simp
  moreover have "name_to_id_ref name a = (a, i)"
    using i by (simp add: name_to_id_ref_known)
  ultimately show ?thesis by blast
qed

theorem chat_partner_stays_witness:
  "\<exists>a'. chat_loop wire_ser wire_parse ''bo'' [104, 105, 0x0A, 120, 0x0A] [chat_net]
      (replicate kClientBuffer 0, replicate kClientBuffer 0) (fst example_round)
      [] = Some (Inr (a', [], wire_ser (send_request 0 1 ''hi'')))"
proof -
  let ?a = "fst example_round" and ?bufs = "(replicate kClientBuffer 0, replicate kClientBuffer 0)"
  have c: "0 < length (sclients example_system)" "online (sclients example_system ! 0)"
    "?a = capp (sclients example_system ! 0)"
    by (simp_all add: example_system_def)
  obtain a1 where sel: "select_target [98, 111, 0x0A] ?a = Some (a1, Some ''bo'', [])"
    using example_select by blast
  obtain i where i: "name_to_id_ref ''bo'' ?a = (?a, i)"
    "\<forall>con kss tail nets bufs a'' rest' wire. m_user_input con = []
        \<and> list_all (\<lambda>ks. kNewLine \<notin> set ks) kss \<and> kNewLine \<notin> set tail
        \<and> chat_loop wire_ser wire_parse ''bo'' (typed_lines kss @ tail) nets bufs (?a\<lparr>console := con\<rparr>) [] = Some (Inr (a'', rest', wire))
        \<longrightarrow> chat_sent wire_ser (app_id ?a) i nets kss tail rest' wire"
    using chat_partner_stays [OF wire.growing_codec_axioms example_reachable c(1,2) sel [unfolded c(3)] rtranclp.rtrancl_refl c(3)]
    by blast
  have map: "map_of (name_to_id ?a) ''bo'' = Some 1" by (simp add: example_round_eq(4))
  then have "i = 1" using i(1) by (simp add: name_to_id_ref_known)
  obtain a2 w where chat: "chat_loop wire_ser wire_parse ''bo'' [104, 105, 0x0A, 120, 0x0A] [chat_net] ?bufs ?a [] = Some (Inr (a2, [], w))"
    using example_chat [OF example_round_eq(3) map example_round_eq(5)] by blast
  have "?a\<lparr>console := console ?a\<rparr> = ?a" by simp
  with chat have "m_user_input (console ?a) = [] \<and> list_all (\<lambda>ks. kNewLine \<notin> set ks) chat_lines
      \<and> kNewLine \<notin> set ([] :: int list)
      \<and> chat_loop wire_ser wire_parse ''bo'' (typed_lines chat_lines @ []) [chat_net] ?bufs (?a\<lparr>console := console ?a\<rparr>) []
        = Some (Inr (a2, [], w))"
    using chat_lines_typed example_round_eq(5) by simp
  with i(2) have "chat_sent wire_ser (app_id ?a) i [chat_net] chat_lines [] [] w" by blast
  then have "w = wire_ser (send_request 0 1 ''hi'')"
    by (simp add: \<open>i = 1\<close> example_round_eq(3) example_chat_sent)
  with chat show ?thesis by blast
qed

text \<open>
  C13. Every round of the online-users thread gets the whole truth, not only the first: in
  every state reachable by the steps of \<open>sys_step\<close> and over a connection that works, on which
  request and answer arrive in one piece and fit 1000 bytes, the request is answered, the
  operation returns although it parses the whole receive buffer of the earlier rounds, and
  the client then knows exactly the names of the other registered users.
\<close>

theorem every_round_complete:
  assumes "growing_codec ser parse wf_packet" "sys_reachable ser parse wf_packet s"
    and "c < length (sclients s)" "online (sclients s ! c)" "a = capp (sclients s ! c)"
    and "iteration_order iter" "iteration_order citer"
    and "wf_packet (users_request (app_id a))" "wf_packet (users_packet (app_id a) (iter (user_map (sdb s))))"
    and "link_ok (ser (users_request (app_id a))) (ser (users_packet (app_id a) (iter (user_map (sdb s))))) net rx_evs tx_evs"
  shows "\<exists>a' bufs req w resp. periodicGetOnlineUsers ser parse citer net (cbufs (sclients s ! c)) a = Some (Inr (a', bufs, req))
    \<and> handleRequest ser parse debug iter d rx_evs tx_evs (sdb s) = Some (Inr (w, resp))
    \<and> sys_step ser parse wf_packet s
        (s\<lparr>sclients := (sclients s)[c := (sclients s ! c)\<lparr>capp := a', cbufs := bufs\<rparr>]\<rparr>)
    \<and> dom (map_of (name_to_id a')) = name_in (sdb s) ` (user_ids (sdb s) - {app_id a})"
  using growing_codec.users_round [OF assms(1) growing_codec.sys_reachable_inv [OF assms(1,2)] assms(3,4,6,7,5,8-10)] .

theorem every_round_complete_witness:
  "\<exists>a' bufs req. periodicGetOnlineUsers wire_ser wire_parse (\<lambda>xs. xs) (net_of [Data (wire_ser (users_packet 0 pair_users))])
      (fst (snd example_round)) (fst example_round) = Some (Inr (a', bufs, req))
    \<and> dom (map_of (name_to_id a')) = {''bo''}"
proof -
  have users: "wire_ser (users_packet 0 pair_users) = [10, 2, 8, 5, 58, 10, 8, 0, 18, 6, 8, 1, 18, 2, 98, 111]"
    "wf_wire (users_packet 0 pair_users)"
    unfolding pair_users_def by (rule example_replies example_replies_wf)+
  have db: "user_map (pair_db ''bo'') = pair_users" "name_in (pair_db ''bo'') ` (user_ids (pair_db ''bo'') - {0}) = {''bo''}"
    by (auto simp: pair_db_eq pair_users_def user_ids_def name_in_def Database_at_def)
  have it: "iteration_order (\<lambda>es. es)" "iteration_order (\<lambda>xs. xs)"
    by (simp_all add: iteration_order_def)
  have sys: "sdb example_system = pair_db ''bo''" "capp (sclients example_system ! 0) = fst example_round"
    "cbufs (sclients example_system ! 0) = fst (snd example_round)" "0 < length (sclients example_system)"
    "online (sclients example_system ! 0)"
    by (simp_all add: example_system_def)
  have link: "link_ok (wire_ser (users_request 0)) (wire_ser (users_packet 0 pair_users))
      (net_of [Data (wire_ser (users_packet 0 pair_users))]) [Data (wire_ser who_packet)] [Sent 99]"
    by (simp add: link_ok_def example_requests example_packets_ser users net_of_def
        arrives_wholeI kClientBuffer_def accepts_all_def accepts_def)
  have wf: "wf_wire (users_request 0)"
    by (simp add: example_requests example_packets_wf)
  note round = every_round_complete [OF wire.growing_codec_axioms example_reachable sys(4,5) refl it,
      of "net_of [Data (wire_ser (users_packet 0 pair_users))]" "[Data (wire_ser who_packet)]" "[Sent 99]" "\<lambda>p. []" 4,
      unfolded sys(1-3) db example_round_eq(3)]
  show ?thesis
    using round [OF wf users(2) link] by (elim exE conjE) (intro exI conjI, assumption+)
qed

end
