(* ===== verification/System_Late_Runs.thy ===== *)
theory System_Late_Runs
  imports System_Late System_Runs
begin

text \<open>
  The properties of the server and its clients with late answers, and a run on the wire
  format in which the first client waits for the list of users.
\<close>

section \<open>A late answer\<close>

definition late_start :: Late_System where
  "late_start = \<lparr>lsys = example_waiting, flight = (\<lambda>_. None)\<rparr>"

definition late_waiting :: Late_System where
  "late_waiting = \<lparr>lsys = example_waiting, flight = [0 \<mapsto> Users_answer (wire_ser (users_packet 0 pair_users))]\<rparr>"

definition late_done :: Late_System where
  "late_done = \<lparr>lsys = example_system, flight = (\<lambda>_. None)\<rparr>"

lemma late_start_reachable: "late_reachable wire_ser wire_parse wf_wire late_start"
  unfolding late_start_def by (rule sys_reachable_late [OF example_waiting_reachable])

lemma example_waiting_sel:
  "sdb example_waiting = pair_db ''bo''" "0 < length (sclients example_waiting)" "online (sclients example_waiting ! 0)"
  "capp (sclients example_waiting ! 0) = example_app" "cbufs (sclients example_waiting ! 0) = cbufs Client_init"
  "sclients example_waiting \<noteq> []"
  by (simp_all add: example_waiting_def)

lemma late_served_example: "served wire_ser wire_parse wf_wire 0 late_start late_waiting"
proof -
  obtain w where w: "handleRequest wire_ser wire_parse (\<lambda>p. []) (\<lambda>es. es) 4 [Data (wire_ser who_packet)] [Sent 99] (pair_db ''bo'')
      = Some (Inr (w, wire_ser (users_packet 0 pair_users)))" "shared_db w = pair_db ''bo''"
  proof -
    have who: "hdr who_packet = Some \<lparr>hdr_packet_type = Some PACKET_TYPE_REQUEST_USERS\<rparr>"
      "req_users who_packet = Some \<lparr>users_requestor_id = Some 0\<rparr>"
      by (simp_all add: who_packet_def packet_accessors)
    have "userExists (pair_db ''bo'') 0" by (simp add: pair_db_eq userExists_def)
    then have "\<exists>w. handleRequest wire_ser wire_parse (\<lambda>p. []) (\<lambda>es. es) 4 [Data (wire_ser who_packet)] [Sent 99] (pair_db ''bo'')
        = Some (Inr (w, wire_ser (users_packet 0 pair_users))) \<and> shared_db w = pair_db ''bo''"
      by (intro wire.users_handled [where i = 0 and p = who_packet])
        (simp_all add: pair_db_users example_packets_wf example_packets_ser pair_users_wire kBufferSize_def
          arrives_wholeI accepts_all_def accepts_def who)
    then show thesis using that by blast
  qed
  have link: "request_link (wire_ser (users_request 0)) [Data (wire_ser who_packet)] [Sent 99] (wire_ser (users_packet 0 pair_users))"
    by (simp add: request_link_def example_requests example_packets_ser pair_users_wire arrives_wholeI
        kClientBuffer_def accepts_all_def accepts_def)
  have "served wire_ser wire_parse wf_wire 0 late_start
      \<lparr>lsys = (lsys late_start)\<lparr>sdb := shared_db w\<rparr>, flight = (flight late_start)(0 \<mapsto> Users_answer (wire_ser (users_packet 0 pair_users)))\<rparr>"
    by (rule users_served [where i = 0 and iter = "\<lambda>es. es" and debug = "\<lambda>p. []" and d = 4])
      (use w link in \<open>simp_all add: late_start_def example_waiting_sel example_register iteration_order_id example_requests
        example_packets_wf pair_db_users pair_users_wire\<close>)
  then show ?thesis
    by (simp add: late_start_def late_waiting_def w(2) example_waiting_def)
qed

lemma late_read_example: "answered_late wire_ser wire_parse 0 late_waiting late_done"
proof -
  obtain a bufs req where round: "example_round = (a, bufs, req)"
    using prod_cases3 by blast
  have link: "answer_link (wire_ser (users_request 0)) (wire_ser (users_packet 0 pair_users)) (net_of [Data (wire_ser (users_packet 0 pair_users))])"
    by (simp add: answer_link_def example_requests example_packets_ser net_of_def arrives_wholeI
        kClientBuffer_def accepts_all_def accepts_def)
  have "answered_late wire_ser wire_parse 0 late_waiting
      \<lparr>lsys = (lsys late_waiting)\<lparr>sclients := (sclients (lsys late_waiting))[0 := (sclients (lsys late_waiting) ! 0)\<lparr>capp := a, cbufs := bufs\<rparr>]\<rparr>,
       flight = (flight late_waiting)(0 := None)\<rparr>"
    by (rule users_read [where citer = "\<lambda>xs. xs"])
      (use link example_round_eq(1) in \<open>simp_all add: late_waiting_def example_waiting_sel example_register
        iteration_order_id round\<close>)
  then show ?thesis
    by (simp add: late_waiting_def late_done_def example_waiting_def example_system_def round Client_init_def)
qed

lemma late_waiting_reachable: "late_reachable wire_ser wire_parse wf_wire late_waiting"
  by (rule late_next [OF late_start_reachable late_served [OF late_served_example]])

section \<open>Properties\<close>

text \<open>
  C3. What the two programs keep true together as long as the exchanges of the clients go well,
  that is, in every state reached by registrations and rounds of the online-users threads
  whose request and answer each arrive in one piece, without a socket error, and fit the
  client's 1000-byte buffer, by commands of the clients and by requests of unknown
  senders on which anything may happen, in any order, with answers that the clients read any time
  later, and while ids are left: the server knows every client whose registration has returned under the id and the
  name the client holds, no two clients have the same id, a client's two maps are inverse to
  each other, and every name in them leads to another registered user of that name. (Outside
  this scope it can fail: an operation also returns on a failed, a split or, between 1001
  and 1024 bytes, a cut answer, and takes what it parses then.)
\<close>

theorem late_clients_consistent:
  assumes "growing_codec ser parse wf_packet" "late_reachable ser parse wf_packet s"
    and "c < length (sclients (lsys s))" "online (sclients (lsys s) ! c)" "a = capp (sclients (lsys s) ! c)"
  shows "userExists (sdb (lsys s)) (app_id a) \<and> name_in (sdb (lsys s)) (app_id a) = app_username a
    \<and> (\<forall>c' < length (sclients (lsys s)). c' \<noteq> c \<and> online (sclients (lsys s) ! c') \<longrightarrow>
         app_id (capp (sclients (lsys s) ! c')) \<noteq> app_id a)
    \<and> app_maps a
    \<and> (\<forall>n i. map_of (name_to_id a) n = Some i \<longrightarrow>
         i \<noteq> app_id a \<and> userExists (sdb (lsys s)) i \<and> name_in (sdb (lsys s)) i = n)"
proof -
  have inv: "sys_inv ser (lsys s)"
    using growing_codec.late_reachable_inv [OF assms(1,2)] by (simp add: late_inv_def)
  then have "ids_apart (sclients (lsys s))"
    by (simp add: sys_inv_def)
  then show ?thesis
    using sys_inv_client [OF inv assms(3)] assms(3-5)
    by (auto simp: client_ok_def names_true_def ids_apart_def userExists_iff)
qed

theorem late_clients_consistent_witness:
  "name_in (sdb example_system) (app_id (fst example_round)) = app_username (fst example_round)
    \<and> map_of (name_to_id (fst example_round)) ''bo'' = Some 1 \<and> name_in (sdb example_system) 1 = ''bo''"
proof -
  have reach: "late_reachable wire_ser wire_parse wf_wire late_done"
    by (rule late_next [OF late_waiting_reachable late_read [OF late_read_example]])
  have sys: "0 < length (sclients (lsys late_done))" "online (sclients (lsys late_done) ! 0)"
    "fst example_round = capp (sclients (lsys late_done) ! 0)" "lsys late_done = example_system"
    by (simp_all add: example_system_def late_done_def)
  have bo: "map_of (name_to_id (fst example_round)) ''bo'' = Some 1"
    by (simp add: example_round_eq(4))
  with late_clients_consistent [OF wire.growing_codec_axioms reach sys(1-3)] sys(4) show ?thesis
    by simp
qed

text \<open>
  C6. However late a client reads the list of users that the server sent it, when the list arrives
  in one piece and fits the client's 1000-byte buffer, and whatever steps of \<open>late_step\<close> the
  others make in between, it then knows exactly the names of the other users who were
  registered when the server handled the request, and each name leads to a user who is still
  registered under it.
\<close>

theorem late_answer_names:
  assumes "growing_codec ser parse wf_packet" "late_reachable ser parse wf_packet s"
    and "served ser parse wf_packet c s s1" "online (sclients (lsys s) ! c)"
    and "(late_step ser parse wf_packet)\<^sup>*\<^sup>* s1 s2" "flight s2 c = flight s1 c"
    and "answered_late ser parse c s2 s3"
    and "i = app_id (capp (sclients (lsys s) ! c))" "a = capp (sclients (lsys s3) ! c)"
  shows "dom (map_of (name_to_id a)) = name_in (sdb (lsys s)) ` (user_ids (sdb (lsys s)) - {i})
    \<and> (\<forall>n k. map_of (name_to_id a) n = Some k \<longrightarrow>
         k \<noteq> i \<and> userExists (sdb (lsys s3)) k \<and> name_in (sdb (lsys s3)) k = n)"
proof -
  have inv: "late_inv ser wf_packet s"
    by (rule growing_codec.late_reachable_inv [OF assms(1,2)])
  note s3 = growing_codec.late_answer [OF assms(1) inv assms(3,4,8,5,6,7)]
  then have "client_ok ser (sdb (lsys s3)) (sclients (lsys s3) ! c)"
    using sys_inv_client by (auto simp: late_inv_def)
  with s3 show ?thesis
    by (auto simp: assms(9) client_ok_def names_true_def userExists_iff)
qed

theorem late_answer_names_witness:
  "dom (map_of (name_to_id (fst example_round))) = {''bo''} \<and> name_in (sdb example_system) 1 = ''bo''"
proof -
  have sel: "online (sclients (lsys late_start) ! 0)" "0 = app_id (capp (sclients (lsys late_start) ! 0))"
    "fst example_round = capp (sclients (lsys late_done) ! 0)"
    by (simp_all add: late_start_def example_waiting_sel example_register late_done_def example_system_def)
  have db: "sdb (lsys late_start) = pair_db ''bo''" "sdb (lsys late_done) = pair_db ''bo''" "sdb example_system = pair_db ''bo''"
    by (simp_all add: late_start_def late_done_def example_waiting_def example_system_def)
  have names: "name_in (pair_db ''bo'') ` (user_ids (pair_db ''bo'') - {0}) = {''bo''}"
    by (auto simp: pair_db_eq user_ids_def name_in_def Database_at_def)
  note r = late_answer_names [OF wire.growing_codec_axioms late_start_reachable late_served_example sel(1)
      rtranclp.rtrancl_refl refl late_read_example sel(2,3), unfolded db]
  have "map_of (name_to_id (fst example_round)) ''bo'' = Some 1"
    by (simp add: example_round_eq(4))
  with r have "name_in (pair_db ''bo'') 1 = ''bo''" by blast
  with r show ?thesis
    unfolding db(3) names by simp
qed

end
