(* ===== verification/Server_Threads.thy ===== *)
theory Server_Threads
  imports Server_App
begin

text \<open>
  The threads of \<^verbatim>\<open>ServerApp::run\<close> and the descriptors of the process. The main thread accepts
  connections, each is handled by a detached thread that runs \<^verbatim>\<open>handleRequest\<close>, and the
  destructor of the thread's \<^verbatim>\<open>Socket\<close> closes the connection when it returns. A request
  takes effect when its thread ends; \<open>Register_Race\<close> and \<open>Users_Race\<close> interleave finer.
\<close>

section \<open>State and steps\<close>

text \<open>
  A request thread: its descriptor, the results of the \<^verbatim>\<open>recv\<close> calls so far, and whether
  the peer has closed the connection, after which \<^verbatim>\<open>recv\<close> returns 0 for ever.
\<close>

record Request_Thread =
  th_fd :: int
  th_recvs :: "recv_ev list"
  th_closed :: bool

record Serving =
  main_socket :: ServerSocket
  th_db :: Database
  th_open :: "int set"
  threads :: "Request_Thread list"

definition Request_Thread_new :: "int \<Rightarrow> Request_Thread" where
  "Request_Thread_new d = \<lparr>th_fd = d, th_recvs = [], th_closed = False\<rparr>"

text \<open>\<^verbatim>\<open>~Socket\<close>.\<close>

definition Socket_destroy :: "Socket \<Rightarrow> int set \<Rightarrow> int set" where
  "Socket_destroy s opened = opened - {fd s}"

definition remove_nth :: "nat \<Rightarrow> 'a list \<Rightarrow> 'a list" where
  "remove_nth t xs = take t xs @ drop (Suc t) xs"

text \<open>The thread is still in the loop that waits for the first bytes of the request.\<close>

definition polling :: "Request_Thread \<Rightarrow> bool" where
  "polling T \<longleftrightarrow>
     recv_poll (th_recvs T) (Socket_new (th_fd T) True 0 0 0) (replicate kBufferSize 0) = None"

text \<open>
  The system gives \<^verbatim>\<open>accept\<close> a descriptor that is not in use, and none when the process
  has \<open>limit\<close> descriptors open (\<^verbatim>\<open>EMFILE\<close>). A thread that faults ends the process and has
  no step.
\<close>

inductive serve_step ::
    "(Packet \<Rightarrow> bytes) \<Rightarrow> (bytes \<Rightarrow> Packet) \<Rightarrow> nat \<Rightarrow> Serving \<Rightarrow> Serving \<Rightarrow> bool"
  for ser parse limit where
  accept: "card (th_open s) < limit \<Longrightarrow> getConnection (main_socket s) (Accepted d) = (ms, True, f) \<Longrightarrow>
     f \<notin> th_open s \<Longrightarrow>
     serve_step ser parse limit s (s\<lparr>main_socket := ms, th_open := insert f (th_open s),
       threads := threads s @ [Request_Thread_new f]\<rparr>)"
| no_connection: "getConnection (main_socket s) (AcceptErr e) = (ms, ok, f) \<Longrightarrow>
     serve_step ser parse limit s (s\<lparr>main_socket := ms\<rparr>)"
| receive: "t < length (threads s) \<Longrightarrow> T = threads s ! t \<Longrightarrow> polling T \<Longrightarrow>
     (th_closed T \<longrightarrow> ev = Data []) \<Longrightarrow>
     serve_step ser parse limit s (s\<lparr>threads := (threads s)[t := T\<lparr>th_recvs := th_recvs T @ [ev]\<rparr>]\<rparr>)"
| peer_closes: "t < length (threads s) \<Longrightarrow> T = threads s ! t \<Longrightarrow>
     serve_step ser parse limit s (s\<lparr>threads := (threads s)[t := T\<lparr>th_closed := True\<rparr>]\<rparr>)"
| return: "t < length (threads s) \<Longrightarrow> T = threads s ! t \<Longrightarrow>
     handleRequest ser parse debug iter (th_fd T) (th_recvs T) tx_evs (th_db s) = Some (Inr (w, resp)) \<Longrightarrow>
     serve_step ser parse limit s (s\<lparr>th_db := shared_db w,
       th_open := Socket_destroy (Socket_new (th_fd T) True 0 0 0) (th_open s),
       threads := remove_nth t (threads s)\<rparr>)"

text \<open>
  The process starts with the standard descriptors; the listening socket gets another one.
\<close>

inductive serve_reachable ::
    "(Packet \<Rightarrow> bytes) \<Rightarrow> (bytes \<Rightarrow> Packet) \<Rightarrow> nat \<Rightarrow> int set \<Rightarrow> Serving \<Rightarrow> bool"
  for ser parse limit std where
  serve_start: "ServerSocket_new r = Some ms \<Longrightarrow> srv_fd ms \<notin> std \<Longrightarrow>
     serve_reachable ser parse limit std \<lparr>main_socket = ms, th_db = Database_getInstance None,
       th_open = insert (srv_fd ms) std, threads = []\<rparr>"
| serve_next: "serve_reachable ser parse limit std s \<Longrightarrow> serve_step ser parse limit s s' \<Longrightarrow>
     serve_reachable ser parse limit std s'"

section \<open>Descriptors\<close>

lemma Socket_destroy_fd [simp]: "Socket_destroy (Socket_new d True 0 0 0) opened = opened - {d}"
  by (simp add: Socket_destroy_def Socket_new_def)

lemma getConnection_fd [simp]: "srv_fd (fst (getConnection s ev)) = srv_fd s"
  by (auto simp: getConnection_def split: accept_ev.splits)

lemma mset_remove_nth: "t < length xs \<Longrightarrow> mset xs = add_mset (xs ! t) (mset (remove_nth t xs))"
  by (metis id_take_nth_drop mset.simps(2) mset_append remove_nth_def union_mset_add_mset_right)

lemma map_remove_nth: "map f (remove_nth t xs) = remove_nth t (map f xs)"
  by (simp add: remove_nth_def take_map drop_map)

lemma distinct_remove_nth:
  assumes "distinct xs" "t < length xs"
  shows "distinct (remove_nth t xs) \<and> set (remove_nth t xs) = set xs - {xs ! t}"
proof -
  have "mset xs = mset (xs ! t # remove_nth t xs)"
    using mset_remove_nth [OF assms(2)] by simp
  then have "distinct (xs ! t # remove_nth t xs)" "set xs = set (xs ! t # remove_nth t xs)"
    using assms(1) mset_eq_imp_distinct_iff mset_eq_setD by blast+
  then show ?thesis by auto
qed

text \<open>Open are the standard descriptors, the listening one and those of the running threads.\<close>

definition fds_ok :: "int set \<Rightarrow> Serving \<Rightarrow> bool" where
  "fds_ok std s \<longleftrightarrow> distinct (map th_fd (threads s))
     \<and> insert (srv_fd (main_socket s)) std \<inter> set (map th_fd (threads s)) = {}
     \<and> th_open s = insert (srv_fd (main_socket s)) std \<union> set (map th_fd (threads s))"

lemma map_th_fd_update: "t < length ts \<Longrightarrow> th_fd T = th_fd (ts ! t) \<Longrightarrow> map th_fd (ts[t := T]) = map th_fd ts"
  by (simp add: map_update) (metis list_update_id nth_map map_update)

lemma fds_ok_step: "serve_step ser parse limit s s' \<Longrightarrow> fds_ok std s \<Longrightarrow> fds_ok std s'"
proof (induction rule: serve_step.induct)
  case (accept s d ms f)
  then have "srv_fd ms = srv_fd (main_socket s)"
    using getConnection_fd [of "main_socket s" "Accepted d"] by simp
  with accept show ?case
    by (auto simp: fds_ok_def Request_Thread_new_def)
next
  case (no_connection s e ms ok f)
  then have "srv_fd ms = srv_fd (main_socket s)"
    using getConnection_fd [of "main_socket s" "AcceptErr e"] by simp
  with no_connection show ?case by (simp add: fds_ok_def)
next
  case (receive t s T ev)
  then show ?case
    using map_th_fd_update [of t "threads s" "T\<lparr>th_recvs := th_recvs T @ [ev]\<rparr>"] by (simp add: fds_ok_def del: set_map)
next
  case (peer_closes t s T)
  then show ?case
    using map_th_fd_update [of t "threads s" "T\<lparr>th_closed := True\<rparr>"] by (simp add: fds_ok_def del: set_map)
next
  case (return t s T debug iter tx_evs w resp)
  let ?fds = "map th_fd (threads s)"
  have t: "t < length ?fds" "?fds ! t = th_fd T" "th_fd T \<in> set ?fds"
    using return.hyps(1,2) by simp_all
  have "distinct (remove_nth t ?fds)" "set (remove_nth t ?fds) = set ?fds - {th_fd T}"
    using distinct_remove_nth [of ?fds t] return.prems t by (auto simp: fds_ok_def)
  then show ?case
    using return.prems t(3) unfolding fds_ok_def by (auto simp: map_remove_nth simp del: set_map)
qed

lemma fds_ok_reachable: "serve_reachable ser parse limit std s \<Longrightarrow> fds_ok std s"
proof (induction rule: serve_reachable.induct)
  case (serve_start r ms)
  show ?case by (simp add: fds_ok_def)
next
  case (serve_next s s')
  show ?case by (rule fds_ok_step [OF serve_next.hyps(2) serve_next.IH])
qed

section \<open>Threads that wait for ever\<close>

lemma polling_iff: "polling T \<longleftrightarrow> list_all recv_retry (th_recvs T) \<and> arrives (th_recvs T) = []"
  by (simp add: polling_def recv_poll_None_iff kBufferSize_def)

text \<open>The peer has closed the connection and not sent a byte.\<close>

definition starved :: "Request_Thread \<Rightarrow> bool" where
  "starved T \<longleftrightarrow> th_closed T \<and> polling T"

lemma starved_never_returns:
  "starved T \<Longrightarrow> handleRequest ser parse debug iter (th_fd T) (th_recvs T) tx_evs db = None"
  by (simp add: starved_def polling_def handleRequest_def Let_def)

lemma starved_step:
  assumes "serve_step ser parse limit s s'" "T \<in> set (threads s)" "starved T"
  shows "\<exists>T'\<in>set (threads s'). th_fd T' = th_fd T \<and> starved T'"
  using assms
proof (induction rule: serve_step.induct)
  case (receive t s U ev)
  then show ?case
  proof (cases "T = U")
    case True
    then have "starved (U\<lparr>th_recvs := th_recvs U @ [ev]\<rparr>)"
      using receive by (simp add: starved_def polling_iff)
    with True receive.hyps(1) show ?thesis
      by (intro bexI [of _ "U\<lparr>th_recvs := th_recvs U @ [ev]\<rparr>"]) (simp_all add: set_update_memI)
  next
    case False
    then have "T \<in> set ((threads s)[t := U\<lparr>th_recvs := th_recvs U @ [ev]\<rparr>])"
      using receive by (auto simp: in_set_conv_nth nth_list_update)
    with receive.prems show ?thesis by auto
  qed
next
  case (peer_closes t s U)
  then show ?case
  proof (cases "T = U")
    case True
    then have "starved (U\<lparr>th_closed := True\<rparr>)"
      using peer_closes by (simp add: starved_def polling_iff)
    with True peer_closes.hyps(1) show ?thesis
      by (intro bexI [of _ "U\<lparr>th_closed := True\<rparr>"]) (simp_all add: set_update_memI)
  next
    case False
    then have "T \<in> set ((threads s)[t := U\<lparr>th_closed := True\<rparr>])"
      using peer_closes by (auto simp: in_set_conv_nth nth_list_update)
    with peer_closes.prems show ?thesis by auto
  qed
next
  case (return t s U debug iter tx_evs w resp)
  have "U \<noteq> T"
    using return.hyps(3) return.prems(2) starved_never_returns [of U] by (metis option.distinct(1))
  moreover have "T \<in># add_mset (threads s ! t) (mset (remove_nth t (threads s)))"
    using return.prems(1) unfolding mset_remove_nth [OF return.hyps(1), symmetric] by simp
  ultimately have "T \<in> set (remove_nth t (threads s))"
    using return.hyps(2) by simp
  with return.prems(2) show ?case by auto
qed auto

lemma starved_run:
  assumes "(serve_step ser parse limit)\<^sup>*\<^sup>* s s'" "T \<in> set (threads s)" "starved T"
  shows "\<exists>T'\<in>set (threads s'). th_fd T' = th_fd T \<and> starved T'"
  using assms
proof (induction rule: rtranclp_induct)
  case (step y z)
  then show ?case using starved_step by metis
qed blast

text \<open>Descriptors of the threads that have been abandoned, and those the process keeps anyway.\<close>

definition starved_fds :: "Serving \<Rightarrow> int set" where
  "starved_fds s = th_fd ` {T \<in> set (threads s). starved T}"

lemma starved_fds_run:
  "(serve_step ser parse limit)\<^sup>*\<^sup>* s s' \<Longrightarrow> starved_fds s \<subseteq> starved_fds s'"
  unfolding starved_fds_def by (auto dest!: starved_run) (metis (mono_tags, lifting) image_eqI mem_Collect_eq)

lemma starved_fds_open: "fds_ok std s \<Longrightarrow> starved_fds s \<subseteq> th_open s"
  by (auto simp: fds_ok_def starved_fds_def)

lemma serve_step_listener: "serve_step ser parse limit s s' \<Longrightarrow> srv_fd (main_socket s') = srv_fd (main_socket s)"
  by (induction rule: serve_step.induct) (auto dest: arg_cong [where f = "srv_fd \<circ> fst"])

lemma step_accepts:
  assumes "serve_step ser parse limit s s'" "limit \<le> card (th_open s)"
  shows "set (map th_fd (threads s')) \<subseteq> set (map th_fd (threads s))"
  using assms
proof (induction rule: serve_step.induct)
  case (receive t s T ev)
  then show ?case
    using map_th_fd_update [of t "threads s" "T\<lparr>th_recvs := th_recvs T @ [ev]\<rparr>"] by (simp del: set_map)
next
  case (peer_closes t s T)
  then show ?case
    using map_th_fd_update [of t "threads s" "T\<lparr>th_closed := True\<rparr>"] by (simp del: set_map)
next
  case (return t s T debug iter tx_evs w resp)
  then show ?case
    by (auto simp: remove_nth_def dest: in_set_takeD in_set_dropD)
qed auto

text \<open>A reachable server stays reachable, and its abandoned descriptors pile up.\<close>

lemma exhausted_run:
  assumes "(serve_step ser parse limit)\<^sup>*\<^sup>* s s'" "fds_ok std s" "finite std"
    and "limit \<le> card (insert (srv_fd (main_socket s)) std \<union> starved_fds s)"
  shows "set (map th_fd (threads s')) \<subseteq> set (map th_fd (threads s)) \<and> fds_ok std s'
    \<and> srv_fd (main_socket s') = srv_fd (main_socket s)"
  using assms(1)
proof (induction rule: rtranclp_induct)
  case base
  show ?case using assms(2) by blast
next
  case (step u v)
  have "starved_fds s \<subseteq> th_open u"
    by (rule order_trans [OF starved_fds_run [OF step.hyps(1)] starved_fds_open [of std u]]) (simp add: step.IH)
  moreover have "insert (srv_fd (main_socket s)) std \<subseteq> th_open u"
    using conjunct1 [OF conjunct2 [OF step.IH]] conjunct2 [OF conjunct2 [OF step.IH]] by (simp add: fds_ok_def subset_insertI2)
  ultimately have "insert (srv_fd (main_socket s)) std \<union> starved_fds s \<subseteq> th_open u"
    by (rule Un_least [rotated])
  moreover have "finite (th_open u)"
    using step.IH assms(3) by (auto simp: fds_ok_def)
  ultimately have "limit \<le> card (th_open u)"
    using assms(4) card_mono order_trans by metis
  then show ?case
    using step_accepts [OF step.hyps(2)] fds_ok_step [OF step.hyps(2)] serve_step_listener [OF step.hyps(2)]
      step.IH by (metis order_trans)
qed

text \<open>
  A thread whose registration has arrived can return; then its user is stored and its
  descriptor is free for the next connection.
\<close>

lemma registered_thread_returns:
  assumes "t < length (threads s)" "T = threads s ! t"
    and "packet_codec ser parse wf_packet" "wf_packet p" "length (ser p) \<le> kBufferSize"
    and "hdr p = Some \<lparr>hdr_packet_type = Some PACKET_TYPE_REQUEST_REGISTER\<rparr>"
    and "req_reg p = Some \<lparr>reg_username = Some name\<rparr>"
    and "arrives_whole (ser p) (th_recvs T)"
    and "length (ser (register_packet (next_id (th_db s)))) \<le> kBufferSize"
  shows "\<exists>s'. serve_step ser parse limit s s' \<and> th_db s' = fst (registerUser (th_db s) name)
    \<and> th_open s' = th_open s - {th_fd T}"
proof -
  let ?n = "length (ser (register_packet (next_id (th_db s))))"
  have "accepts_all ?n [Sent ?n]"
    by (simp add: accepts_all_def accepts_def)
  then obtain w where w: "handleRequest ser parse (\<lambda>p. []) (\<lambda>es. es) (th_fd T) (th_recvs T) [Sent ?n] (th_db s)
      = Some (Inr (w, ser (register_packet (next_id (th_db s)))))" "shared_db w = fst (registerUser (th_db s) name)"
    using server_registers [OF assms(3-9)] by blast
  show ?thesis
    by (rule exI, rule conjI, rule serve_step.return [OF assms(1,2) w(1)]) (simp add: w(2))
qed

lemma serve_step_db: "serve_step ser parse limit s s' \<Longrightarrow> th_db s' = th_db s \<or> (\<exists>name. th_db s' = fst (registerUser (th_db s) name))"
  by (induction rule: serve_step.induct) (auto dest: handleRequest_db)

lemma serve_reachable_inv: "serve_reachable ser parse limit std s \<Longrightarrow> db_inv (th_db s)"
proof (induction rule: serve_reachable.induct)
  case (serve_start r ms)
  show ?case by (simp add: db_inv_def Database_init_def user_ids_def)
next
  case (serve_next s s')
  then show ?case using serve_step_db db.inv_register by metis
qed

section \<open>Properties\<close>

text \<open>
  C35. In every state the server reaches, the open descriptors are exactly the ones the
  process started with, the listening one and one for each running request thread, all
  different: a returning thread closes the descriptor of its own connection and no other.
\<close>

theorem descriptors_accounted:
  assumes "serve_reachable ser parse limit std s"
  shows "distinct (map th_fd (threads s))
    \<and> insert (srv_fd (main_socket s)) std \<inter> set (map th_fd (threads s)) = {}
    \<and> th_open s = insert (srv_fd (main_socket s)) std \<union> set (map th_fd (threads s))"
  using fds_ok_reachable [OF assms] by (simp only: fds_ok_def)

text \<open>One client connects, closes the connection, and the thread keeps asking for data.\<close>

definition example_serving :: "Request_Thread list \<Rightarrow> Serving" where
  "example_serving ts =
     \<lparr>main_socket = \<lparr>srv_fd = 3, srv_nonblocking = True, srv_log = []\<rparr>, th_db = Database_init,
      th_open = foldr insert (map th_fd ts) {3, 0, 1, 2}, threads = ts\<rparr>"

definition example_abandoned :: "recv_ev list \<Rightarrow> Serving" where
  "example_abandoned evs = example_serving [\<lparr>th_fd = 4, th_recvs = evs, th_closed = True\<rparr>]"

lemma example_serving_reachable: "serve_reachable ser parse 5 {0, 1, 2} (example_serving [Request_Thread_new 4])"
proof (rule serve_next)
  show "serve_reachable ser parse 5 {0, 1, 2} (example_serving [])"
    using serve_start [of "\<lparr>r_socket = 3, r_setsockopt = 0, r_getfl = 0, r_setfl = 0, r_bind = 0, r_listen = 0\<rparr>"
        "main_socket (example_serving [])" "{0, 1, 2}" ser parse 5]
    by (simp add: ServerSocket_new_def example_serving_def)
next
  show "serve_step ser parse 5 (example_serving []) (example_serving [Request_Thread_new 4])"
    using serve_step.accept [of "example_serving []" 5 4 "main_socket (example_serving [])" 4 ser parse]
    by (simp add: example_serving_def getConnection_def Request_Thread_new_def)
qed

lemma example_abandoned_reachable: "serve_reachable ser parse 5 {0, 1, 2} (example_abandoned [])"
proof (rule serve_next [OF example_serving_reachable])
  show "serve_step ser parse 5 (example_serving [Request_Thread_new 4]) (example_abandoned [])"
    using serve_step.peer_closes [of 0 "example_serving [Request_Thread_new 4]" "Request_Thread_new 4" ser parse 5]
    by (simp add: example_serving_def example_abandoned_def Request_Thread_new_def)
qed

lemma example_polling: "polling \<lparr>th_fd = 4, th_recvs = [], th_closed = True\<rparr>"
  by (simp add: polling_iff)

lemma example_abandoned_step: "serve_step ser parse 5 (example_abandoned []) (example_abandoned [Data []])"
  using serve_step.receive [OF _ refl, of 0 "example_abandoned []" "Data []" ser parse 5]
  by (simp add: example_serving_def example_abandoned_def example_polling)

lemma example_abandoned_sel:
  "srv_fd (main_socket (example_abandoned evs)) = 3"
  "th_open (example_abandoned evs) = {4, 3, 0, 1, 2}"
  "threads (example_abandoned evs) = [\<lparr>th_fd = 4, th_recvs = evs, th_closed = True\<rparr>]"
  by (simp_all add: example_abandoned_def example_serving_def)

lemma example_starved: "starved_fds (example_abandoned []) = {4}"
  by (simp add: starved_fds_def example_abandoned_sel starved_def example_polling
      conj_commute cong: conj_cong)

theorem descriptors_accounted_witness:
  "distinct (map th_fd (threads (example_abandoned []))) \<and> th_open (example_abandoned []) = {3, 0, 1, 2, 4}"
  using descriptors_accounted [OF example_abandoned_reachable [of wire_ser wire_parse]]
  by (simp add: example_abandoned_sel insert_commute)

text \<open>
  C36. The descriptors of connections that the peer closed without sending anything stay open
  for ever, and once they use up what the process may open, no further connection is ever
  accepted: every later thread serves a connection that was already there.
\<close>

theorem abandoned_connections_exhaust:
  assumes "serve_reachable ser parse limit std s" "(serve_step ser parse limit)\<^sup>*\<^sup>* s s'"
  shows "starved_fds s \<subseteq> th_open s'
    \<and> (finite std \<and> limit \<le> card (insert (srv_fd (main_socket s)) std \<union> starved_fds s)
        \<longrightarrow> set (map th_fd (threads s')) \<subseteq> set (map th_fd (threads s)))"
proof -
  have ok: "fds_ok std s"
    using assms(1) by (rule fds_ok_reachable)
  have "serve_reachable ser parse limit std s'"
    using assms(2,1) by (induction rule: rtranclp_induct) (blast intro: serve_next)+
  then have "starved_fds s \<subseteq> th_open s'"
    using starved_fds_open [OF fds_ok_reachable] starved_fds_run [OF assms(2)] by blast
  then show ?thesis
    using exhausted_run [OF assms(2) ok] by blast
qed

theorem abandoned_connections_exhaust_witness:
  "4 \<in> th_open (example_abandoned [Data []]) \<and> set (map th_fd (threads (example_abandoned [Data []]))) \<subseteq> {4}"
  using abandoned_connections_exhaust [OF example_abandoned_reachable
        r_into_rtranclp [of "serve_step wire_ser wire_parse 5", OF example_abandoned_step]]
  by (simp add: example_starved example_abandoned_sel)

end
