(* ===== verification/Register_Race.thy ===== *)
theory Register_Race
  imports Database
begin

text \<open>
  Concurrent registrations. \<^verbatim>\<open>ServerApp::run\<close> handles every request in a detached thread,
  and \<^verbatim>\<open>Database::registerUser\<close> has no lock. Its two statements are the atomic steps of
  a thread here, coarser than what the machine interleaves, so that an execution of
  this model is one the program has; the last section takes the increment apart.
\<close>

section \<open>Steps of the threads\<close>

datatype reg_pc =
    Entered string
  | Stored string
  | Returned string user_id_t

definition reg_store :: "string \<Rightarrow> Database \<Rightarrow> Database" where
  "reg_store name db =
     db\<lparr>user_map := AList.update (next_id db) \<lparr>username = name, msg_q = []\<rparr> (user_map db)\<rparr>"

definition reg_return :: "Database \<Rightarrow> Database \<times> user_id_t" where
  "reg_return db = (db\<lparr>next_id := next_id db + 1\<rparr>, next_id db)"

inductive reg_step :: "Database \<times> reg_pc list \<Rightarrow> Database \<times> reg_pc list \<Rightarrow> bool" where
  store: "t < length pcs \<Longrightarrow> pcs ! t = Entered name \<Longrightarrow>
     reg_step (db, pcs) (reg_store name db, pcs[t := Stored name])"
| ret: "t < length pcs \<Longrightarrow> pcs ! t = Stored name \<Longrightarrow> reg_return db = (db', i) \<Longrightarrow>
     reg_step (db, pcs) (db', pcs[t := Returned name i])"

inductive reg_reachable :: "string list \<Rightarrow> Database \<times> reg_pc list \<Rightarrow> bool" for names where
  start: "reg_reachable names (Database_init, map Entered names)"
| step: "reg_reachable names st \<Longrightarrow> reg_step st st' \<Longrightarrow> reg_reachable names st'"

inductive_cases reg_stepE: "reg_step (db, pcs) st'"

text \<open>Without interleaving the two steps are \<^verbatim>\<open>registerUser\<close>.\<close>

lemma reg_steps_registerUser: "reg_return (reg_store name db) = registerUser db name"
  by (simp add: reg_return_def reg_store_def registerUser_def Let_def)

section \<open>The ids handed out\<close>

text \<open>Replacing an element that contributes nothing.\<close>

lemma mset_concat_update:
  assumes "t < length xs" "f (xs ! t) = []"
  shows "mset (concat (map f (xs[t := x]))) = mset (concat (map f xs)) + mset (f x)"
proof -
  have "concat (map f xs) = concat (map f (take t xs @ xs ! t # drop (Suc t) xs))"
    using assms(1) by (simp add: id_take_nth_drop [symmetric])
  then show ?thesis
    using assms by (simp add: upd_conv_take_nth_drop)
qed

lemma distinct_concat_nth:
  assumes "distinct (concat (map f xs))" "t < length xs" "u < length xs" "t \<noteq> u"
    and "x \<in> set (f (xs ! t))"
  shows "x \<notin> set (f (xs ! u))"
  using assms
proof (induction xs arbitrary: t u)
  case (Cons y ys)
  have disj: "set (f y) \<inter> set (f (ys ! v)) = {}" if "v < length ys" for v
    using Cons.prems(1) nth_mem [OF that] by (auto simp: disjoint_iff)
  show ?case
  proof (cases t)
    case 0
    then obtain v where "u = Suc v" using Cons.prems(4) by (cases u) auto
    with 0 Cons.prems show ?thesis using disj [of v] by (auto simp: disjoint_iff)
  next
    case (Suc m)
    show ?thesis
    proof (cases u)
      case 0
      with Suc Cons.prems show ?thesis using disj [of m] by (auto simp: disjoint_iff)
    next
      case (Suc v)
      with \<open>t = Suc m\<close> Cons.prems show ?thesis using Cons.IH [of m v] by simp
    qed
  qed
qed simp

fun returned :: "reg_pc \<Rightarrow> user_id_t list" where
  "returned (Returned name i) = [i]"
| "returned pc = []"

definition returned_ids :: "reg_pc list \<Rightarrow> user_id_t list" where
  "returned_ids pcs = concat (map returned pcs)"

lemma returned_ids_update:
  assumes "t < length pcs" "returned (pcs ! t) = []"
  shows "mset (returned_ids (pcs[t := pc])) = mset (returned_ids pcs) + mset (returned pc)"
  using mset_concat_update [of t pcs returned] assms by (simp add: returned_ids_def)

lemma length_returned_ids: "length (returned_ids pcs) \<le> length pcs"
proof (induction pcs)
  case (Cons pc pcs)
  have "length (returned pc) \<le> 1" by (cases pc) simp_all
  with Cons show ?case by (simp add: returned_ids_def)
qed (simp add: returned_ids_def)

text \<open>The counter has handed out exactly the numbers below it, in some order.\<close>

definition counted :: "user_id_t \<Rightarrow> user_id_t list \<Rightarrow> bool" where
  "counted k ids \<longleftrightarrow> k = word_of_nat (length ids) \<and> mset ids = mset (map word_of_nat [0..<length ids])"

lemma counted_Nil [simp]: "counted 0 []"
  by (simp add: counted_def)

lemma counted_same: "counted k ids \<Longrightarrow> mset ids' = mset ids \<Longrightarrow> counted k ids'"
  using mset_eq_length [of ids' ids] by (simp add: counted_def)

lemma counted_next: "counted k ids \<Longrightarrow> mset ids' = mset (ids @ [k]) \<Longrightarrow> counted (k + 1) ids'"
  by (rule counted_same [of _ "ids @ [k]"]) (simp_all add: counted_def)

definition ids_handed_out :: "Database \<times> reg_pc list \<Rightarrow> bool" where
  "ids_handed_out st \<longleftrightarrow> counted (next_id (fst st)) (returned_ids (snd st))"

lemma ids_handed_out_step:
  assumes "reg_step st st'" "ids_handed_out st"
  shows "ids_handed_out st'"
  using assms(1)
proof (cases rule: reg_step.cases)
  case (store t pcs name db)
  then have "mset (returned_ids (pcs[t := Stored name])) = mset (returned_ids pcs)"
    by (simp add: returned_ids_update)
  then show ?thesis
    using store assms(2) counted_same [of "next_id db" "returned_ids pcs"]
    by (simp add: ids_handed_out_def reg_store_def)
next
  case (ret t pcs name db db' i)
  then have "mset (returned_ids (pcs[t := Returned name i])) = mset (returned_ids pcs @ [next_id db])"
    by (simp add: returned_ids_update reg_return_def)
  with ret assms(2) have "counted (next_id db + 1) (returned_ids (pcs[t := Returned name i]))"
    by (intro counted_next [of "next_id db" "returned_ids pcs"]) (simp_all add: ids_handed_out_def)
  with ret show ?thesis by (auto simp: ids_handed_out_def reg_return_def)
qed

lemma ids_handed_out_reachable: "reg_reachable names st \<Longrightarrow> ids_handed_out st"
proof (induction rule: reg_reachable.induct)
  case start
  have "returned_ids (map Entered names) = []"
    by (simp add: returned_ids_def)
  then show ?case by (simp add: ids_handed_out_def Database_init_def)
next
  case (step st st')
  then show ?case using ids_handed_out_step by blast
qed

lemma reg_step_length: "reg_step st st' \<Longrightarrow> length (snd st') = length (snd st)"
  by (induction rule: reg_step.induct) simp_all

lemma reg_reachable_length: "reg_reachable names st \<Longrightarrow> length (snd st) = length names"
  by (induction rule: reg_reachable.induct) (simp_all add: reg_step_length)

lemma distinct_word_of_nat:
  assumes "n \<le> 2 ^ 32"
  shows "distinct (map word_of_nat [0..<n] :: user_id_t list)"
proof -
  have "inj_on (word_of_nat :: nat \<Rightarrow> user_id_t) {0..<n}"
  proof (rule inj_onI)
    fix x y
    assume "x \<in> {0..<n}" "y \<in> {0..<n}" "(word_of_nat x :: user_id_t) = word_of_nat y"
    then have "x < 4294967296" "y < 4294967296" "unat (word_of_nat x :: user_id_t) = unat (word_of_nat y :: user_id_t)"
      using assms by simp_all
    then show "x = y" by simp
  qed
  then show ?thesis by (simp add: distinct_map)
qed

lemma counted_distinct: "counted k ids \<Longrightarrow> length ids \<le> 2 ^ 32 \<Longrightarrow> distinct ids"
  using distinct_word_of_nat mset_eq_imp_distinct_iff unfolding counted_def by blast

section \<open>Properties\<close>

text \<open>
  However the steps of concurrent registrations interleave, no two of them return
  the same id, as long as there are at most \<open>2 ^ 32\<close> of them.
\<close>

lemma race_ids_distinct:
  assumes "reg_reachable names (db, pcs)" "length names \<le> 2 ^ 32"
  shows "distinct (returned_ids pcs)"
proof -
  have "length (returned_ids pcs) \<le> 2 ^ 32"
    using length_returned_ids [of pcs] reg_reachable_length [OF assms(1)] assms(2) by simp
  then show ?thesis
    using ids_handed_out_reachable [OF assms(1)] counted_distinct by (simp add: ids_handed_out_def)
qed

text \<open>Two registrations in which both threads store before either returns.\<close>

lemma race_run:
  "reg_reachable [''al'', ''bo'']
     (\<lparr>next_id = 2, user_map = [(0, \<lparr>username = ''bo'', msg_q = []\<rparr>)]\<rparr>,
      [Returned ''al'' 0, Returned ''bo'' 1])"
proof -
  have s1: "reg_reachable [''al'', ''bo''] (reg_store ''al'' Database_init, [Stored ''al'', Entered ''bo''])"
    using reg_reachable.step [OF reg_reachable.start [of "[''al'', ''bo'']"] reg_step.store [of 0 _ "''al''"]] by simp
  have s2: "reg_reachable [''al'', ''bo'']
      (reg_store ''bo'' (reg_store ''al'' Database_init), [Stored ''al'', Stored ''bo''])"
    using reg_reachable.step [OF s1 reg_step.store [of 1 _ "''bo''"]] by simp
  let ?db = "\<lparr>next_id = 0, user_map = [(0, \<lparr>username = ''bo'', msg_q = []\<rparr>)]\<rparr>"
  have "reg_store ''bo'' (reg_store ''al'' Database_init) = ?db"
    by (simp add: reg_store_def Database_init_def)
  with s2 have s2': "reg_reachable [''al'', ''bo''] (?db, [Stored ''al'', Stored ''bo''])"
    by simp
  have s3: "reg_reachable [''al'', ''bo''] (?db\<lparr>next_id := 1\<rparr>, [Returned ''al'' 0, Stored ''bo''])"
    using reg_reachable.step [OF s2' reg_step.ret [of 0 _ "''al''" ?db "?db\<lparr>next_id := 1\<rparr>" 0]]
    by (simp add: reg_return_def)
  show ?thesis
    using reg_reachable.step [OF s3 reg_step.ret [of 1 _ "''bo''" "?db\<lparr>next_id := 1\<rparr>" "?db\<lparr>next_id := 2\<rparr>" 1]]
    by (simp add: reg_return_def)
qed

lemma race_ids_distinct_example:
  "distinct (returned_ids [Returned ''al'' 0, Returned ''bo'' 1])"
  using race_ids_distinct [OF race_run] by simp

text \<open>
  Without a lock a registration can be lost: in an execution of two threads that
  both store before either increments the counter, both return, the second name has
  overwritten the first under id 0, and the id the second client is told belongs to
  nobody.
\<close>

lemma race_loses_user:
  "\<exists>db. reg_reachable [''al'', ''bo''] (db, [Returned ''al'' 0, Returned ''bo'' 1])
     \<and> name_in db 0 = ''bo'' \<and> \<not> userExists db 1"
  using race_run by (intro exI conjI) (auto simp: name_in_def Database_at_def userExists_def)

section \<open>The increment taken apart\<close>

text \<open>
  \<^verbatim>\<open>return next_id_++\<close> is itself no atomic step: the counter is loaded, and its successor is
  written later. A thread between the two holds the value it is going to return.
\<close>

datatype reg_fine_pc =
    At reg_pc
  | Loaded string user_id_t

inductive reg_fine_step :: "Database \<times> reg_fine_pc list \<Rightarrow> Database \<times> reg_fine_pc list \<Rightarrow> bool" where
  fine_store: "t < length pcs \<Longrightarrow> pcs ! t = At (Entered name) \<Longrightarrow>
     reg_fine_step (db, pcs) (reg_store name db, pcs[t := At (Stored name)])"
| fine_load: "t < length pcs \<Longrightarrow> pcs ! t = At (Stored name) \<Longrightarrow>
     reg_fine_step (db, pcs) (db, pcs[t := Loaded name (next_id db)])"
| fine_write: "t < length pcs \<Longrightarrow> pcs ! t = Loaded name i \<Longrightarrow>
     reg_fine_step (db, pcs) (db\<lparr>next_id := i + 1\<rparr>, pcs[t := At (Returned name i)])"

text \<open>The executions with whole statements are among these.\<close>

lemma reg_step_fine:
  assumes "reg_step (db, pcs) (db', pcs')"
  shows "reg_fine_step\<^sup>*\<^sup>* (db, map At pcs) (db', map At pcs')"
  using assms
proof (cases rule: reg_step.cases)
  case (store t name)
  then show ?thesis
    using fine_store [of t "map At pcs" name db] by (auto simp: map_update)
next
  case (ret t name i)
  let ?pcs = "(map At pcs)[t := Loaded name (next_id db)]"
  have "reg_fine_step (db, map At pcs) (db, ?pcs)"
    using ret fine_load [of t "map At pcs" name db] by simp
  moreover have "reg_fine_step (db, ?pcs) (db', map At pcs')"
    using ret fine_write [of t ?pcs name "next_id db" db] by (auto simp: reg_return_def map_update)
  ultimately show ?thesis by simp
qed

text \<open>
  C33. Without a lock two clients can be told the same id: when both threads load the
  counter before either writes it back, both registrations return 0, and only the name
  stored last is left, so the first client goes by the name of the second.
\<close>

theorem same_id_twice:
  "\<exists>db. reg_fine_step\<^sup>*\<^sup>* (Database_init, [At (Entered ''al''), At (Entered ''bo'')])
       (db, [At (Returned ''al'' 0), At (Returned ''bo'' 0)])
     \<and> name_in db 0 = ''bo'' \<and> user_ids db = {0}"
proof -
  let ?d1 = "reg_store ''al'' Database_init"
  let ?d2 = "reg_store ''bo'' ?d1"
  have zero: "next_id ?d2 = 0" by (simp add: reg_store_def Database_init_def)
  have "reg_fine_step (Database_init, [At (Entered ''al''), At (Entered ''bo'')]) (?d1, [At (Stored ''al''), At (Entered ''bo'')])"
    using fine_store [of 0 "[At (Entered ''al''), At (Entered ''bo'')]" "''al''" Database_init] by simp
  moreover have "reg_fine_step (?d1, [At (Stored ''al''), At (Entered ''bo'')]) (?d2, [At (Stored ''al''), At (Stored ''bo'')])"
    using fine_store [of 1 "[At (Stored ''al''), At (Entered ''bo'')]" "''bo''" ?d1] by simp
  moreover have "reg_fine_step (?d2, [At (Stored ''al''), At (Stored ''bo'')]) (?d2, [Loaded ''al'' 0, At (Stored ''bo'')])"
    using fine_load [of 0 "[At (Stored ''al''), At (Stored ''bo'')]" "''al''" ?d2] by (simp add: zero)
  moreover have "reg_fine_step (?d2, [Loaded ''al'' 0, At (Stored ''bo'')]) (?d2, [Loaded ''al'' 0, Loaded ''bo'' 0])"
    using fine_load [of 1 "[Loaded ''al'' 0, At (Stored ''bo'')]" "''bo''" ?d2] by (simp add: zero)
  moreover have "reg_fine_step (?d2, [Loaded ''al'' 0, Loaded ''bo'' 0]) (?d2\<lparr>next_id := 1\<rparr>, [At (Returned ''al'' 0), Loaded ''bo'' 0])"
    using fine_write [of 0 "[Loaded ''al'' 0, Loaded ''bo'' 0]" "''al''" 0 ?d2] by simp
  moreover have "reg_fine_step (?d2\<lparr>next_id := 1\<rparr>, [At (Returned ''al'' 0), Loaded ''bo'' 0]) (?d2\<lparr>next_id := 1\<rparr>, [At (Returned ''al'' 0), At (Returned ''bo'' 0)])"
    using fine_write [of 1 "[At (Returned ''al'' 0), Loaded ''bo'' 0]" "''bo''" 0 "?d2\<lparr>next_id := 1\<rparr>"] by simp
  ultimately have "reg_fine_step\<^sup>*\<^sup>* (Database_init, [At (Entered ''al''), At (Entered ''bo'')])
      (?d2\<lparr>next_id := 1\<rparr>, [At (Returned ''al'' 0), At (Returned ''bo'' 0)])"
    by (blast intro: converse_rtranclp_into_rtranclp)
  moreover have "name_in (?d2\<lparr>next_id := 1\<rparr>) 0 = ''bo'' \<and> user_ids (?d2\<lparr>next_id := 1\<rparr>) = {0}"
    by (simp add: name_in_def Database_at_def user_ids_def reg_store_def Database_init_def)
  ultimately show ?thesis by blast
qed

end
