(* ===== verification/Server_Interleaved.thy ===== *)
theory Server_Interleaved
  imports Server_Threads Register_Race "HOL-Library.Sublist"
begin

text \<open>
  The request threads of \<^verbatim>\<open>ServerApp\<close>, interleaved. \<open>Server_Threads\<close> lets a request take effect
  when its thread ends; here a thread receives, parses, runs the two statements of
  \<^verbatim>\<open>Database::registerUser\<close> (the steps of \<open>Register_Race\<close>), builds its answer and sends it, with
  the steps of other threads anywhere in between. Reading the list of users is one step,
  which \<open>Users_Race\<close> takes apart, and so is the increment of the counter, which the end of
  \<open>Register_Race\<close> takes apart. A thread that faults has no step.
\<close>

section \<open>Threads and steps\<close>

text \<open>
  Where a thread is: in the polling loop with the results of \<^verbatim>\<open>recv\<close> so far; before the
  switch over the packet type; between the two statements of \<^verbatim>\<open>registerUser\<close>; with the
  answer in the transmit buffer and the number of bytes to send; at the end, with the
  bytes put on the wire. The id is the local variable of \<^verbatim>\<open>handleRequestRegister\<close>.
\<close>

datatype request_pc =
    Receiving Socket "recv_ev list"
  | Called Socket Packet
  | Name_stored Socket Packet string
  | Replying Socket Packet "user_id_t option" Worker nat
  | Finished Packet "user_id_t option" Worker nat bytes

type_synonym interleaved = "Database \<times> request_pc list"

text \<open>The name a packet registers, if it gets that far.\<close>

definition registers :: "Packet \<Rightarrow> string option" where
  "registers p =
     (if packet_type p = PACKET_TYPE_REQUEST_REGISTER \<and> req_reg p \<noteq> None
      then reg_username (get_req_reg p) else None)"

text \<open>\<open>start_worker p db\<close> is the worker after the header check, which touches no shared data.\<close>

inductive request_step ::
    "(Packet \<Rightarrow> bytes) \<Rightarrow> (bytes \<Rightarrow> Packet) \<Rightarrow> interleaved \<Rightarrow> interleaved \<Rightarrow> bool" for ser parse where
  accepted: "request_step ser parse (db, pcs) (db, pcs @ [Receiving (Socket_new d True 0 0 0) []])"
| polled: "t < length pcs \<Longrightarrow> pcs ! t = Receiving sock evs \<Longrightarrow>
     recv_poll (evs @ [ev]) sock (replicate kBufferSize 0) = None \<Longrightarrow>
     request_step ser parse (db, pcs) (db, pcs[t := Receiving sock (evs @ [ev])])"
| parsed: "t < length pcs \<Longrightarrow> pcs ! t = Receiving sock evs \<Longrightarrow>
     recv_poll (evs @ [ev]) sock (replicate kBufferSize 0) = Some (Inr (sock', n, rx, rest)) \<Longrightarrow>
     request_step ser parse (db, pcs) (db, pcs[t := Called sock' (parse rx)])"
| name_stored: "t < length pcs \<Longrightarrow> pcs ! t = Called sock p \<Longrightarrow> registers p = Some name \<Longrightarrow>
     request_step ser parse (db, pcs) (reg_store name db, pcs[t := Name_stored sock p name])"
| id_returned: "t < length pcs \<Longrightarrow> pcs ! t = Name_stored sock p name \<Longrightarrow> reg_return db = (db', i) \<Longrightarrow>
     reply ser (register_packet i) (start_worker p db') = (w, n) \<Longrightarrow>
     request_step ser parse (db, pcs) (db', pcs[t := Replying sock p (Some i) w n])"
| dispatched: "t < length pcs \<Longrightarrow> pcs ! t = Called sock p \<Longrightarrow> registers p = None \<Longrightarrow>
     iteration_order iter \<Longrightarrow> dispatch ser iter p (start_worker p db) = (w, n) \<Longrightarrow>
     request_step ser parse (db, pcs) (db, pcs[t := Replying sock p None w n])"
| sent_back: "t < length pcs \<Longrightarrow> pcs ! t = Replying sock p k w n \<Longrightarrow>
     send_reply tx_evs sock (report (debug p) w) n = Some (Inr (w', wire)) \<Longrightarrow>
     request_step ser parse (db, pcs) (db, pcs[t := Finished p k w n wire])"

inductive request_reachable ::
    "(Packet \<Rightarrow> bytes) \<Rightarrow> (bytes \<Rightarrow> Packet) \<Rightarrow> interleaved \<Rightarrow> bool" for ser parse where
  no_request: "request_reachable ser parse (Database_getInstance None, [])"
| next_request: "request_reachable ser parse st \<Longrightarrow> request_step ser parse st st' \<Longrightarrow>
     request_reachable ser parse st'"

section \<open>What a dispatched packet does\<close>

lemma registers_Some: "registers p = Some name \<longleftrightarrow>
    packet_type p = PACKET_TYPE_REQUEST_REGISTER \<and> req_reg p = Some \<lparr>reg_username = Some name\<rparr>"
  by (cases "req_reg p") (auto simp: registers_def get_req_reg_def)

lemma dispatch_registers:
  "registers p = Some name \<Longrightarrow> dispatch ser iter p w =
     reply ser (register_packet (next_id (shared_db w))) (w\<lparr>shared_db := fst (registerUser (shared_db w) name)\<rparr>)"
  by (simp add: registers_Some dispatch_def handler_simps)

lemma dispatch_other:
  "registers p = None \<Longrightarrow> shared_db (fst (dispatch ser iter p w)) = shared_db w"
  by (auto simp: registers_def dispatch_def handleRequestRegister_def handleRequestUsers_def Let_def
      split: mcc_PacketType.splits if_splits)




section \<open>An undisturbed request\<close>

lemma recv_poll_split:
  assumes "recv_poll evs s buf = Some (Inr (s', n, rx, rest))" "buf \<noteq> []"
  shows "\<exists>pre ev rest'. recv_poll pre s buf = None \<and> recv_poll (pre @ [ev]) s buf = Some (Inr (s', n, rx, rest'))"
  using assms(1)
proof (induction evs)
  case (Cons ev evs)
  show ?case
  proof (cases "recv_retry ev \<and> arrived ev = []")
    case True
    then obtain pre ev' rest' where split: "recv_poll pre s buf = None"
      "recv_poll (pre @ [ev']) s buf = Some (Inr (s', n, rx, rest'))"
      using Cons by (auto simp del: recv_poll.simps)
    then have "recv_poll (ev # pre) s buf = None" "recv_poll ((ev # pre) @ [ev']) s buf = Some (Inr (s', n, rx, rest'))"
      using True by (simp_all del: recv_poll.simps)
    then show ?thesis by blast
  next
    case False
    have "\<exists>rest'. recv_poll [ev] s buf = Some (Inr (s', n, rx, rest'))"
    proof (cases ev)
      case (Data bs)
      with False Cons.prems assms(2) show ?thesis by (simp add: recv_poll_Data del: recv_poll.simps)
    next
      case (RecvErr e)
      with False Cons.prems show ?thesis by (auto simp: receiveNb_def)
    qed
    moreover have "recv_poll [] s buf = None" by simp
    ultimately show ?thesis by (metis append_Nil)
  qed
qed simp

text \<open>Polling reaches any number of calls that bring nothing.\<close>

lemma polling_run:
  assumes "recv_poll evs sock (replicate kBufferSize 0) = None" "t < length pcs" "pcs ! t = Receiving sock []"
  shows "(request_step ser parse)\<^sup>*\<^sup>* (db, pcs) (db, pcs[t := Receiving sock evs])"
  using assms(1)
proof (induction evs rule: rev_induct)
  case Nil
  show ?case using assms(2,3) by (metis list_update_id rtranclp.rtrancl_refl)
next
  case (snoc ev evs)
  then have "recv_poll evs sock (replicate kBufferSize 0) = None"
    by (simp add: recv_poll_None_iff kBufferSize_def)
  then have "(request_step ser parse)\<^sup>*\<^sup>* (db, pcs) (db, pcs[t := Receiving sock evs])"
    by (rule snoc.IH)
  moreover have "request_step ser parse (db, pcs[t := Receiving sock evs]) (db, pcs[t := Receiving sock (evs @ [ev])])"
    using request_step.polled [of t "pcs[t := Receiving sock evs]" sock evs ev ser parse db] assms(2) snoc.prems by simp
  ultimately show ?case by (rule rtranclp.rtrancl_into_rtrancl)
qed

text \<open>The steps between the parsed packet and its answer, without other threads.\<close>

lemma dispatched_run:
  assumes d: "dispatch ser iter p (start_worker p db) = (v, m)" and "iteration_order iter" "t < length pcs"
  shows "\<exists>k x. (request_step ser parse)\<^sup>*\<^sup>* (db, pcs[t := Called sock p]) (shared_db v, pcs[t := Replying sock p k x m])
    \<and> tx x = tx v"
proof (cases "registers p")
  case None
  have "request_step ser parse (db, pcs[t := Called sock p]) (db, pcs[t := Replying sock p None v m])"
    using request_step.dispatched [OF _ _ None assms(2) d, of t "pcs[t := Called sock p]"] assms(3) by simp
  moreover have "shared_db v = db"
    using dispatch_other [OF None, of ser iter "start_worker p db"] d by simp
  ultimately show ?thesis by blast
next
  case (Some name)
  let ?db = "reg_store name db"
  obtain db' i where ret: "reg_return ?db = (db', i)" by (cases "reg_return ?db")
  have v: "reply ser (register_packet (next_id db)) ((start_worker p db)\<lparr>shared_db := fst (registerUser db name)\<rparr>) = (v, m)"
    using d dispatch_registers [OF Some, of ser iter "start_worker p db"] by simp
  have i: "i = next_id db" "fst (registerUser db name) = db'"
    using ret reg_steps_registerUser [of name db] by (auto simp: reg_return_def reg_store_def prod_eq_iff)
  obtain x m' where x: "reply ser (register_packet i) (start_worker p db') = (x, m')"
    by (cases "reply ser (register_packet i) (start_worker p db')")
  have same: "m' = m" "tx x = tx v" "shared_db v = db'"
    using x v by (auto simp: reply_def i)
  have "request_step ser parse (db, pcs[t := Called sock p]) (?db, pcs[t := Name_stored sock p name])"
    using request_step.name_stored [OF _ _ Some, of t "pcs[t := Called sock p]"] assms(3) by simp
  moreover have "request_step ser parse (?db, pcs[t := Name_stored sock p name]) (db', pcs[t := Replying sock p (Some i) x m])"
    using request_step.id_returned [OF _ _ ret x, of t "pcs[t := Name_stored sock p name]"] assms(3) by (simp add: same)
  ultimately show ?thesis
    using same by (metis rtranclp.rtrancl_into_rtrancl r_into_rtranclp)
qed

text \<open>A request handled at once is one of the schedules of its thread.\<close>

lemma handled_run:
  assumes "handleRequest ser parse debug iter d rx_evs tx_evs db = Some (Inr (w, wire))"
    and "iteration_order iter" "t < length pcs" "pcs ! t = Receiving (Socket_new d True 0 0 0) []"
  shows "\<exists>p k v n. (request_step ser parse)\<^sup>*\<^sup>* (db, pcs) (shared_db w, pcs[t := Finished p k v n wire])"
proof -
  let ?sock = "Socket_new d True 0 0 0" and ?run = "(request_step ser parse)\<^sup>*\<^sup>*"
  obtain sock n rx rest where poll: "recv_poll rx_evs ?sock (replicate kBufferSize 0) = Some (Inr (sock, n, rx, rest))"
    and packet: "handlePacket ser debug iter sock (parse rx) tx_evs
      \<lparr>shared_db = db, tx = replicate kBufferSize 0, lines = []\<rparr> = Some (Inr (w, wire))"
    using assms(1) by (auto simp: handleRequest_def Let_def split: option.splits sum.splits)
  let ?p = "parse rx"
  obtain v m where d: "dispatch ser iter ?p (start_worker ?p db) = (v, m)"
    and sent: "send_reply tx_evs sock (report (debug ?p) v) m = Some (Inr (w, wire))"
    using packet by (auto simp: handlePacket_def start_worker_def split: prod.splits)
  obtain pre ev rest' where "recv_poll pre ?sock (replicate kBufferSize 0) = None"
    and ev: "recv_poll (pre @ [ev]) ?sock (replicate kBufferSize 0) = Some (Inr (sock, n, rx, rest'))"
    using recv_poll_split [OF poll] by (auto simp: kBufferSize_def)
  then have polled: "?run (db, pcs) (db, pcs[t := Receiving ?sock pre])"
    using polling_run assms(3,4) by blast
  have called: "request_step ser parse (db, pcs[t := Receiving ?sock pre]) (db, pcs[t := Called sock ?p])"
    using request_step.parsed [of t "pcs[t := Receiving ?sock pre]" ?sock pre ev sock n rx rest' ser parse db] assms(3) ev
    by simp
  obtain k x where answered: "?run (db, pcs[t := Called sock ?p]) (shared_db v, pcs[t := Replying sock ?p k x m])" "tx x = tx v"
    using dispatched_run [OF d assms(2,3)] by blast
  have "\<exists>x'. send_reply tx_evs sock (report (debug ?p) x) m = Some (Inr (x', wire))" and w: "shared_db w = shared_db v"
    using sent answered(2) by (auto simp: send_reply_def split: option.splits sum.splits)
  then have "request_step ser parse (shared_db v, pcs[t := Replying sock ?p k x m])
      (shared_db v, pcs[t := Finished ?p k x m wire])"
    using request_step.sent_back [of t "pcs[t := Replying sock ?p k x m]" sock ?p k x m] assms(3) by auto
  with polled called answered(1) show ?thesis
    unfolding w by (meson rtranclp.rtrancl_into_rtrancl rtranclp_trans)
qed

section \<open>The requests in one order\<close>



text \<open>A registration counts from the moment its name is stored, with the id it is going to get.\<close>

fun registering :: "request_pc \<Rightarrow> bool" where
  "registering (Name_stored sock p name) \<longleftrightarrow> True"
| "registering pc \<longleftrightarrow> False"





text \<open>At most one thread is inside \<^verbatim>\<open>registerUser\<close>.\<close>

definition apart :: "interleaved \<Rightarrow> bool" where
  "apart st \<longleftrightarrow> (\<forall>t u. t < length (snd st) \<and> u < length (snd st)
     \<and> registering (snd st ! t) \<and> registering (snd st ! u) \<longrightarrow> t = u)"


definition others_idle :: "request_pc list \<Rightarrow> nat \<Rightarrow> bool" where
  "others_idle pcs t \<longleftrightarrow> (\<forall>u<length pcs. u \<noteq> t \<longrightarrow> \<not> registering (pcs ! u))"


lemma others_idle_update [simp]: "others_idle (pcs[t := pc]) t \<longleftrightarrow> others_idle pcs t"
  by (auto simp: others_idle_def)













section \<open>The ids in the answers\<close>

text \<open>The answer a thread has prepared, and what of it is on the wire.\<close>

fun answer_bytes :: "request_pc \<Rightarrow> bytes" where
  "answer_bytes (Replying sock p k w n) = take n (tx w)"
| "answer_bytes (Finished p k w n wire) = take n (tx w)"
| "answer_bytes pc = []"

fun wire_bytes :: "request_pc \<Rightarrow> bytes" where
  "wire_bytes (Finished p k w n wire) = wire"
| "wire_bytes pc = []"

fun registered_as :: "request_pc \<Rightarrow> string option" where
  "registered_as (Replying sock p k w n) = registers p"
| "registered_as (Finished p k w n wire) = registers p"
| "registered_as pc = None"

fun ids_of :: "request_pc \<Rightarrow> user_id_t list" where
  "ids_of (Replying sock p (Some i) w n) = [i]"
| "ids_of (Finished p (Some i) w n wire) = [i]"
| "ids_of pc = []"

fun thread_ok :: "(Packet \<Rightarrow> bytes) \<Rightarrow> request_pc \<Rightarrow> bool" where
  "thread_ok ser (Name_stored sock p name) \<longleftrightarrow> registers p = Some name"
| "thread_ok ser (Replying sock p k w n) \<longleftrightarrow> (k = None) = (registers p = None)
     \<and> (\<forall>i. k = Some i \<longrightarrow> n \<le> length (tx w) \<and> take n (tx w) = ser (register_packet i))"
| "thread_ok ser (Finished p k w n wire) \<longleftrightarrow> (k = None) = (registers p = None)
     \<and> (\<forall>i. k = Some i \<longrightarrow> take n (tx w) = ser (register_packet i) \<and> prefix wire (take n (tx w)))"
| "thread_ok ser pc \<longleftrightarrow> True"

definition ids_ok :: "(Packet \<Rightarrow> bytes) \<Rightarrow> interleaved \<Rightarrow> bool" where
  "ids_ok ser st \<longleftrightarrow> (case st of (db, pcs) \<Rightarrow>
     counted (next_id db) (concat (map ids_of pcs)) \<and> list_all (thread_ok ser) pcs)"

lemma threads_ok_update: "list_all P xs \<Longrightarrow> P x \<Longrightarrow> list_all P (xs[t := x])"
  by (cases "t < length xs") (simp_all add: list_all_length nth_list_update)

lemma ids_ok_thread: "ids_ok ser (db, pcs) \<Longrightarrow> t < length pcs \<Longrightarrow> thread_ok ser (pcs ! t)"
  by (simp add: ids_ok_def list_all_length)

lemma ids_ok_same:
  assumes "ids_ok ser (db, pcs)" "t < length pcs" "next_id db' = next_id db"
    and "ids_of (pcs ! t) = []" "ids_of pc = []" "thread_ok ser pc"
  shows "ids_ok ser (db', pcs[t := pc])"
proof -
  have "mset (concat (map ids_of (pcs[t := pc]))) = mset (concat (map ids_of pcs))"
    using mset_concat_update [of t pcs ids_of] assms by simp
  then show ?thesis
    using assms(1,3,6) counted_same [of "next_id db" "concat (map ids_of pcs)"]
    by (simp add: ids_ok_def threads_ok_update)
qed

lemma ids_ok_new:
  assumes "ids_ok ser (db, pcs)" "t < length pcs" "reg_return db = (db', i)"
    and "ids_of (pcs ! t) = []" "ids_of pc = [i]" "thread_ok ser pc"
  shows "ids_ok ser (db', pcs[t := pc])"
proof -
  have i: "i = next_id db" "next_id db' = next_id db + 1"
    using assms(3) by (auto simp: reg_return_def)
  then have "mset (concat (map ids_of (pcs[t := pc]))) = mset (concat (map ids_of pcs) @ [next_id db])"
    using mset_concat_update [of t pcs ids_of] assms by simp
  then show ?thesis
    using assms(1,6) counted_next [of "next_id db" "concat (map ids_of pcs)"]
    by (simp add: ids_ok_def i threads_ok_update)
qed

lemma send_reply_prefix:
  assumes "send_reply tx_evs s (report l w) n = Some (Inr (w', wire))" "n \<le> length (tx w)"
  shows "prefix wire (take n (tx w))"
proof -
  obtain s' ok rest where "sendB tx_evs s (tx w) n = Some (Inr (s', ok, wire, rest))"
    using assms(1) by (auto simp: send_reply_def split: option.splits sum.splits)
  then obtain m where "m \<le> n" "wire = take m (tx w)"
    using sendB_sends_prefix [OF assms(2)] by blast
  then have "wire = take m (take n (tx w))"
    by (simp add: min_def)
  then show ?thesis using take_is_prefix by metis
qed

lemma ids_ok_step:
  assumes "request_step ser parse st st'" "ids_ok ser st"
    and fits: "\<And>i. length (ser (register_packet i)) \<le> kBufferSize"
  shows "ids_ok ser st'"
  using assms(1,2)
proof (induction rule: request_step.induct)
  case (accepted db pcs d)
  then show ?case by (simp add: ids_ok_def)
next
  case (polled t pcs sock evs ev db)
  then show ?case by (intro ids_ok_same [OF polled.prems]) simp_all
next
  case (parsed t pcs sock evs ev sock' n rx rest db)
  then show ?case by (intro ids_ok_same [OF parsed.prems]) simp_all
next
  case (name_stored t pcs sock p name db)
  then show ?case by (intro ids_ok_same [OF name_stored.prems]) (simp_all add: reg_store_def)
next
  case (id_returned t pcs sock p name db db' i w n)
  have "thread_ok ser (pcs ! t)"
    by (rule ids_ok_thread [OF id_returned.prems id_returned.hyps(1)])
  moreover have "n \<le> length (tx w)" "take n (tx w) = ser (register_packet i)"
    using id_returned.hyps(4) fits [of i] by (auto simp: reply_def SerializeToArray_def ByteSizeLong_def)
  ultimately have "thread_ok ser (Replying sock p (Some i) w n)"
    using id_returned.hyps(2) by simp
  then show ?case
    using id_returned.hyps(2) by (intro ids_ok_new [OF id_returned.prems id_returned.hyps(1,3)]) simp_all
next
  case (dispatched t pcs sock p iter db w n)
  then show ?case by (intro ids_ok_same [OF dispatched.prems]) simp_all
next
  case (sent_back t pcs sock p k w n tx_evs debug w' wire db)
  have "thread_ok ser (Replying sock p k w n)"
    using ids_ok_thread [OF sent_back.prems sent_back.hyps(1)] sent_back.hyps(2) by simp
  then have "thread_ok ser (Finished p k w n wire)"
    using send_reply_prefix [OF sent_back.hyps(3)] by auto
  moreover have "map ids_of (pcs[t := Finished p k w n wire]) = map ids_of pcs"
    using sent_back.hyps(1,2) by (cases k) (auto simp: map_update list_update_same_conv)
  ultimately show ?case
    using sent_back.prems by (simp add: ids_ok_def threads_ok_update del: thread_ok.simps)
qed

lemma ids_ok_reachable:
  assumes "request_reachable ser parse st" "\<And>i. length (ser (register_packet i)) \<le> kBufferSize"
  shows "ids_ok ser st"
  using assms(1)
proof (induction rule: request_reachable.induct)
  case no_request
  show ?case by (simp add: ids_ok_def Database_init_def)
next
  case (next_request st st')
  show ?case by (rule ids_ok_step [OF next_request.hyps(2) next_request.IH assms(2)])
qed

section \<open>Properties\<close>

lemma ids_of_length: "length (concat (map ids_of pcs)) \<le> length pcs"
proof (induction pcs)
  case (Cons pc pcs)
  have "length (ids_of pc) \<le> 1" by (cases pc rule: ids_of.cases) simp_all
  with Cons show ?case by simp
qed simp

lemma registered_thread:
  assumes "thread_ok ser pc" "registered_as pc \<noteq> None"
  shows "\<exists>i. ids_of pc = [i] \<and> answer_bytes pc = ser (register_packet i) \<and> prefix (wire_bytes pc) (answer_bytes pc)"
  using assms by (cases pc rule: ids_of.cases) auto

text \<open>An answer with an id is short enough for the buffer, in the real format.\<close>

lemma enc_varint_length: "n < 128 ^ Suc k \<Longrightarrow> length (enc_varint n) \<le> Suc k"
proof (induction k arbitrary: n)
  case 0
  then show ?case by (simp add: enc_varint.simps)
next
  case (Suc k)
  then have "n div 128 < 128 ^ Suc k" by simp
  then have "length (enc_varint (n div 128)) \<le> Suc k" by (rule Suc.IH)
  then show ?case by (simp add: enc_varint.simps [of n])
qed

lemma register_packet_fits: "length (wire_ser (register_packet i)) \<le> kBufferSize"
proof -
  have "unat i < 2 ^ LENGTH(32)" by (rule unsigned_less)
  then have "unat i < 128 ^ Suc 4" by simp
  then have id: "length (enc_varint (unat i)) \<le> Suc 4" by (rule enc_varint_length)
  let ?resp = "enc_fields (RespRegister_fields \<lparr>reg_resp_value = Some 0, reg_assigned_id = Some i\<rparr>)"
  have resp: "length ?resp \<le> 8"
    using id by (simp add: RespRegister_fields_def put_u32_def enc_fields_def enc_varint.simps [of 0]
        enc_varint.simps [of 8] enc_varint.simps [of 16])
  then have "length (enc_varint (length ?resp)) \<le> Suc 0" by (intro enc_varint_length) simp
  moreover have "enc_fields (Header_fields \<lparr>hdr_packet_type = Some PACKET_TYPE_RESP_REGISTER\<rparr>) = [8, 4]"
    by code_simp
  moreover have "wire_ser (register_packet i) = enc_fields [(1, Len (enc_fields
      (Header_fields \<lparr>hdr_packet_type = Some PACKET_TYPE_RESP_REGISTER\<rparr>))), (6, Len ?resp)]"
    by (simp add: wire_ser_def Packet_fields_def register_packet_def packet_accessors put_msg_def)
  ultimately show ?thesis
    using resp by (simp add: kBufferSize_def enc_fields_def [of "[_, _]"] enc_varint.simps [of "Suc (Suc 0)"] enc_varint.simps [of 10]
        enc_varint.simps [of 50])
qed

text \<open>
  C12. However the request threads interleave, as long as the increment of the counter is
  not torn apart (\<open>same_id_twice\<close>), each registration that has been answered has an id of its
  own: its thread sends exactly the positive answer with that id, or a part of it, and no
  two of up to \<open>2 ^ 32\<close> connections are told the same id.
\<close>

theorem answers_give_distinct_ids:
  assumes "request_reachable ser parse (db, pcs)" "length pcs \<le> 2 ^ 32"
    and "\<And>i. length (ser (register_packet i)) \<le> kBufferSize"
  shows "\<exists>id_of. inj_on id_of {t. t < length pcs \<and> registered_as (pcs ! t) \<noteq> None}
    \<and> (\<forall>t<length pcs. registered_as (pcs ! t) \<noteq> None \<longrightarrow>
         answer_bytes (pcs ! t) = ser (register_packet (id_of t)) \<and> prefix (wire_bytes (pcs ! t)) (answer_bytes (pcs ! t)))"
proof -
  have ok: "ids_ok ser (db, pcs)"
    by (rule ids_ok_reachable [OF assms(1,3)])
  have "distinct (concat (map ids_of pcs))"
    using ok counted_distinct ids_of_length [of pcs] assms(2) unfolding ids_ok_def by (metis case_prod_conv order_trans)
  note apart = distinct_concat_nth [OF this]
  define id_of where "id_of t = hd (ids_of (pcs ! t))" for t
  have ids: "ids_of (pcs ! t) = [id_of t] \<and> answer_bytes (pcs ! t) = ser (register_packet (id_of t))
      \<and> prefix (wire_bytes (pcs ! t)) (answer_bytes (pcs ! t))"
    if "t < length pcs" "registered_as (pcs ! t) \<noteq> None" for t
    using registered_thread [OF ids_ok_thread [OF ok that(1)] that(2)] by (auto simp: id_of_def)
  have "inj_on id_of {t. t < length pcs \<and> registered_as (pcs ! t) \<noteq> None}"
  proof (rule inj_onI)
    fix t u
    assume "t \<in> {t. t < length pcs \<and> registered_as (pcs ! t) \<noteq> None}" "u \<in> {t. t < length pcs \<and> registered_as (pcs ! t) \<noteq> None}"
      and "id_of t = id_of u"
    then show "t = u" using apart [of t u "id_of t"] ids by fastforce
  qed
  with ids show ?thesis by blast
qed


section \<open>Example runs\<close>

abbreviation example_sock :: Socket where
  "example_sock \<equiv> Socket_new 4 True 0 0 0"

definition example_reply :: "Database \<Rightarrow> user_id_t \<Rightarrow> request_pc" where
  "example_reply db i =
     (case reply wire_ser (register_packet i) (start_worker hello_packet db) of
        (w, n) \<Rightarrow> Replying example_sock hello_packet (Some i) w n)"

lemma example_registers: "registers hello_packet = Some ''al''"
  by code_simp

lemma example_parsed:
  assumes "t < length pcs" "pcs ! t = Receiving example_sock []"
  shows "request_step wire_ser wire_parse (db, pcs) (db, pcs[t := Called example_sock hello_packet])"
proof -
  let ?bs = "wire_ser hello_packet"
  have "?bs \<noteq> []" "length ?bs \<le> kBufferSize" "kBufferSize \<noteq> 0"
    by (simp_all add: example_packets_ser kBufferSize_def)
  then have "recv_poll ([] @ [Data ?bs]) example_sock (replicate kBufferSize 0)
      = Some (Inr (example_sock, int (length ?bs), ?bs @ replicate (kBufferSize - length ?bs) 0, []))"
    by (simp add: recv_poll_Data min_def del: recv_poll.simps)
  then show ?thesis
    using request_step.parsed [OF assms] wire.parse_padded [OF example_packets_wf(1)] by metis
qed

lemma example_stored:
  "t < length pcs \<Longrightarrow> pcs ! t = Called example_sock hello_packet \<Longrightarrow>
   request_step wire_ser wire_parse (db, pcs) (reg_store ''al'' db, pcs[t := Name_stored example_sock hello_packet ''al''])"
  by (rule request_step.name_stored [OF _ _ example_registers])

lemma example_returned:
  "t < length pcs \<Longrightarrow> pcs ! t = Name_stored example_sock hello_packet ''al'' \<Longrightarrow> reg_return db = (db', i) \<Longrightarrow>
   request_step wire_ser wire_parse (db, pcs) (db', pcs[t := example_reply db' i])"
  using request_step.id_returned [of t pcs example_sock hello_packet "''al''" db db' i wire_ser]
  by (cases "reply wire_ser (register_packet i) (start_worker hello_packet db')") (simp add: example_reply_def)

text \<open>Two clients whose registrations overlap: both threads store before either returns.\<close>

definition overlapped_threads :: "request_pc list" where
  "overlapped_threads =
     (let db = reg_store ''al'' (reg_store ''al'' Database_init)
      in [example_reply (db\<lparr>next_id := 1\<rparr>) 0, example_reply (db\<lparr>next_id := 2\<rparr>) 1])"

lemma overlapped_reachable: "\<exists>db. request_reachable wire_ser wire_parse (db, overlapped_threads)"
proof -
  let ?R = "Receiving example_sock []" and ?C = "Called example_sock hello_packet"
    and ?S = "Name_stored example_sock hello_packet ''al''"
  let ?d1 = "reg_store ''al'' Database_init"
  let ?d2 = "reg_store ''al'' ?d1"
  note nxt = next_request [of wire_ser wire_parse]
  have "request_reachable wire_ser wire_parse (Database_init, [])"
    using no_request [of wire_ser wire_parse] by simp
  from nxt [OF this accepted [of _ _ _ _ 4]] have "request_reachable wire_ser wire_parse (Database_init, [?R])"
    by simp
  from nxt [OF this accepted [of _ _ _ _ 4]] have "request_reachable wire_ser wire_parse (Database_init, [?R, ?R])"
    by simp
  from nxt [OF this example_parsed [of 0]] have "request_reachable wire_ser wire_parse (Database_init, [?C, ?R])"
    by simp
  from nxt [OF this example_parsed [of 1]] have "request_reachable wire_ser wire_parse (Database_init, [?C, ?C])"
    by simp
  from nxt [OF this example_stored [of 0]] have "request_reachable wire_ser wire_parse (?d1, [?S, ?C])"
    by simp
  from nxt [OF this example_stored [of 1]] have r: "request_reachable wire_ser wire_parse (?d2, [?S, ?S])"
    by simp
  have ret: "reg_return ?d2 = (?d2\<lparr>next_id := 1\<rparr>, 0)" "reg_return (?d2\<lparr>next_id := 1\<rparr>) = (?d2\<lparr>next_id := 2\<rparr>, 1)"
    by (simp_all add: reg_return_def reg_store_def Database_init_def)
  from nxt [OF r example_returned [OF _ _ ret(1), of 0]]
  have "request_reachable wire_ser wire_parse (?d2\<lparr>next_id := 1\<rparr>, [example_reply (?d2\<lparr>next_id := 1\<rparr>) 0, ?S])"
    by simp
  from nxt [OF this example_returned [OF _ _ ret(2), of 1]] show ?thesis
    by (auto simp: overlapped_threads_def Let_def)
qed

lemma example_registered: "registered_as (example_reply db i) = Some ''al''"
  by (simp add: example_reply_def reply_def example_registers)

theorem answers_give_distinct_ids_witness:
  "\<exists>i j. i \<noteq> j \<and> answer_bytes (overlapped_threads ! 0) = wire_ser (register_packet i)
     \<and> answer_bytes (overlapped_threads ! 1) = wire_ser (register_packet j)"
proof -
  obtain db where "request_reachable wire_ser wire_parse (db, overlapped_threads)"
    using overlapped_reachable by blast
  moreover have "length overlapped_threads \<le> 2 ^ 32"
    by (simp add: overlapped_threads_def Let_def)
  ultimately obtain id_of where ids: "inj_on id_of {t. t < length overlapped_threads \<and> registered_as (overlapped_threads ! t) \<noteq> None}"
    "\<forall>t<length overlapped_threads. registered_as (overlapped_threads ! t) \<noteq> None \<longrightarrow>
       answer_bytes (overlapped_threads ! t) = wire_ser (register_packet (id_of t))
       \<and> prefix (wire_bytes (overlapped_threads ! t)) (answer_bytes (overlapped_threads ! t))"
    using answers_give_distinct_ids [of wire_ser wire_parse db overlapped_threads] register_packet_fits by blast
  have two: "length overlapped_threads = 2"
    "registered_as (overlapped_threads ! 0) \<noteq> None" "registered_as (overlapped_threads ! 1) \<noteq> None"
    by (simp_all add: overlapped_threads_def Let_def example_registered)
  then have "id_of 0 \<noteq> id_of 1"
    using inj_onD [OF ids(1), of 0 1] by auto
  then show ?thesis
    using ids(2) two by (intro exI [of _ "id_of 0"] exI [of _ "id_of 1"]) auto
qed


end
