(* ===== verification/Client_Parser.thy ===== *)
theory Client_Parser
  imports Mcc_Server Wire
begin

text \<open>
  \<^verbatim>\<open>client/client_parser.cpp\<close>: the registration request as two protocol-buffer messages,
  a header and a payload, written one after the other to a string stream. The library's
  \<^verbatim>\<open>SerializeToOstream\<close> is an argument for each message type: the bytes it writes and its
  flag. The request is meant for \<^verbatim>\<open>MccServer::parseRequestRegisterProto\<close>.
\<close>

section \<open>Encoding\<close>

definition stream_request_register ::
    "(mcc_Header \<Rightarrow> bytes \<times> bool) \<Rightarrow> (RequestRegister \<Rightarrow> bytes \<times> bool) \<Rightarrow> string \<Rightarrow>
     bytes \<times> string list" where
  "stream_request_register ser_hdr ser_req name =
     (let oss = [];
          hdr = \<lparr>hdr_packet_type = Some PACKET_TYPE_REQUEST_REGISTER\<rparr>;
          (bs, ok) = ser_hdr hdr;
          oss = oss @ bs;
          l = (if \<not> ok then [''Error parsing Header to ostream''] else []);
          req = \<lparr>reg_username = None\<rparr>;
          req = req\<lparr>reg_username := Some name\<rparr>;
          l = l @ [''Setting username: '' @ name];
          (bs, ok) = ser_req req;
          oss = oss @ bs;
          l = (if \<not> ok then l @ [''Error parsing RequestRegister Payload to ostream''] else l)
      in (oss, l))"

section \<open>The library on the wire format\<close>

text \<open>
  \<^verbatim>\<open>ParseFromIstream\<close> reads its stream to the end: every byte belongs to the one message,
  and a field the message does not have is skipped.
\<close>

definition wire_hdr_bytes :: "mcc_Header \<Rightarrow> bytes \<times> bool" where
  "wire_hdr_bytes h = (enc_fields (Header_fields h), True)"

definition wire_req_bytes :: "RequestRegister \<Rightarrow> bytes \<times> bool" where
  "wire_req_bytes r = (enc_fields (RequestRegister_fields r), True)"

definition wire_parse_hdr :: "bytes \<Rightarrow> bool \<times> mcc_Header \<times> bytes" where
  "wire_parse_hdr bs = (True, Header_of_fields (dec_fields bs), [])"

definition wire_parse_req :: "bytes \<Rightarrow> bool \<times> RequestRegister \<times> bytes" where
  "wire_parse_req bs = (True, RequestRegister_of_fields (dec_fields bs), [])"

lemma stream_request_register_eq:
  "stream_request_register wire_hdr_bytes wire_req_bytes name =
     ([8, 0] @ enc_fields (put_string 1 (Some name)), [''Setting username: '' @ name])"
proof -
  have "enc_fields (Header_fields \<lparr>hdr_packet_type = Some PACKET_TYPE_REQUEST_REGISTER\<rparr>) = [8, 0]"
    by code_simp
  then show ?thesis
    by (simp add: stream_request_register_def wire_hdr_bytes_def wire_req_bytes_def
        RequestRegister_fields_def Let_def)
qed

text \<open>The stream starts with 8, which is no packet type of the binary protocol.\<close>

lemma PacketType_of_8: "PacketType_of 8 = None"
  by code_simp

lemma parse_stream:
  assumes "data = 8 # rest" "5 \<le> length data" "sz \<le> length data"
  shows "parse ph pr iter s data sz =
    parseRequestRegisterProto ph pr (log_line ''ERR: Server received unknown packet type '' s) (take sz data)"
proof -
  have "load_Header data 0 = Inr \<lparr>hdr_type = 8, hdr_len = of_le32 (tl (take 5 data))\<rparr>"
    using assms(1,2) by (simp add: load_Header_def load_at_def sizeof_Header_def)
  moreover have "load_at data 0 sz = Inr (take sz data)"
    using assms(3) by (simp add: load_at_def)
  ultimately show ?thesis
    by (simp add: parse_def PacketType_of_8 Let_def)
qed

section \<open>Properties\<close>

text \<open>
  C34. A registration written by \<^verbatim>\<open>ClientParser::encodeRequestRegister\<close> and handed to
  \<^verbatim>\<open>MccServer::parse\<close> registers a user with an empty name, whatever name it carries:
  the two messages have no boundary in the stream, the server's first parse consumes
  both, and the second finds nothing.
\<close>

theorem stream_register_loses_name:
  assumes "name \<noteq> []" "10 \<le> length (tx_buffer s)"
    and "data = fst (stream_request_register wire_hdr_bytes wire_req_bytes name)"
  shows "\<exists>s'. parse wire_parse_hdr wire_parse_req iter s data (length data) = Inr (s', 10)
    \<and> db s' = fst (registerUser (db s) []) \<and> ''ERR: NO USERNAME'' \<in> set (log s')"
proof -
  have data: "data = 8 # 0 # enc_field (1, Len (bytes_of_string name))"
    using assms(3) by (simp add: stream_request_register_eq put_string_def enc_fields_def)
  have "0 < length (enc_varint n)" for n
    using enc_varint_nonempty [of n] by (simp only: length_greater_0_conv not_False_eq_True)
  then have "1 \<le> length (enc_varint (8 * 1 + 2))" "1 \<le> length (enc_varint (length name))"
    by (simp_all only: One_nat_def Suc_le_eq)
  moreover have "1 \<le> length name" using assms(1) by (cases name) simp_all
  ultimately have len: "5 \<le> length data"
    by (simp add: data)
  define h where "h = Header_of_fields (dec_fields data)"
  let ?s = "log_line ''ERR: Server received unknown packet type '' s"
  obtain d i where reg: "registerUser (db s) [] = (d, i)" by force
  have "dec_fields [] = []" by (simp add: dec_fields.simps dec_field_def)
  then have req: "wire_parse_req [] = (True, \<lparr>reg_username = None\<rparr>, [])"
    by (simp add: wire_parse_req_def RequestRegister_of_fields_def get_string_def last_opt_def)
  have "parse wire_parse_hdr wire_parse_req iter s data (length data)
      = parseRequestRegisterProto wire_parse_hdr wire_parse_req ?s data"
    using parse_stream [OF data len] by simp
  also have "\<dots> = register_reply (?s\<lparr>log := log ?s @ proto_log True h True \<lparr>reg_username = None\<rparr>, db := d\<rparr>) i"
    by (rule parseRequestRegisterProto_eq [where iss = "[]" and iss' = "[]"])
      (simp_all add: wire_parse_hdr_def h_def req reg)
  finally show ?thesis
    using assms(2) by (simp add: handler_simps reg proto_log_def)
qed

theorem stream_register_loses_name_witness:
  "\<exists>s'. parse wire_parse_hdr wire_parse_req (\<lambda>es. es) (fresh_server 16) [8, 0, 10, 2, 97, 108] 6 = Inr (s', 10)
    \<and> db s' = fst (registerUser Database_init []) \<and> ''ERR: NO USERNAME'' \<in> set (log s')"
proof -
  have "fst (stream_request_register wire_hdr_bytes wire_req_bytes ''al'') = [8, 0, 10, 2, 97, 108]"
    by code_simp
  note data = this [symmetric]
  have s: "10 \<le> length (tx_buffer (fresh_server 16))" "db (fresh_server 16) = Database_init"
    by (simp_all add: fresh_server_def)
  have len: "length [8, 0, 10, 2, 97, 108 :: byte] = 6"
    by simp
  from stream_register_loses_name [OF _ s(1) data, of "\<lambda>es. es"] show ?thesis
    unfolding s(2) len by simp
qed

end
