(* ===== verification/Decimal.thy ===== *)
theory Decimal
  imports Prelude
begin

text \<open>
  Decimal numbers as the standard library reads and prints them: digits, white space, the
  value of a digit string, and \<^verbatim>\<open>std::stoi\<close>.
\<close>

definition is_space :: "char \<Rightarrow> bool" where
  "is_space ch \<longleftrightarrow> ch \<in> {CHR '' '', CHR 0x09, CHR 0x0A, CHR 0x0B, CHR 0x0C, CHR 0x0D}"

definition is_digit :: "char \<Rightarrow> bool" where
  "is_digit ch \<longleftrightarrow> 48 \<le> (of_char ch :: nat) \<and> (of_char ch :: nat) \<le> 57"

definition digits_value :: "string \<Rightarrow> nat" where
  "digits_value = foldl (\<lambda>n ch. 10 * n + (of_char ch - 48)) 0"

definition int_max :: int where
  "int_max = 2 ^ 31 - 1"

definition show_int :: "int \<Rightarrow> string" where
  "show_int i = (if i < 0 then CHR ''-'' # show_nat (nat (- i)) else show_nat (nat i))"

lemma of_digit: "n < 10 \<Longrightarrow> (of_char (char_of (48 + n) :: char) :: nat) = 48 + n"
  by (simp add: of_char_of)

lemma is_digit_char: "n < 10 \<Longrightarrow> is_digit (char_of (48 + n :: nat))"
  by (simp add: is_digit_def of_digit)

lemma digits_value_snoc: "digits_value (ds @ [ch]) = 10 * digits_value ds + (of_char ch - 48)"
  by (simp add: digits_value_def)

lemma show_nat_digits: "list_all is_digit (show_nat n) \<and> digits_value (show_nat n) = n \<and> show_nat n \<noteq> []"
proof (induction n rule: show_nat.induct)
  case (1 n)
  show ?case
  proof (cases "n < 10")
    case True
    then show ?thesis
      by (subst (1 2 3) show_nat.simps) (simp add: is_digit_char digits_value_def of_digit)
  next
    case False
    have n: "show_nat n = show_nat (n div 10) @ [char_of (48 + n mod 10)]"
      using False by (subst show_nat.simps) simp
    have "n mod 10 < 10" by simp
    with 1 [OF False] show ?thesis
      by (simp only: n) (simp add: is_digit_char digits_value_snoc of_digit)
  qed
qed

lemma digit_no_control: "is_digit ch \<Longrightarrow> \<not> is_space ch \<and> ch \<noteq> CHR ''-'' \<and> ch \<noteq> CHR ''+''"
  by (auto simp: is_digit_def is_space_def)

section \<open>std::stoi\<close>

text \<open>
  White space, an optional sign and digits are read and the rest of the string is ignored;
  the two exceptions are values.
\<close>

datatype std_error = InvalidArgument | OutOfRange

definition stoi :: "string \<Rightarrow> std_error + int" where
  "stoi s =
     (let r = dropWhile is_space s;
          neg = (r \<noteq> [] \<and> hd r = CHR ''-'');
          r = (if r \<noteq> [] \<and> (hd r = CHR ''-'' \<or> hd r = CHR ''+'') then tl r else r);
          ds = takeWhile is_digit r;
          v = (if neg then - int (digits_value ds) else int (digits_value ds))
      in if ds = [] then Inl InvalidArgument
         else if int_max < v \<or> v < - int_max - 1 then Inl OutOfRange
         else Inr v)"

lemma takeWhile_digits:
  "list_all is_digit ds \<Longrightarrow> r = [] \<or> \<not> is_digit (hd r) \<Longrightarrow> takeWhile is_digit (ds @ r) = ds"
  by (induction ds) (cases r, auto)

text \<open>Where no digit follows the white space and the sign, there is no number.\<close>

definition no_number :: "string \<Rightarrow> bool" where
  "no_number s \<longleftrightarrow> (\<exists>ws sign rest. s = ws @ sign @ rest \<and> list_all is_space ws \<and> sign \<in> {[], ''+'', ''-''} \<and>
     (rest = [] \<or> \<not> is_digit (hd rest) \<and> (sign = [] \<longrightarrow> \<not> is_space (hd rest) \<and> hd rest \<notin> {CHR ''+'', CHR ''-''})))"

lemma stoi_no_number:
  assumes "no_number s"
  shows "stoi s = Inl InvalidArgument"
proof -
  obtain ws sign rest where s: "s = ws @ sign @ rest" "list_all is_space ws" "sign \<in> {[], ''+'', ''-''}"
    "rest = [] \<or> \<not> is_digit (hd rest) \<and> (sign = [] \<longrightarrow> \<not> is_space (hd rest) \<and> hd rest \<notin> {CHR ''+'', CHR ''-''})"
    using assms by (auto simp: no_number_def)
  have "dropWhile is_space (ws @ r) = dropWhile is_space r" for r
    using s(2) by (intro dropWhile_append2) (simp add: list_all_iff)
  moreover have "dropWhile is_space (sign @ rest) = sign @ rest"
    using s(3,4) by (cases rest) (auto simp: is_space_def)
  moreover have "takeWhile is_digit rest = []"
    using s(4) by (cases rest) auto
  moreover have "rest \<noteq> [] \<Longrightarrow> sign = [] \<Longrightarrow> hd rest \<noteq> CHR ''-'' \<and> hd rest \<noteq> CHR ''+''"
    using s(4) by auto
  ultimately show ?thesis
    using s(1,3) by (auto simp: stoi_def Let_def)
qed

lemma stoi_shown:
  assumes "r = [] \<or> \<not> is_digit (hd r)"
  shows "stoi (show_int i @ r) = (if int_max < i \<or> i < - int_max - 1 then Inl OutOfRange else Inr i)"
proof (cases "i < 0")
  case True
  define ds where "ds = show_nat (nat (- i))"
  have ds: "list_all is_digit ds" "ds \<noteq> []" "int (digits_value ds) = - i"
    using show_nat_digits [of "nat (- i)"] True by (simp_all add: ds_def)
  have "dropWhile is_space (CHR ''-'' # ds @ r) = CHR ''-'' # ds @ r"
    by (simp add: is_space_def)
  then show ?thesis
    using True takeWhile_digits [OF ds(1) assms] ds(2,3) by (simp add: stoi_def show_int_def ds_def [symmetric] Let_def)
next
  case False
  define ds where "ds = show_nat (nat i)"
  have ds: "list_all is_digit ds" "ds \<noteq> []" "int (digits_value ds) = i"
    using show_nat_digits [of "nat i"] False by (simp_all add: ds_def)
  then obtain d ds' where d: "ds = d # ds'" "is_digit d"
    by (cases ds) auto
  show ?thesis
    using False takeWhile_digits [OF ds(1) assms] ds(2,3) digit_no_control [OF d(2)]
    by (simp add: stoi_def show_int_def ds_def [symmetric] Let_def) (simp add: d(1))
qed

end
