(* ===== verification/Programs.thy ===== *)
theory Programs
  imports App Server_App Decimal
begin

text \<open>
  The two \<^verbatim>\<open>main\<close> functions: \<^verbatim>\<open>server/server_app.cpp\<close> takes the address to listen on from the
  command line, \<^verbatim>\<open>client/app.cpp\<close> has it built in. An exception nobody catches ends the
  program before it does anything, so a start is the exception or the running program.
  \<open>inet\<close> is the system's \<^verbatim>\<open>inet_addr\<close>, whose failure value is not checked.
\<close>

section \<open>The server\<close>

text \<open>\<open>argv\<close> ends with a null pointer, from which no string can be built.\<close>

datatype startup_error = NullArgument | StoiError std_error

record ServerAddress =
  sin_addr :: u32
  sin_port :: "16 word"

text \<open>The class keeps the port as an \<^verbatim>\<open>int\<close>, the constructor of the socket takes a \<^verbatim>\<open>uint16_t\<close>.\<close>

record ServerApp =
  listen_ip :: string
  listen_port :: int

definition ServerApp_new :: "string \<Rightarrow> int \<Rightarrow> ServerApp" where
  [simp]: "ServerApp_new ip port = \<lparr>listen_ip = ip, listen_port = port\<rparr>"

definition server_address :: "(string \<Rightarrow> u32) \<Rightarrow> ServerApp \<Rightarrow> ServerAddress" where
  "server_address inet app = \<lparr>sin_addr = inet (listen_ip app), sin_port = word_of_int (listen_port app)\<rparr>"

text \<open>\<^verbatim>\<open>htons\<close>: the bytes of a port as they lie in the socket address.\<close>

definition htons :: "16 word \<Rightarrow> bytes" where
  "htons p = [ucast (drop_bit 8 p), ucast p]"

definition ServerApp_main ::
    "(string \<Rightarrow> u32) \<Rightarrow> string list \<Rightarrow> setup_results \<Rightarrow> accept_ev list \<Rightarrow>
     startup_error + ServerAddress \<times> (ServerSocket \<times> int list) option" where
  "ServerApp_main inet argv r evs =
     (if length argv \<le> 2 then Inl NullArgument
      else (case stoi (argv ! 2) of
              Inl e \<Rightarrow> Inl (StoiError e)
            | Inr port \<Rightarrow>
                let my_server = ServerApp_new (argv ! 1) port
                in Inr (server_address inet my_server, ServerApp_run r evs)))"

section \<open>The client\<close>

definition App_main ::
    "(Packet \<Rightarrow> bytes) \<Rightarrow> (bytes \<Rightarrow> Packet) \<Rightarrow>
     ((string \<times> user_id_t) list \<Rightarrow> (string \<times> user_id_t) list) \<Rightarrow> int list \<Rightarrow> Net \<Rightarrow> Net list list \<Rightarrow>
     std_error + string \<times> 16 word \<times> (App \<times> int list) result option" where
  "App_main ser parse iter keys net ns =
     (let str_ip = ''127.0.0.1'';
          str_port = ''8080''
      in case stoi str_port of
           Inl e \<Rightarrow> Inl e
         | Inr port \<Rightarrow> Inr (str_ip, word_of_int port, App_run ser parse iter keys net ns))"

lemma App_main_connects:
  "App_main ser parse iter keys net ns = Inr (''127.0.0.1'', 8080, App_run ser parse iter keys net ns)"
proof -
  have "stoi ''8080'' = Inr 8080" by code_simp
  then show ?thesis by (simp add: App_main_def)
qed

section \<open>Properties\<close>

lemma unat_port: "int (unat (word_of_int n :: 16 word)) = n mod 2 ^ 16"
  by (simp add: unsigned_of_int take_bit_eq_mod)

lemma htons_value: "256 * unat (htons p ! 0) + unat (htons p ! 1) = unat p"
proof -
  have "unat p < 2 ^ 16"
    using unsigned_less [of p] by simp
  then have "unat p div 256 < 256" by simp
  then show ?thesis
    by (simp add: htons_def drop_bit_eq_div take_bit_eq_mod unsigned_ucast_eq unat_div)
qed

text \<open>
  C39. The port the server listens on: a number given as the second argument is taken when
  it is an \<^verbatim>\<open>int\<close>, whatever follows its digits, and cut down to 16 bits without a report, so
  that a port between 0 and 65535 is used as it is, in network byte order, and any other
  number is another port. A number out of the range of \<^verbatim>\<open>int\<close>, text in which no digit follows
  the white space and an optional sign, and a missing argument end the program before it
  listens.
\<close>

theorem server_port:
  assumes "r = [] \<or> \<not> is_digit (hd r)"
  shows "(\<forall>addr running. ServerApp_main inet [prog, ip, show_int n @ r] calls evs = Inr (addr, running) \<longrightarrow>
      int (unat (sin_port addr)) = n mod 2 ^ 16
      \<and> 256 * unat (htons (sin_port addr) ! 0) + unat (htons (sin_port addr) ! 1) = nat (n mod 2 ^ 16)
      \<and> sin_addr addr = inet ip \<and> running = ServerApp_run calls evs)
    \<and> (- int_max - 1 \<le> n \<and> n \<le> int_max \<longrightarrow> (\<exists>x. ServerApp_main inet [prog, ip, show_int n @ r] calls evs = Inr x))
    \<and> (n < - int_max - 1 \<or> int_max < n \<longrightarrow>
        ServerApp_main inet [prog, ip, show_int n @ r] calls evs = Inl (StoiError OutOfRange))
    \<and> (\<forall>txt. no_number txt \<longrightarrow> ServerApp_main inet [prog, ip, txt] calls evs = Inl (StoiError InvalidArgument))
    \<and> ServerApp_main inet [prog, ip] calls evs = Inl NullArgument"
proof -
  let ?addr = "\<lparr>sin_addr = inet ip, sin_port = word_of_int n\<rparr>"
  have main: "ServerApp_main inet [prog, ip, show_int n @ r] calls evs
      = (if int_max < n \<or> n < - int_max - 1 then Inl (StoiError OutOfRange) else Inr (?addr, ServerApp_run calls evs))"
    by (simp add: ServerApp_main_def stoi_shown [OF assms] server_address_def)
  have port: "int (unat (sin_port ?addr)) = n mod 2 ^ 16"
    using unat_port [of n] by simp
  then have "256 * unat (htons (sin_port ?addr) ! 0) + unat (htons (sin_port ?addr) ! 1) = nat (n mod 2 ^ 16)"
    unfolding htons_value by (metis nat_int)
  with port show ?thesis
    by (simp add: main) (simp add: ServerApp_main_def stoi_no_number)
qed

theorem server_port_witness:
  "\<exists>x. ServerApp_main (\<lambda>_. 0) [''b'', ''127.0.0.1'', show_int 73616 @ ''x'']
      \<lparr>r_socket = 3, r_setsockopt = 0, r_getfl = 0, r_setfl = 0, r_bind = 0, r_listen = 0\<rparr> [Accepted 4] = Inr x
    \<and> unat (sin_port (fst x)) = 8080
    \<and> ServerApp_main (\<lambda>_. 0) [''b'', ''127.0.0.1'', '' -x80'']
      \<lparr>r_socket = 3, r_setsockopt = 0, r_getfl = 0, r_setfl = 0, r_bind = 0, r_listen = 0\<rparr> [Accepted 4]
      = Inl (StoiError InvalidArgument)"
proof -
  let ?calls = "\<lparr>r_socket = 3, r_setsockopt = 0, r_getfl = 0, r_setfl = 0, r_bind = 0, r_listen = 0\<rparr>"
  have "\<not> is_digit (hd ''x'')" by (simp add: is_digit_def)
  then have r: "''x'' = [] \<or> \<not> is_digit (hd ''x'')" by simp
  note port = server_port [OF r, of "\<lambda>_. 0" "''b''" "''127.0.0.1''" 73616 ?calls "[Accepted 4]"]
  have "- int_max - 1 \<le> 73616 \<and> 73616 \<le> int_max" by (simp add: int_max_def)
  with port obtain addr running where x:
    "ServerApp_main (\<lambda>_. 0) [''b'', ''127.0.0.1'', show_int 73616 @ ''x''] ?calls [Accepted 4] = Inr (addr, running)"
    by (metis surj_pair)
  with port have "int (unat (sin_port addr)) = 73616 mod 2 ^ 16" by blast
  moreover have "(73616 :: int) mod 2 ^ 16 = int 8080" by simp
  ultimately have "int (unat (sin_port addr)) = int 8080" by (rule trans)
  then have "unat (sin_port addr) = 8080" by (rule of_nat_eq_iff [THEN iffD1])
  moreover have "no_number '' -x80''"
    unfolding no_number_def
    by (rule exI [of _ "'' ''"], rule exI [of _ "''-''"], rule exI [of _ "''x80''"]) (simp add: is_space_def is_digit_def)
  ultimately show ?thesis
    using x port by (intro exI [of _ "(addr, running)"]) simp
qed

end
