(* ===== verification/Users_Race.thy ===== *)
theory Users_Race
  imports Server_App Register_Race
begin

text \<open>
  A list of users that is built while other clients register. \<^verbatim>\<open>handleRequestUsers\<close>
  runs in a detached thread and iterates over the map of the database without a lock;
  the threads of \<^verbatim>\<open>handleRequestRegister\<close> insert into the same map. One iteration of the
  loop and one statement of \<^verbatim>\<open>registerUser\<close> are the atomic steps, coarser than the
  machine's. The list \<open>user_map\<close> is kept in the order of iteration here. An insertion puts
  the new entry anywhere and leaves iterators valid while the number of entries stays
  within the load factor times the number of buckets, \<open>limit\<close>; beyond, the table is
  rehashed: the order and the limit change and iterators become invalid.
\<close>

section \<open>The loop and the registrations\<close>

text \<open>
  An iterator is the key of the entry it points to, \<open>None\<close> at the end. \<open>Users_at it valid r\<close>
  is the thread at the head of the loop with the response built so far.
\<close>

datatype users_pc =
    Users_called
  | Users_at "user_id_t option" bool RespUsers
  | Users_answered RespUsers
  | Users_fault fault

type_synonym users_race_state = "Database \<times> nat \<times> reg_pc list \<times> users_pc"

definition first_key :: "(user_id_t \<times> UserMetadata) list \<Rightarrow> user_id_t option" where
  "first_key es = (case es of [] \<Rightarrow> None | e # _ \<Rightarrow> Some (fst e))"

definition key_after :: "(user_id_t \<times> UserMetadata) list \<Rightarrow> user_id_t \<Rightarrow> user_id_t option" where
  "key_after es k = first_key (tl (dropWhile (\<lambda>e. fst e \<noteq> k) es))"

definition insert_user :: "nat \<Rightarrow> string \<Rightarrow> Database \<Rightarrow> Database" where
  "insert_user n name db = db\<lparr>user_map := take n (user_map db)
     @ (next_id db, \<lparr>username = name, msg_q = []\<rparr>) # drop n (user_map db)\<rparr>"

fun invalidate :: "users_pc \<Rightarrow> users_pc" where
  "invalidate (Users_at it valid r) = Users_at it False r"
| "invalidate w = w"

definition resp_with :: "u32 \<Rightarrow> RespUsers" where
  "resp_with v = \<lparr>users_resp_value = Some v, users_online_users = []\<rparr>"

text \<open>The steps, \<open>i\<close> the requestor.\<close>

inductive users_step :: "user_id_t \<Rightarrow> users_race_state \<Rightarrow> users_race_state \<Rightarrow> bool" for i where
  refuse: "\<not> userExists db i \<Longrightarrow>
     users_step i (db, limit, pcs, Users_called) (db, limit, pcs, Users_answered (resp_with 1))"
| accept: "userExists db i \<Longrightarrow>
     users_step i (db, limit, pcs, Users_called)
       (db, limit, pcs, Users_at (first_key (user_map db)) True (resp_with 0))"
| body: "map_of (user_map db) k = Some u \<Longrightarrow>
     users_step i (db, limit, pcs, Users_at (Some k) True r)
       (db, limit, pcs, Users_at (key_after (user_map db) k) True (add_online_users i [(k, u)] r))"
| finish: "users_step i (db, limit, pcs, Users_at None True r) (db, limit, pcs, Users_answered r)"
| dangling: "users_step i (db, limit, pcs, Users_at it False r) (db, limit, pcs, Users_fault OutOfBounds)"
| overwrite: "t < length pcs \<Longrightarrow> pcs ! t = Entered name \<Longrightarrow> userExists db (next_id db) \<Longrightarrow>
     users_step i (db, limit, pcs, w) (reg_store name db, limit, pcs[t := Stored name], w)"
| insert: "t < length pcs \<Longrightarrow> pcs ! t = Entered name \<Longrightarrow> \<not> userExists db (next_id db) \<Longrightarrow>
     length (user_map db) < limit \<Longrightarrow> n \<le> length (user_map db) \<Longrightarrow>
     users_step i (db, limit, pcs, w) (insert_user n name db, limit, pcs[t := Stored name], w)"
| rehash: "t < length pcs \<Longrightarrow> pcs ! t = Entered name \<Longrightarrow> \<not> userExists db (next_id db) \<Longrightarrow>
     limit \<le> length (user_map db) \<Longrightarrow> length (user_map db) < limit' \<Longrightarrow>
     mset es = mset (user_map (insert_user 0 name db)) \<Longrightarrow>
     users_step i (db, limit, pcs, w) (db\<lparr>user_map := es\<rparr>, limit', pcs[t := Stored name], invalidate w)"
| ret: "t < length pcs \<Longrightarrow> pcs ! t = Stored name \<Longrightarrow> reg_return db = (db', j) \<Longrightarrow>
     users_step i (db, limit, pcs, w) (db', limit, pcs[t := Returned name j], w)"

text \<open>\<open>limit\<close> holds for the table the request finds; \<open>names\<close> are being registered.\<close>

inductive users_reachable ::
    "user_id_t \<Rightarrow> Database \<Rightarrow> nat \<Rightarrow> string list \<Rightarrow> users_race_state \<Rightarrow> bool" for i db0 limit0 names where
  start: "users_reachable i db0 limit0 names (db0, limit0, map Entered names, Users_called)"
| step: "users_reachable i db0 limit0 names st \<Longrightarrow> users_step i st st' \<Longrightarrow>
     users_reachable i db0 limit0 names st'"

section \<open>Undisturbed\<close>

lemma first_key_simps [simp]: "first_key [] = None" "first_key (e # es) = Some (fst e)"
  by (simp_all add: first_key_def)

lemma first_key_None [simp]: "None = first_key es \<longleftrightarrow> es = []" "first_key es = None \<longleftrightarrow> es = []"
  by (cases es; simp)+

lemma key_after_split: "k \<notin> fst ` set pre \<Longrightarrow> key_after (pre @ (k, u) # post) k = first_key post"
proof -
  assume "k \<notin> fst ` set pre"
  then have "dropWhile (\<lambda>e. fst e \<noteq> k) (pre @ (k, u) # post) = (k, u) # post"
    by (subst dropWhile_append2) auto
  then show ?thesis by (simp add: key_after_def)
qed

text \<open>With no registration in between the steps are the loop of \<open>handleRequestUsers\<close>.\<close>

lemma users_undisturbed:
  assumes "distinct (map fst (user_map db))" "user_map db = pre @ post"
  shows "(users_step i)\<^sup>*\<^sup>* (db, limit, pcs, Users_at (first_key post) True r)
    (db, limit, pcs, Users_answered (add_online_users i post r))"
  using assms(2)
proof (induction post arbitrary: pre r)
  case Nil
  then show ?case by (auto intro: users_step.finish)
next
  case (Cons e post)
  obtain k u where e: "e = (k, u)" by (cases e)
  have k: "k \<notin> fst ` set pre"
    using assms(1) Cons.prems by (auto simp: e)
  have u: "map_of (user_map db) k = Some u"
    using assms(1) Cons.prems by (intro map_of_is_SomeI) (simp_all add: e)
  have "users_step i (db, limit, pcs, Users_at (Some k) True r)
      (db, limit, pcs, Users_at (first_key post) True (add_online_users i [(k, u)] r))"
    using users_step.body [OF u, of i limit pcs r] k Cons.prems by (simp add: e key_after_split)
  moreover have "(users_step i)\<^sup>*\<^sup>* (db, limit, pcs, Users_at (first_key post) True (add_online_users i [(k, u)] r))
      (db, limit, pcs, Users_answered (add_online_users i post (add_online_users i [(k, u)] r)))"
    using Cons.IH [of "pre @ [e]"] Cons.prems by simp
  moreover have "add_online_users i post (add_online_users i [(k, u)] r) = add_online_users i (e # post) r"
    by (cases "k = i") (simp_all add: e)
  ultimately show ?case
    unfolding e first_key_simps fst_conv by (metis converse_rtranclp_into_rtranclp)
qed

section \<open>What registrations leave in place\<close>

text \<open>Threads that have not stored yet.\<close>

fun entered :: "reg_pc list \<Rightarrow> nat" where
  "entered [] = 0"
| "entered (Entered name # pcs) = Suc (entered pcs)"
| "entered (pc # pcs) = entered pcs"

lemma entered_map [simp]: "entered (map Entered names) = length names"
  by (induction names) simp_all

lemma entered_store:
  "t < length pcs \<Longrightarrow> pcs ! t = Entered name \<Longrightarrow> entered pcs = Suc (entered (pcs[t := Stored name']))"
proof (induction pcs arbitrary: t)
  case (Cons pc pcs)
  then show ?case by (cases t; cases pc) simp_all
qed simp

lemma entered_ret:
  "t < length pcs \<Longrightarrow> pcs ! t = Stored name \<Longrightarrow> entered (pcs[t := Returned name' j]) = entered pcs"
proof (induction pcs arbitrary: t)
  case (Cons pc pcs)
  then show ?case by (cases t; cases pc) simp_all
qed simp

lemma update_known:
  "distinct (map fst es) \<Longrightarrow> k \<in> fst ` set es \<Longrightarrow>
     AList.update k v es = map (\<lambda>e. if fst e = k then (k, v) else e) es"
proof (induction es)
  case (Cons e es)
  show ?case
  proof (cases "fst e = k")
    case True
    with Cons.prems have "map (\<lambda>e. if fst e = k then (k, v) else e) es = es"
      by (intro map_idI) (metis distinct.simps(2) image_eqI list.set_map list.simps(9))
    with True show ?thesis by (cases e) simp
  next
    case False
    with Cons show ?thesis by (cases e) auto
  qed
qed simp

text \<open>
  The database while the threads run, relative to the one they started from: the users of
  then are unchanged, and there is room in the table and in the counter for the others.
\<close>

definition grown :: "Database \<Rightarrow> nat \<Rightarrow> Database \<Rightarrow> reg_pc list \<Rightarrow> bool" where
  "grown db0 n db pcs \<longleftrightarrow>
     distinct (map fst (user_map db))
     \<and> user_ids db0 \<subseteq> user_ids db
     \<and> (\<forall>k\<in>user_ids db0. map_of (user_map db) k = map_of (user_map db0) k)
     \<and> length (user_map db) + entered pcs \<le> length (user_map db0) + n
     \<and> length pcs = n
     \<and> unat (next_id db) = unat (next_id db0) + length (returned_ids pcs)"

text \<open>Ids are still unused, and used ones lie below the counter.\<close>

definition ids_left :: "Database \<Rightarrow> nat \<Rightarrow> bool" where
  "ids_left db n \<longleftrightarrow> db_inv db \<and> length (user_map db) + n < 2 ^ 32"

lemma ids_below_card: "card {k. k < a} = unat (a :: user_id_t)"
proof -
  have "unat ` {k. k < a} = {..<unat a}"
  proof (intro set_eqI iffI)
    fix x
    assume "x \<in> {..<unat a}"
    moreover have "unat a < 2 ^ LENGTH(32)"
      by (rule unsigned_less)
    ultimately have "x < unat a" "x < 2 ^ 32"
      by simp_all
    then have "unat (word_of_nat x :: user_id_t) = x" "word_of_nat x < a"
      by (simp_all add: word_less_nat_alt unsigned_of_nat take_bit_nat_eq_self)
    then show "x \<in> unat ` {k. k < a}"
      by (metis image_eqI mem_Collect_eq)
  qed (auto simp: word_less_nat_alt)
  moreover have "inj_on unat {k. k < a}"
    by (rule inj_onI) (simp add: word_unat_eq_iff)
  ultimately show ?thesis
    by (metis card_image card_lessThan)
qed

lemma ids_left_below:
  assumes "ids_left db n"
  shows "user_ids db = {k. k < next_id db}" "unat (next_id db) + n < 2 ^ 32"
proof -
  have inv: "distinct (map fst (user_map db))" "user_ids db = {k. k < next_id db} \<or> user_ids db = UNIV"
    using assms by (simp_all add: ids_left_def db_inv_def)
  have len: "length (user_map db) = card (user_ids db)"
    using inv(1) by (simp add: length_user_map)
  have "user_ids db \<noteq> UNIV"
    using assms len by (auto simp: ids_left_def card_word)
  with inv show ids: "user_ids db = {k. k < next_id db}" by simp
  with ids_below_card [of "next_id db"] len assms show "unat (next_id db) + n < 2 ^ 32"
    by (simp add: ids_left_def)
qed

lemma next_id_fresh:
  assumes "ids_left db0 n" "grown db0 n db pcs"
  shows "next_id db \<notin> user_ids db0"
proof -
  have "unat (next_id db0) \<le> unat (next_id db)"
    using assms(2) by (simp add: grown_def)
  then show ?thesis
    using ids_left_below(1) [OF assms(1)] by (simp add: word_less_nat_alt)
qed

lemma grown_start: "ids_left db (length names) \<Longrightarrow> grown db (length names) db (map Entered names)"
  by (simp add: grown_def ids_left_def db_inv_def returned_ids_def comp_def)

text \<open>A registration puts its entry into the map, new or in place of one that is not a user of before.\<close>

lemma grown_store:
  assumes "ids_left db0 n" "grown db0 n db pcs" "t < length pcs" "pcs ! t = Entered name"
    and "distinct (map fst es)" "fst ` set es = insert (next_id db) (user_ids db)"
    and "\<And>k. k \<noteq> next_id db \<Longrightarrow> map_of es k = map_of (user_map db) k"
  shows "grown db0 n (db\<lparr>user_map := es\<rparr>) (pcs[t := Stored name])"
proof -
  have g: "distinct (map fst (user_map db))" "user_ids db0 \<subseteq> user_ids db"
      "\<forall>k\<in>user_ids db0. map_of (user_map db) k = map_of (user_map db0) k"
      "length (user_map db) + entered pcs \<le> length (user_map db0) + n" "length pcs = n"
      "unat (next_id db) = unat (next_id db0) + length (returned_ids pcs)"
    using assms(2) by (simp_all add: grown_def)
  have "length es = card (insert (next_id db) (user_ids db))"
    using assms(5,6) by (metis distinct_card length_map list.set_map)
  also have "\<dots> \<le> Suc (card (user_ids db))"
    by (rule card_insert_le_m1) simp_all
  also have "\<dots> = Suc (length (user_map db))"
    using g(1) by (simp add: length_user_map)
  finally have "length es + entered (pcs[t := Stored name]) \<le> length (user_map db0) + n"
    using g(4) entered_store [OF assms(3,4), of name] by simp
  moreover have "length (returned_ids (pcs[t := Stored name])) = length (returned_ids pcs)"
    using arg_cong [OF returned_ids_update [of t pcs "Stored name"], of size] assms(3,4) by simp
  moreover have "map_of es k = map_of (user_map db0) k" if "k \<in> user_ids db0" for k
    using that g(3) assms(7) [of k] next_id_fresh [OF assms(1,2)] by metis
  ultimately show ?thesis
    using g assms(5,6) by (auto simp: grown_def user_ids_def)
qed

lemma grown_ret:
  assumes "ids_left db0 n" "grown db0 n db pcs" "t < length pcs" "pcs ! t = Stored name"
    and "reg_return db = (db', j)"
  shows "grown db0 n db' (pcs[t := Returned name j])"
proof -
  let ?pcs = "pcs[t := Returned name j]"
  have len: "length (returned_ids ?pcs) = Suc (length (returned_ids pcs))"
    using arg_cong [OF returned_ids_update [of t pcs "Returned name j"], of size] assms(3,4) by simp
  moreover have "length (returned_ids ?pcs) \<le> n"
    using length_returned_ids [of ?pcs] assms(2) by (simp add: grown_def)
  ultimately have "unat (next_id db) + 1 < 2 ^ 32"
    using assms(2) ids_left_below(2) [OF assms(1)] by (simp add: grown_def)
  then have "unat (next_id db + 1) = Suc (unat (next_id db))"
    by (simp add: unat_word_ariths)
  moreover have "user_ids db' = user_ids db" "user_map db' = user_map db" "next_id db' = next_id db + 1"
    using assms(5) by (auto simp: reg_return_def user_ids_def)
  ultimately show ?thesis
    using assms(2) len entered_ret [OF assms(3,4), of name j] by (simp add: grown_def)
qed

section \<open>What the loop has listed\<close>

definition listed_ids :: "RespUsers \<Rightarrow> user_id_t option list" where
  "listed_ids r = map ou_user_id (users_online_users r)"

text \<open>
  The response lists users among \<open>ks\<close>, each once and never the requestor, and of the users of
  before all those among \<open>ks\<close>, with their names.
\<close>

definition lists :: "user_id_t \<Rightarrow> Database \<Rightarrow> user_id_t set \<Rightarrow> RespUsers \<Rightarrow> bool" where
  "lists i db0 ks r \<longleftrightarrow> users_resp_value r = Some 0
     \<and> distinct (listed_ids r) \<and> set (listed_ids r) \<subseteq> Some ` (ks - {i})
     \<and> (\<forall>e\<in>set (user_map db0). fst e \<in> ks - {i} \<longrightarrow> online_user e \<in> set (users_online_users r))"

lemma lists_ids:
  "lists i db0 ks r \<Longrightarrow> ou \<in> set (users_online_users r) \<Longrightarrow> \<exists>k. ou_user_id ou = Some k \<and> k \<noteq> i \<and> k \<in> ks"
  by (auto simp: lists_def listed_ids_def)

lemma lists_all:
  "lists i db0 ks r \<Longrightarrow> user_ids db0 \<subseteq> ks \<Longrightarrow>
     online_user ` {e \<in> set (user_map db0). fst e \<noteq> i} \<subseteq> set (users_online_users r)"
  by (fastforce simp: lists_def user_ids_def)

lemma lists_start: "lists i db0 {} (resp_with 0)"
  by (simp add: lists_def listed_ids_def resp_with_def)

lemma lists_more: "lists i db0 ks r \<Longrightarrow> k \<notin> user_ids db0 \<Longrightarrow> lists i db0 (insert k ks) r"
  by (auto simp: lists_def user_ids_def)

lemma lists_body:
  assumes "lists i db0 ks r" "k \<notin> ks" "distinct (map fst (user_map db0))"
    and "k \<in> user_ids db0 \<Longrightarrow> map_of (user_map db0) k = Some u"
  shows "lists i db0 (insert k ks) (add_online_users i [(k, u)] r)"
proof (cases "k = i")
  case True
  with assms(1) show ?thesis by (simp add: lists_def)
next
  case False
  have "e = (k, u)" if "e \<in> set (user_map db0)" "fst e = k" for e
  proof -
    have "map_of (user_map db0) (fst e) = Some (snd e)"
      using that(1) assms(3) by (cases e) (auto intro: map_of_is_SomeI)
    moreover have "k \<in> user_ids db0"
      using that by (auto simp: user_ids_def)
    ultimately show ?thesis
      using assms(4) that by (cases e) simp
  qed
  with False assms(1,2) show ?thesis
    by (fastforce simp: lists_def listed_ids_def add_online_users_eq online_user_def)
qed

definition loop_inv :: "user_id_t \<Rightarrow> Database \<Rightarrow> Database \<Rightarrow> users_pc \<Rightarrow> bool" where
  "loop_inv i db0 db w = (case w of
       Users_called \<Rightarrow> True
     | Users_at it valid r \<Rightarrow> valid \<and> (\<exists>pre post. user_map db = pre @ post \<and> it = first_key post
         \<and> lists i db0 (fst ` set pre) r)
     | Users_answered r \<Rightarrow> lists i db0 (user_ids db) r
     | Users_fault e \<Rightarrow> False)"

lemma loop_inv_at:
  "loop_inv i db0 db (Users_at it valid r) \<longleftrightarrow> valid \<and> (\<exists>pre post. user_map db = pre @ post
     \<and> it = first_key post \<and> lists i db0 (fst ` set pre) r)"
  by (simp add: loop_inv_def)

lemma loop_inv_body:
  assumes "loop_inv i db0 db (Users_at (Some k) True r)" "map_of (user_map db) k = Some u"
    and "grown db0 n db pcs" "distinct (map fst (user_map db0))"
  shows "loop_inv i db0 db (Users_at (key_after (user_map db) k) True (add_online_users i [(k, u)] r))"
proof -
  obtain pre post where "user_map db = pre @ post" "Some k = first_key post"
      and l: "lists i db0 (fst ` set pre) r"
    using assms(1) by (auto simp: loop_inv_at)
  then obtain u' post' where es: "user_map db = pre @ (k, u') # post'"
    by (cases post) auto
  have d: "distinct (map fst (user_map db))"
    using assms(3) by (simp add: grown_def)
  then have k: "k \<notin> fst ` set pre"
    by (auto simp: es)
  have "map_of (user_map db) k = Some u'"
    using d by (intro map_of_is_SomeI) (simp_all add: es)
  with assms(2) have u: "u' = u" by simp
  have "lists i db0 (insert k (fst ` set pre)) (add_online_users i [(k, u)] r)"
  proof (rule lists_body [OF l k assms(4)])
    assume "k \<in> user_ids db0"
    with assms(2,3) show "map_of (user_map db0) k = Some u"
      by (auto simp: grown_def)
  qed
  moreover have "user_map db = (pre @ [(k, u)]) @ post'"
    by (simp add: es u)
  ultimately show ?thesis
    using key_after_split [OF k, of u' post'] unfolding loop_inv_at es
    by (intro conjI exI [of _ "pre @ [(k, u)]"] exI [of _ post']) (simp_all add: u)
qed

text \<open>
  A registration in the middle of the loop: the entries before and after the iterator stay
  on their side of it.
\<close>

lemma loop_inv_overwrite:
  assumes "ids_left db0 n" "grown db0 n db pcs" "userExists db (next_id db)" "loop_inv i db0 db w"
  shows "loop_inv i db0 (reg_store name db) w"
proof -
  let ?f = "\<lambda>e. if fst e = next_id db then (next_id db, \<lparr>username = name, msg_q = []\<rparr>) else e"
  have "user_map (reg_store name db) = map ?f (user_map db)"
    using assms(2,3) by (simp add: reg_store_def update_known grown_def userExists_iff user_ids_def)
  moreover have ids: "fst ` set (map ?f es) = fst ` set es" for es
    by (induction es) simp_all
  moreover have "first_key (map ?f es) = first_key es" for es
    by (cases es) simp_all
  moreover from calculation have "user_ids (reg_store name db) = user_ids db"
    by (simp add: user_ids_def)
  ultimately have map: "user_map (reg_store name db) = map ?f (user_map db)"
    "\<And>es. fst ` set (map ?f es) = fst ` set es" "\<And>es. first_key (map ?f es) = first_key es"
    "user_ids (reg_store name db) = user_ids db"
    by blast+
  show ?thesis
  proof (cases w)
    case (Users_at it valid r)
    then obtain pre post where es: "valid" "user_map db = pre @ post" "it = first_key post"
        and l: "lists i db0 (fst ` set pre) r"
      using assms(4) by (auto simp: loop_inv_at)
    have "user_map (reg_store name db) = map ?f pre @ map ?f post"
      unfolding map(1) es by (rule map_append)
    moreover have "it = first_key (map ?f post)" "lists i db0 (fst ` set (map ?f pre)) r"
      using es(3) l unfolding map by simp_all
    ultimately show ?thesis
      unfolding Users_at loop_inv_at using es(1) by blast
  qed (use assms(4) map(4) in \<open>simp_all add: loop_inv_def\<close>)
qed

lemma set_insert_at: "set (take m es @ x # drop m es) = insert x (set es)"
  by (metis Un_insert_right append_take_drop_id list.simps(15) set_append)

lemma loop_inv_insert:
  assumes "ids_left db0 n" "grown db0 n db pcs" "m \<le> length (user_map db)" "loop_inv i db0 db w"
  shows "loop_inv i db0 (insert_user m name db) w"
proof (cases w)
  case (Users_at it valid r)
  let ?new = "(next_id db, \<lparr>username = name, msg_q = []\<rparr>)"
  obtain pre post where es: "valid" "user_map db = pre @ post" "it = first_key post"
      and l: "lists i db0 (fst ` set pre) r"
    using assms(4) by (auto simp: Users_at loop_inv_at)
  show ?thesis
  proof (cases "m \<le> length pre")
    case True
    then have "user_map (insert_user m name db) = (take m pre @ ?new # drop m pre) @ post"
      by (simp add: insert_user_def es)
    moreover have "fst ` set (take m pre @ ?new # drop m pre) = insert (next_id db) (fst ` set pre)"
      unfolding set_insert_at by simp
    ultimately show ?thesis
      using es lists_more [OF l next_id_fresh [OF assms(1,2)]] unfolding Users_at loop_inv_at by metis
  next
    case False
    then obtain e post' where post: "post = e # post'"
      using assms(3) es by (cases post) auto
    let ?post = "e # take (m - length pre - 1) post' @ ?new # drop (m - length pre - 1) post'"
    have "user_map (insert_user m name db) = pre @ ?post"
      using False by (simp add: insert_user_def es post take_Cons' drop_Cons')
    moreover have "it = first_key ?post"
      by (simp add: es post)
    ultimately show ?thesis
      using es l unfolding Users_at loop_inv_at by blast
  qed
next
  case (Users_answered r)
  have "user_ids (insert_user m name db) = insert (next_id db) (user_ids db)"
    by (simp add: insert_user_def user_ids_def set_insert_at del: set_append)
  with assms(4) show ?thesis
    using lists_more [OF _ next_id_fresh [OF assms(1,2)]] by (simp add: loop_inv_def Users_answered)
qed (use assms(4) in \<open>simp_all add: loop_inv_def\<close>)

section \<open>Every execution\<close>

definition users_race_inv :: "user_id_t \<Rightarrow> Database \<Rightarrow> nat \<Rightarrow> nat \<Rightarrow> users_race_state \<Rightarrow> bool" where
  "users_race_inv i db0 limit0 n st = (case st of (db, limit, pcs, w) \<Rightarrow>
     limit = limit0 \<and> grown db0 n db pcs \<and> loop_inv i db0 db w)"

lemma grown_insert:
  assumes "ids_left db0 n" "grown db0 n db pcs" "t < length pcs" "pcs ! t = Entered name"
    and "\<not> userExists db (next_id db)"
  shows "grown db0 n (insert_user m name db) (pcs[t := Stored name])"
  unfolding insert_user_def
proof (rule grown_store [OF assms(1-4)])
  let ?new = "(next_id db, \<lparr>username = name, msg_q = []\<rparr>)"
  have fresh: "next_id db \<notin> fst ` set (user_map db)" and d: "distinct (map fst (user_map db))"
    using assms(2,5) by (simp_all add: userExists_iff user_ids_def grown_def)
  have "mset (take m (user_map db) @ ?new # drop m (user_map db)) = mset (?new # user_map db)"
    by simp (metis append_take_drop_id mset_append)
  then have "mset (map fst (take m (user_map db) @ ?new # drop m (user_map db))) = mset (map fst (?new # user_map db))"
    by (metis mset_map)
  moreover have "distinct (map fst (?new # user_map db))"
    using fresh d by simp
  ultimately show d': "distinct (map fst (take m (user_map db) @ ?new # drop m (user_map db)))"
    by (metis mset_eq_imp_distinct_iff)
  show "fst ` set (take m (user_map db) @ ?new # drop m (user_map db)) = insert (next_id db) (user_ids db)"
    unfolding set_insert_at by (simp add: user_ids_def)
  show "map_of (take m (user_map db) @ ?new # drop m (user_map db)) k = map_of (user_map db) k"
    if "k \<noteq> next_id db" for k
    using that by (metis append_take_drop_id map_add_upd map_of_append fun_upd_other map_of.simps(2) fst_conv map_add_def)
qed

lemma grown_overwrite:
  assumes "ids_left db0 n" "grown db0 n db pcs" "t < length pcs" "pcs ! t = Entered name"
  shows "grown db0 n (reg_store name db) (pcs[t := Stored name])"
  unfolding reg_store_def
proof (rule grown_store [OF assms])
  show "distinct (map fst (AList.update (next_id db) \<lparr>username = name, msg_q = []\<rparr> (user_map db)))"
    using assms(2) by (simp add: grown_def distinct_update)
  show "fst ` set (AList.update (next_id db) \<lparr>username = name, msg_q = []\<rparr> (user_map db))
      = insert (next_id db) (user_ids db)"
    by (simp add: user_ids_def dom_update)
qed (simp add: update_conv)

lemma users_race_inv_step:
  assumes "users_step i st st'" "users_race_inv i db0 limit0 n st" "ids_left db0 n"
    and "length (user_map db0) + n \<le> limit0" "i \<in> user_ids db0"
  shows "users_race_inv i db0 limit0 n st'"
  using assms(1)
proof cases
  case (refuse db limit pcs)
  then show ?thesis
    using assms(2,5) by (auto simp: users_race_inv_def grown_def userExists_iff)
next
  case (accept db limit pcs)
  then show ?thesis
    using assms(2) lists_start [of i db0] by (auto simp: users_race_inv_def loop_inv_at intro: exI [of _ "[]"])
next
  case (body db k u limit pcs r)
  have "distinct (map fst (user_map db0))"
    using assms(3) by (simp add: ids_left_def db_inv_def)
  then show ?thesis
    using body assms(2) loop_inv_body [of i db0 db k r u n pcs] by (simp add: users_race_inv_def)
next
  case (finish db limit pcs r)
  then show ?thesis
    using assms(2) by (auto simp: users_race_inv_def loop_inv_def user_ids_def)
next
  case (dangling db limit pcs it r)
  then show ?thesis
    using assms(2) by (simp add: users_race_inv_def loop_inv_def)
next
  case (overwrite t pcs name db limit w)
  with assms(2) have "grown db0 n db pcs" "loop_inv i db0 db w" "limit = limit0"
    by (simp_all add: users_race_inv_def)
  with overwrite show ?thesis
    using grown_overwrite [OF assms(3)] loop_inv_overwrite [OF assms(3)] by (simp add: users_race_inv_def)
next
  case (insert t pcs name db limit m w)
  with assms(2) have "grown db0 n db pcs" "loop_inv i db0 db w" "limit = limit0"
    by (simp_all add: users_race_inv_def)
  with insert show ?thesis
    using grown_insert [OF assms(3)] loop_inv_insert [OF assms(3)] by (simp add: users_race_inv_def)
next
  case (rehash t pcs name db limit limit' es w)
  then show ?thesis
    using assms(2,4) entered_store [of t pcs name name] by (simp add: users_race_inv_def grown_def)
next
  case (ret t pcs name db db' j limit w)
  then have "user_map db' = user_map db"
    by (auto simp: reg_return_def)
  then have "loop_inv i db0 db' w = loop_inv i db0 db w"
    by (cases w) (simp_all add: loop_inv_def user_ids_def)
  then show ?thesis
    using ret assms(2) grown_ret [OF assms(3), of db pcs t name db' j] by (simp add: users_race_inv_def)
qed

lemma users_race_inv_reachable:
  assumes "users_reachable i db0 limit0 names st" "ids_left db0 (length names)"
    and "length (user_map db0) + length names \<le> limit0" "i \<in> user_ids db0"
  shows "users_race_inv i db0 limit0 (length names) st"
  using assms(1)
proof (induction rule: users_reachable.induct)
  case start
  then show ?case
    using grown_start [OF assms(2)] by (simp add: users_race_inv_def loop_inv_def)
next
  case (step st st')
  then show ?case using users_race_inv_step assms(2-4) by blast
qed

section \<open>Properties\<close>

text \<open>
  C32. However registrations interleave with the loop of \<open>handleRequestUsers\<close>, as long as the
  table of the map has room for them the loop never touches an invalid iterator, and the
  answer to a registered requestor lists every other user that was registered when the request
  came, with the right name, nobody twice, never the requestor, and only registered users.
\<close>

theorem users_listed_despite_registrations:
  assumes "users_reachable i db limit names (db', limit', pcs, w)" "userExists db i"
    and "ids_left db (length names)" "length (user_map db) + length names \<le> limit"
  shows "case w of
      Users_answered r \<Rightarrow> users_resp_value r = Some 0
        \<and> distinct (map ou_user_id (users_online_users r))
        \<and> (\<forall>ou\<in>set (users_online_users r). \<exists>k. ou_user_id ou = Some k \<and> k \<noteq> i \<and> userExists db' k)
        \<and> online_user ` {e \<in> set (user_map db). fst e \<noteq> i} \<subseteq> set (users_online_users r)
    | Users_fault e \<Rightarrow> False
    | _ \<Rightarrow> True"
proof -
  have "grown db (length names) db' pcs" "loop_inv i db db' w"
    using users_race_inv_reachable [OF assms(1,3,4)] assms(2)
    by (simp_all add: users_race_inv_def userExists_iff)
  then show ?thesis
    using lists_ids [of i db "user_ids db'"] lists_all [of i db "user_ids db'"]
    by (cases w) (simp_all add: loop_inv_def userExists_iff grown_def lists_def listed_ids_def)
qed

definition two_users :: Database where
  "two_users = \<lparr>next_id = 2, user_map =
     [(0, \<lparr>username = ''ann'', msg_q = []\<rparr>), (1, \<lparr>username = ''bob'', msg_q = []\<rparr>)]\<rparr>"

lemma two_users_ids_left: "ids_left two_users 1"
proof -
  have "two_users = fst (registerUser (fst (registerUser Database_init ''ann'')) ''bob'')"
    by (simp add: two_users_def registerUser_def Database_init_def Let_def)
  then have "db_inv two_users"
    by (metis db_inv_register db_inv_init)
  then show ?thesis
    by (simp add: ids_left_def two_users_def)
qed

lemma third_registers:
  "users_reachable 0 two_users 13 [''cy''] (insert_user 2 ''cy'' two_users, 13, [Stored ''cy''],
     Users_answered \<lparr>users_resp_value = Some 0, users_online_users =
       [\<lparr>ou_user_id = Some 1, ou_username = Some ''bob''\<rparr>, \<lparr>ou_user_id = Some 2, ou_username = Some ''cy''\<rparr>]\<rparr>)"
proof -
  let ?ann = "\<lparr>username = ''ann'', msg_q = []\<rparr>"
  let ?bob = "\<lparr>username = ''bob'', msg_q = []\<rparr>"
  let ?cy = "\<lparr>username = ''cy'', msg_q = []\<rparr>"
  let ?three = "insert_user 2 ''cy'' two_users"
  let ?r = "\<lambda>es. \<lparr>users_resp_value = Some 0, users_online_users = map online_user es\<rparr>"
  let ?before = "\<lambda>w. (two_users, 13 :: nat, [Entered ''cy''], w)"
  let ?after = "\<lambda>w. (?three, 13 :: nat, [Stored ''cy''], w)"
  note run = two_users_def insert_user_def key_after_def resp_with_def userExists_def online_user_def
  have s0: "users_reachable 0 two_users 13 [''cy''] (?before Users_called)"
    using users_reachable.start [of 0 two_users 13 "[''cy'']"] by simp
  have s1: "users_step 0 (?before Users_called) (?before (Users_at (Some 0) True (?r [])))"
    using users_step.accept [of two_users 0] by (simp add: run)
  have s2: "users_step 0 (?before (Users_at (Some 0) True (?r []))) (?before (Users_at (Some 1) True (?r [])))"
    using users_step.body [of two_users 0 ?ann 0] by (simp add: run)
  have s3: "users_step 0 (?before (Users_at (Some 1) True (?r []))) (?after (Users_at (Some 1) True (?r [])))"
    using users_step.insert [of 0 "[Entered ''cy'']" "''cy''" two_users 13 2 0] by (simp add: run)
  have s4: "users_step 0 (?after (Users_at (Some 1) True (?r []))) (?after (Users_at (Some 2) True (?r [(1, ?bob)])))"
    using users_step.body [of ?three 1 ?bob 0 13 "[Stored ''cy'']" "?r []"] by (simp add: run)
  have s5: "users_step 0 (?after (Users_at (Some 2) True (?r [(1, ?bob)])))
      (?after (Users_at None True (?r [(1, ?bob), (2, ?cy)])))"
    using users_step.body [of ?three 2 ?cy 0 13 "[Stored ''cy'']" "?r [(1, ?bob)]"] by (simp add: run)
  have s6: "users_step 0 (?after (Users_at None True (?r [(1, ?bob), (2, ?cy)])))
      (?after (Users_answered (?r [(1, ?bob), (2, ?cy)])))"
    by (rule users_step.finish)
  show ?thesis
    using users_reachable.step [OF users_reachable.step [OF users_reachable.step [OF users_reachable.step
      [OF users_reachable.step [OF users_reachable.step [OF s0 s1] s2] s3] s4] s5] s6]
    by (simp add: online_user_def)
qed

theorem users_listed_despite_registrations_witness:
  "online_user ` {e \<in> set (user_map two_users). fst e \<noteq> 0}
     \<subseteq> {\<lparr>ou_user_id = Some 1, ou_username = Some ''bob''\<rparr>, \<lparr>ou_user_id = Some 2, ou_username = Some ''cy''\<rparr>}"
  using users_listed_despite_registrations [OF third_registers] two_users_ids_left
  by (simp add: userExists_def two_users_def)

text \<open>
  When the table is full, one registration in the middle of the loop rehashes it, and the
  loop goes on with an invalid iterator.
\<close>

lemma registration_breaks_users_loop:
  assumes "userExists db i" "\<not> userExists db (next_id db)" "limit \<le> length (user_map db)"
  shows "\<exists>db' limit' pcs. users_reachable i db limit [name] (db', limit', pcs, Users_fault OutOfBounds)"
proof -
  let ?es = "user_map (insert_user 0 name db)"
  let ?pc = "Users_at (first_key (user_map db)) True (resp_with 0)"
  have s0: "users_reachable i db limit [name] (db, limit, [Entered name], Users_called)"
    using users_reachable.start [of i db limit "[name]"] by simp
  have s1: "users_step i (db, limit, [Entered name], Users_called) (db, limit, [Entered name], ?pc)"
    by (rule users_step.accept [OF assms(1)])
  have s2: "users_step i (db, limit, [Entered name], ?pc)
      (db\<lparr>user_map := ?es\<rparr>, Suc (length (user_map db)), [Stored name],
       Users_at (first_key (user_map db)) False (resp_with 0))"
    using users_step.rehash [of 0 "[Entered name]" name db limit _ ?es i ?pc] assms by simp
  show ?thesis
    using users_reachable.step [OF users_reachable.step [OF users_reachable.step [OF s0 s1] s2] users_step.dangling]
    by blast
qed

lemma registration_breaks_users_loop_example:
  "\<exists>db' limit' pcs. users_reachable 0 two_users 2 [''cy''] (db', limit', pcs, Users_fault OutOfBounds)"
  by (rule registration_breaks_users_loop) (simp_all add: userExists_def two_users_def)

end
