(* ===== verification/Names_Race.thy ===== *)
theory Names_Race
  imports App Database
begin

text \<open>
  The threads of the client on its two maps of names. \<^verbatim>\<open>periodicGetOnlineUsers\<close> rebuilds them and
  \<^verbatim>\<open>taskChatWithUser\<close> looks up its target under \<^verbatim>\<open>name_mtx\<close>; \<^verbatim>\<open>periodicGetMessages\<close> looks up
  the sender in \<^verbatim>\<open>id_to_name_\<close> without it. The statements that touch the maps are the
  atomic steps, coarser than what the machine interleaves, so that an execution of this
  model is one the program has. What the threads do between them (waiting for the server,
  reading the keyboard) leaves the maps alone and is not shown.
\<close>

section \<open>State and steps\<close>

datatype names_thread = UsersThread | ChatThread

record Names =
  m_name_to_id :: "(string \<times> user_id_t) list"
  m_id_to_name :: "(user_id_t \<times> string) list"
  name_mtx :: "names_thread option"
  m_printed :: "string list"

text \<open>
  Where a thread stands: the users thread with the map of a new answer before the lock, at
  the comparison, before \<^verbatim>\<open>clear\<close>, in the loop over the entries, and before the unlock; the
  messages thread before \<^verbatim>\<open>find\<close> and before \<^verbatim>\<open>operator[]\<close>; the chat before the lock, before the
  lookup and before the unlock.
\<close>

datatype users_pc =
    UIdle | ULock "(string \<times> user_id_t) list" | UCompare "(string \<times> user_id_t) list" | UClear
  | UFill "(string \<times> user_id_t) list" | UUnlock

datatype msgs_pc = MIdle | MFind UserMessage | MRead UserMessage

datatype chat_pc = CIdle | CLock string | CRead string | CUnlock string user_id_t

type_synonym names_state = "Names \<times> users_pc \<times> msgs_pc \<times> chat_pc"

definition sender_of :: "UserMessage \<Rightarrow> user_id_t" where
  "sender_of um = get_or 0 (um_user_id um)"

text \<open>\<^verbatim>\<open>operator[]\<close> on a map: a missing entry is created with the default value.\<close>

definition map_ref :: "'b \<Rightarrow> 'a \<Rightarrow> ('a \<times> 'b) list \<Rightarrow> ('a \<times> 'b) list \<times> 'b" where
  "map_ref d k m = (case map_of m k of None \<Rightarrow> (m @ [(k, d)], d) | Some v \<Rightarrow> (m, v))"

inductive names_step ::
    "((string \<times> user_id_t) list \<Rightarrow> (string \<times> user_id_t) list) \<Rightarrow> names_state \<Rightarrow> names_state \<Rightarrow> bool"
  for iter where
  u_answer: "names_step iter (s, UIdle, m, c) (s, ULock (names_of_users us), m, c)"
| u_lock: "name_mtx s = None \<Longrightarrow>
     names_step iter (s, ULock new, m, c) (s\<lparr>name_mtx := Some UsersThread\<rparr>, UCompare new, m, c)"
| u_same: "same_map new (m_name_to_id s) \<Longrightarrow> names_step iter (s, UCompare new, m, c) (s, UUnlock, m, c)"
| u_assign: "\<not> same_map new (m_name_to_id s) \<Longrightarrow>
     names_step iter (s, UCompare new, m, c) (s\<lparr>m_name_to_id := new\<rparr>, UClear, m, c)"
| u_clear: "names_step iter (s, UClear, m, c) (s\<lparr>m_id_to_name := []\<rparr>, UFill (iter (m_name_to_id s)), m, c)"
| u_emplace: "names_step iter (s, UFill (e # es), m, c)
     (s\<lparr>m_id_to_name := emplace (snd e) (fst e) (m_id_to_name s)\<rparr>, UFill es, m, c)"
| u_filled: "names_step iter (s, UFill [], m, c) (s, UUnlock, m, c)"
| u_unlock: "names_step iter (s, UUnlock, m, c) (s\<lparr>name_mtx := None\<rparr>, UIdle, m, c)"
| m_arrives: "names_step iter (s, u, MIdle, c) (s, u, MFind um, c)"
| m_unknown: "map_of (m_id_to_name s) (sender_of um) = None \<Longrightarrow>
     names_step iter (s, u, MFind um, c)
       (s\<lparr>m_printed := m_printed s @ [''Unknown sender > '' @ get_or [] (um_message um)]\<rparr>, u, MIdle, c)"
| m_found: "map_of (m_id_to_name s) (sender_of um) \<noteq> None \<Longrightarrow>
     names_step iter (s, u, MFind um, c) (s, u, MRead um, c)"
| m_read: "map_ref [] (sender_of um) (m_id_to_name s) = (itn, name) \<Longrightarrow>
     names_step iter (s, u, MRead um, c)
       (s\<lparr>m_id_to_name := itn, m_printed := m_printed s @ [name @ ''> '' @ get_or [] (um_message um)]\<rparr>, u, MIdle, c)"
| c_message: "names_step iter (s, u, m, CIdle) (s, u, m, CLock name)"
| c_lock: "name_mtx s = None \<Longrightarrow>
     names_step iter (s, u, m, CLock name) (s\<lparr>name_mtx := Some ChatThread\<rparr>, u, m, CRead name)"
| c_read: "map_ref 0 name (m_name_to_id s) = (nti, i) \<Longrightarrow>
     names_step iter (s, u, m, CRead name) (s\<lparr>m_name_to_id := nti\<rparr>, u, m, CUnlock name i)"
| c_unlock: "names_step iter (s, u, m, CUnlock name i) (s\<lparr>name_mtx := None\<rparr>, u, m, CIdle)"

inductive_cases names_stepE: "names_step iter st st'"

definition names_init :: names_state where
  "names_init = (\<lparr>m_name_to_id = [], m_id_to_name = [], name_mtx = None, m_printed = []\<rparr>, UIdle, MIdle, CIdle)"

section \<open>The lock\<close>

fun u_holds :: "users_pc \<Rightarrow> bool" where
  "u_holds (UCompare new) = True"
| "u_holds UClear = True"
| "u_holds (UFill es) = True"
| "u_holds UUnlock = True"
| "u_holds pc = False"

fun c_holds :: "chat_pc \<Rightarrow> bool" where
  "c_holds (CRead name) = True"
| "c_holds (CUnlock name i) = True"
| "c_holds pc = False"

text \<open>
  The invariant: the lock is held by the thread that is in a section of its own. While the
  chat is between lookup and unlock its id is the one in the map. The names in the map
  of names are distinct, and except between the assignment and \<^verbatim>\<open>clear\<close> every entry of the map
  of ids is the inverse of an entry there or has the empty name.
\<close>

definition ids_true :: "Names \<Rightarrow> bool" where
  "ids_true s \<longleftrightarrow> (\<forall>i n. map_of (m_id_to_name s) i = Some n \<longrightarrow> n = [] \<or> map_of (m_name_to_id s) n = Some i)"

definition lock_inv :: "names_state \<Rightarrow> bool" where
  "lock_inv = (\<lambda>(s, u, m, c).
     (name_mtx s = Some UsersThread \<longleftrightarrow> u_holds u) \<and> (name_mtx s = Some ChatThread \<longleftrightarrow> c_holds c) \<and>
     (\<forall>name i. c = CUnlock name i \<longrightarrow> map_of (m_name_to_id s) name = Some i))"

definition maps_inv :: "names_state \<Rightarrow> bool" where
  "maps_inv = (\<lambda>(s, u, m, c).
     distinct (map fst (m_name_to_id s)) \<and> (u \<noteq> UClear \<longrightarrow> ids_true s) \<and>
     (case u of
        ULock new \<Rightarrow> distinct (map fst new)
      | UCompare new \<Rightarrow> distinct (map fst new)
      | UFill es \<Rightarrow> (\<forall>e \<in> set es. map_of (m_name_to_id s) (fst e) = Some (snd e))
      | _ \<Rightarrow> True))"

declare map_of_eq_Some_iff [simp del]

lemma map_ref_simps:
  assumes "map_ref d k m = (m', v)"
  shows "map_of m' k = Some v" "map_of m j = Some x \<Longrightarrow> map_of m' j = Some x"
    "map_of m' j = Some x \<Longrightarrow> map_of m j = Some x \<or> x = d"
    "distinct (map fst m) \<Longrightarrow> distinct (map fst m')"
proof -
  have m': "m' = (if map_of m k = None then m @ [(k, d)] else m)" "v = (if map_of m k = None then d else the (map_of m k))"
    using assms by (auto simp: map_ref_def split: option.splits)
  show "map_of m' k = Some v" "map_of m j = Some x \<Longrightarrow> map_of m' j = Some x"
    "map_of m' j = Some x \<Longrightarrow> map_of m j = Some x \<or> x = d"
    unfolding m' by (auto simp: map_add_def split: if_splits option.splits)
  show "distinct (map fst m) \<Longrightarrow> distinct (map fst m')"
    unfolding m' by (simp add: map_of_eq_None_iff)
qed

lemma map_of_emplace: "map_of (emplace k v m) j = (if j = k \<and> map_of m k = None then Some v else map_of m j)"
  by (auto simp: emplace_def map_add_def split: option.splits)

lemma distinct_names_of_users: "distinct (map fst (names_of_users us))"
proof -
  have "distinct (map fst m) \<Longrightarrow>
      distinct (map fst (foldl (\<lambda>m u. AList.update (get_or [] (ou_username u)) (get_or 0 (ou_user_id u)) m) m us))" for m
    by (induction us arbitrary: m) (simp_all add: distinct_update)
  then show ?thesis by (simp add: names_of_users_def)
qed

lemma lock_inv_step: "names_step iter st st' \<Longrightarrow> lock_inv st \<Longrightarrow> lock_inv st'"
  by (induction rule: names_step.induct) (auto simp: lock_inv_def map_ref_simps)

lemma maps_inv_step:
  assumes "iteration_order iter"
  shows "names_step iter st st' \<Longrightarrow> maps_inv st \<Longrightarrow> maps_inv st'"
proof (induction rule: names_step.induct)
  case (u_clear s m c)
  have set: "set (iter (m_name_to_id s)) = set (m_name_to_id s)"
    by (rule mset_eq_setD) (use assms in \<open>simp add: iteration_order_def\<close>)
  have "map_of (m_name_to_id s) (fst e) = Some (snd e)" if "e \<in> set (iter (m_name_to_id s))" for e
    using that u_clear.prems by (simp add: maps_inv_def set)
  with u_clear.prems show ?case by (simp add: maps_inv_def ids_true_def)
next
  case (u_emplace s e es m c)
  then show ?case by (auto simp: maps_inv_def ids_true_def map_of_emplace split: if_splits)
next
  case (m_read um s itn name u c)
  from map_ref_simps(3) [OF m_read.hyps] m_read.prems show ?case
    by (auto simp: maps_inv_def ids_true_def split: users_pc.splits)
next
  case (c_read name s nti i u m)
  from map_ref_simps(2,4) [OF c_read.hyps] c_read.prems show ?case
    by (auto simp: maps_inv_def ids_true_def split: users_pc.splits)
qed (auto simp: maps_inv_def ids_true_def distinct_names_of_users split: users_pc.splits)

lemma names_run_inv:
  assumes "(names_step iter)\<^sup>*\<^sup>* names_init st" "iteration_order iter"
  shows "lock_inv st \<and> maps_inv st"
  using assms(1)
proof (induction rule: rtranclp_induct)
  case base
  then show ?case by (simp add: lock_inv_def maps_inv_def ids_true_def names_init_def)
next
  case (step y z)
  then show ?case
    using lock_inv_step maps_inv_step [OF assms(2)] by blast
qed

section \<open>Properties\<close>

text \<open>
  C31. However the client's threads interleave on the two maps, the section that rebuilds them
  and the lookup of a chat partner exclude each other, a chat message gets the id the
  map of names holds for its partner, and outside a rebuild every name the map of ids gives
  for a sender is that of a user with this id, or empty.
\<close>

theorem names_lock_protects:
  assumes "(names_step iter)\<^sup>*\<^sup>* names_init (s, u, m, c)" "iteration_order iter"
  shows "\<not> (u_holds u \<and> c_holds c)
    \<and> (\<forall>name i. c = CUnlock name i \<longrightarrow> map_of (m_name_to_id s) name = Some i)
    \<and> (u \<noteq> UClear \<longrightarrow> (\<forall>i n. map_of (m_id_to_name s) i = Some n \<longrightarrow> n = [] \<or> map_of (m_name_to_id s) n = Some i))"
  using names_run_inv [OF assms] by (auto simp: lock_inv_def maps_inv_def ids_true_def)

text \<open>
  A run: the users thread has the answer that \<open>bo\<close> is user 1, then that \<open>cy\<close> is user 2 as
  well, and a message of user 1 is looked up in between.
\<close>

definition bo_user :: OnlineUser where
  "bo_user = \<lparr>ou_user_id = Some 1, ou_username = Some ''bo''\<rparr>"

definition cy_user :: OnlineUser where
  "cy_user = \<lparr>ou_user_id = Some 2, ou_username = Some ''cy''\<rparr>"

definition hi_message :: UserMessage where
  "hi_message = \<lparr>um_user_id = Some 1, um_message = Some ''hi''\<rparr>"

definition one_known :: Names where
  "one_known = \<lparr>m_name_to_id = [(''bo'', 1)], m_id_to_name = [(1, ''bo'')], name_mtx = None, m_printed = []\<rparr>"

lemma run_step: "names_step iter st st' \<Longrightarrow> (names_step iter)\<^sup>*\<^sup>* st' st'' \<Longrightarrow> (names_step iter)\<^sup>*\<^sup>* st st''"
  by (rule converse_rtranclp_into_rtranclp)

lemma one_known_reachable: "(names_step (\<lambda>xs. xs))\<^sup>*\<^sup>* names_init (one_known, UIdle, MIdle, CIdle)"
proof -
  have names: "names_of_users [bo_user] = [(''bo'', 1)]"
    by (simp add: names_of_users_def bo_user_def)
  show ?thesis
    unfolding names_init_def
    apply (rule run_step, rule u_answer [of _ _ _ _ "[bo_user]"])
    apply (rule run_step, rule u_lock, simp)
    apply (rule run_step, rule u_assign, simp add: names same_map_def)
    apply (rule run_step, rule u_clear)
    apply (simp add: names)
    apply (rule run_step, rule u_emplace)
    apply (rule run_step, rule u_filled)
    apply (rule run_step, rule u_unlock)
    apply (simp add: one_known_def emplace_def)
    done
qed

theorem names_lock_protects_witness:
  "map_of (m_id_to_name one_known) 1 = Some ''bo'' \<and> map_of (m_name_to_id one_known) ''bo'' = Some 1"
proof -
  have "map_of (m_id_to_name one_known) 1 = Some ''bo''"
    by (simp add: one_known_def)
  moreover have "iteration_order (\<lambda>xs. xs)"
    by (simp add: iteration_order_def)
  ultimately show ?thesis
    using names_lock_protects [OF one_known_reachable] by blast
qed

text \<open>
  C30. The unlocked lookup of a sender loses a name for good: from a state the program
  reaches, in which \<open>bo\<close> is user 1 in both maps, a message of that user whose sender is found
  before the rebuild and read after \<^verbatim>\<open>clear\<close> is printed without a name, and leaves an empty name
  in the map of ids that the rebuild does not replace: with all threads at rest and the
  lock free, \<open>bo\<close> is user 1 in the map of names, a later message of user 1 is printed without
  a name, and the same answer of the server compares equal and rebuilds nothing.
\<close>

theorem unlocked_read_loses_name:
  "\<exists>s. (names_step (\<lambda>xs. xs))\<^sup>*\<^sup>* (one_known, UIdle, MIdle, CIdle) (s, UIdle, MIdle, CIdle)
    \<and> m_printed s = [''> hi''] \<and> name_mtx s = None
    \<and> map_of (m_name_to_id s) ''bo'' = Some 1 \<and> map_of (m_id_to_name s) 1 = Some []
    \<and> message_line (m_id_to_name s) hi_message = ''> hi''
    \<and> same_map (names_of_users [bo_user, cy_user]) (m_name_to_id s)"
proof -
  let ?new = "[(''bo'', 1), (''cy'', 2)] :: (string \<times> user_id_t) list"
  let ?s = "\<lparr>m_name_to_id = ?new, m_id_to_name = [(1, []), (2, ''cy'')], name_mtx = None, m_printed = [''> hi'']\<rparr>"
  have names: "names_of_users [bo_user, cy_user] = ?new"
    by (simp add: names_of_users_def bo_user_def cy_user_def)
  have found: "map_of (m_id_to_name one_known) (sender_of hi_message) \<noteq> None"
    by (simp add: one_known_def sender_of_def hi_message_def)
  have missing: "map_ref [] (sender_of hi_message) [] = ([(1, [])], [])"
    by (simp add: map_ref_def sender_of_def hi_message_def)
  have "(names_step (\<lambda>xs. xs))\<^sup>*\<^sup>* (one_known, UIdle, MIdle, CIdle) (?s, UIdle, MIdle, CIdle)"
    apply (rule run_step, rule m_arrives [of _ _ _ _ hi_message])
    apply (rule run_step, rule m_found [OF found])
    apply (rule run_step, rule u_answer [of _ _ _ _ "[bo_user, cy_user]"])
    apply (rule run_step, rule u_lock, simp add: one_known_def)
    apply (rule run_step, rule u_assign, simp add: names same_map_def one_known_def)
    apply (rule run_step, rule u_clear)
    apply (simp add: names)
    apply (rule run_step, rule m_read, simp add: missing)
    apply (rule run_step, rule u_emplace)
    apply (rule run_step, rule u_emplace)
    apply (rule run_step, rule u_filled)
    apply (rule run_step, rule u_unlock)
    apply (simp add: one_known_def emplace_def hi_message_def)
    done
  moreover have "message_line (m_id_to_name ?s) hi_message = ''> hi''"
    by (simp add: message_line_def hi_message_def)
  moreover have "same_map (names_of_users [bo_user, cy_user]) (m_name_to_id ?s)"
    by (simp add: names same_map_def)
  ultimately show ?thesis
    by (intro exI [of _ ?s]) auto
qed

end
