(* ===== verification/Addressbook.thy ===== *)
theory Addressbook
  imports Wire Decimal
begin

text \<open>
  \<^verbatim>\<open>protobuf-tutorial/write_message.cpp\<close> and \<^verbatim>\<open>protobuf-tutorial/read_message.cpp\<close>, on the
  messages of \<^verbatim>\<open>addressbook.proto\<close>: a program that asks for a person and adds it to an
  address book file, and one that lists the file. Standard input is the text typed,
  with the state of \<^verbatim>\<open>cin\<close>; the file is its content, or nothing when it does not exist.
  The protocol-buffer library's reading and writing of a stream are arguments.
\<close>

section \<open>Messages\<close>

datatype PhoneType =
    PHONE_TYPE_UNSPECIFIED | PHONE_TYPE_MOBILE | PHONE_TYPE_HOME | PHONE_TYPE_WORK

record PhoneNumber =
  ph_number :: "string option"
  ph_type :: "PhoneType option"

record Person =
  p_name :: "string option"
  p_id :: "int option"
  p_email :: "string option"
  phones :: "PhoneNumber list"

record AddressBook =
  people :: "Person list"

definition Person_empty :: Person where
  "Person_empty = \<lparr>p_name = None, p_id = None, p_email = None, phones = []\<rparr>"

text \<open>The accessors: an unset field reads its default, \<open>PHONE_TYPE_HOME\<close> for a phone type.\<close>

definition get_default :: "'a \<Rightarrow> 'a option \<Rightarrow> 'a" where
  "get_default d x = (case x of None \<Rightarrow> d | Some v \<Rightarrow> v)"

definition phone_type :: "PhoneNumber \<Rightarrow> PhoneType" where
  "phone_type ph = get_default PHONE_TYPE_HOME (ph_type ph)"

section \<open>Standard input\<close>

text \<open>
  \<open>good\<close> is \<^verbatim>\<open>cin.good()\<close>: no end of input met and no failed conversion. On a stream
  that is not good no operation reads anything.
\<close>

record istream =
  rest :: string
  good :: bool

definition newline :: char where
  "newline = CHR 0x0A"

text \<open>
  \<^verbatim>\<open>cin >> id\<close>: white space, an optional sign, digits. Without digits the value is 0 and
  the stream fails, out of range it is the nearest bound and the stream fails, and at
  the end of the input the variable keeps the value \<open>old\<close> it had.
\<close>

definition read_int :: "int \<Rightarrow> istream \<Rightarrow> istream \<times> int" where
  "read_int old s =
     (if \<not> good s then (s, old) else
      let r = dropWhile is_space (rest s)
      in if r = [] then (\<lparr>rest = [], good = False\<rparr>, old) else
      let (neg, r) = (if hd r = CHR ''-'' then (True, tl r)
                      else if hd r = CHR ''+'' then (False, tl r) else (False, r));
          ds = takeWhile is_digit r;
          r = dropWhile is_digit r;
          v = (if neg then - int (digits_value ds) else int (digits_value ds))
      in if ds = [] then (\<lparr>rest = r, good = False\<rparr>, 0)
         else if int_max < v then (\<lparr>rest = r, good = False\<rparr>, int_max)
         else if v < - int_max - 1 then (\<lparr>rest = r, good = False\<rparr>, - int_max - 1)
         else (\<lparr>rest = r, good = (r \<noteq> [])\<rparr>, v))"

text \<open>\<^verbatim>\<open>cin.ignore(n, '\n')\<close>: at most \<open>n\<close> characters, up to and with a newline.\<close>

fun ignore_chars :: "nat \<Rightarrow> string \<Rightarrow> istream" where
  "ignore_chars 0 r = \<lparr>rest = r, good = True\<rparr>"
| "ignore_chars (Suc n) [] = \<lparr>rest = [], good = False\<rparr>"
| "ignore_chars (Suc n) (ch # r) =
     (if ch = newline then \<lparr>rest = r, good = True\<rparr> else ignore_chars n r)"

definition ignore_line :: "nat \<Rightarrow> istream \<Rightarrow> istream" where
  "ignore_line n s = (if \<not> good s then s else ignore_chars n (rest s))"

text \<open>\<^verbatim>\<open>getline\<close> into an empty string.\<close>

definition getline :: "istream \<Rightarrow> istream \<times> string" where
  "getline s =
     (if \<not> good s then (s, []) else
      let line = takeWhile (\<lambda>ch. ch \<noteq> newline) (rest s);
          r = dropWhile (\<lambda>ch. ch \<noteq> newline) (rest s)
      in if r = [] then (\<lparr>rest = [], good = False\<rparr>, line)
         else (\<lparr>rest = tl r, good = True\<rparr>, line))"

lemma getline_lengths:
  "length (rest s) = length (takeWhile (\<lambda>ch. ch \<noteq> newline) (rest s))
    + length (dropWhile (\<lambda>ch. ch \<noteq> newline) (rest s))"
  by (metis length_append takeWhile_dropWhile_id)

lemma getline_le: "length (rest (fst (getline s))) \<le> length (rest s)"
  using getline_lengths [of s] by (auto simp: getline_def Let_def)

lemma getline_shorter: "getline s = (s', line) \<Longrightarrow> line \<noteq> [] \<Longrightarrow> length (rest s') < length (rest s)"
  using getline_lengths [of s]
  by (auto simp: getline_def Let_def less_imp_diff_less trans_less_add2 split: if_splits)

section \<open>Asking for a person\<close>

definition type_of_answer :: "string \<Rightarrow> PhoneType option" where
  "type_of_answer s =
     (if s = ''mobile'' then Some PHONE_TYPE_MOBILE
      else if s = ''home'' then Some PHONE_TYPE_HOME
      else if s = ''work'' then Some PHONE_TYPE_WORK
      else None)"

definition ask_id :: string where "ask_id = ''Enter person ID number: ''"
definition ask_name :: string where "ask_name = ''Enter name: ''"
definition ask_email :: string where "ask_email = ''Enter email address (blank for none): ''"
definition ask_number :: string where "ask_number = ''Enter a phone number (or leave blank to finish): ''"
definition ask_type :: string where "ask_type = ''Is this a mobile, home, or work phone? ''"
definition unknown_type :: string where "unknown_type = ''unknown phone type. Using default.'' @ [newline]"

text \<open>The phone loop; the last component is what is written to \<^verbatim>\<open>cout\<close>.\<close>

function read_phones :: "istream \<Rightarrow> PhoneNumber list \<Rightarrow> string \<Rightarrow> istream \<times> PhoneNumber list \<times> string" where
  "read_phones s phs o1 =
     (let o2 = o1 @ ask_number;
          (s1, num) = getline s
      in if num = [] then (s1, phs, o2)
         else
           let o3 = o2 @ ask_type;
               (s2, answer) = getline s1;
               t = type_of_answer answer;
               o4 = (if t = None then o3 @ unknown_type else o3)
           in read_phones s2 (phs @ [\<lparr>ph_number = Some num, ph_type = t\<rparr>]) o4)"
  by pat_completeness auto
termination
proof (relation "measure (\<lambda>(s, phs, o1). length (rest s))", goal_cases)
  case (2 s phs o1 o2 xa s1 num o3 xb s2 answer t o4)
  then have "length (rest s1) < length (rest s)"
    using getline_shorter [of s s1 num] by simp
  moreover have "length (rest s2) \<le> length (rest s1)"
    using getline_le [of s1] 2 by (metis fst_conv)
  ultimately show ?case by simp
qed simp

declare read_phones.simps [simp del]

text \<open>\<open>junk\<close> is the value of the uninitialised variable \<^verbatim>\<open>id\<close>.\<close>

definition PromptForAddress :: "int \<Rightarrow> istream \<Rightarrow> Person \<Rightarrow> istream \<times> Person \<times> string" where
  "PromptForAddress junk s person =
     (let o1 = ask_id;
          (s, i) = read_int junk s;
          person = person\<lparr>p_id := Some i\<rparr>;
          s = ignore_line 256 s;
          o1 = o1 @ ask_name;
          (s, name) = getline s;
          person = person\<lparr>p_name := Some name\<rparr>;
          o1 = o1 @ ask_email;
          (s, email) = getline s;
          person = (if email \<noteq> [] then person\<lparr>p_email := Some email\<rparr> else person);
          (s, phs, o1) = read_phones s (phones person) o1
      in (s, person\<lparr>phones := phs\<rparr>, o1))"

section \<open>Listing people\<close>

definition phone_label :: "PhoneType \<Rightarrow> string" where
  "phone_label t =
     (case t of
        PHONE_TYPE_MOBILE \<Rightarrow> ''  Mobile phone #: ''
      | PHONE_TYPE_HOME \<Rightarrow> ''  Home phone #: ''
      | PHONE_TYPE_WORK \<Rightarrow> ''  Work phone #: ''
      | PHONE_TYPE_UNSPECIFIED \<Rightarrow> [])"

definition list_phone :: "PhoneNumber \<Rightarrow> string" where
  "list_phone ph = phone_label (phone_type ph) @ get_default [] (ph_number ph) @ [newline]"

definition list_person :: "Person \<Rightarrow> string" where
  "list_person p =
     ''Person ID: '' @ show_int (get_default 0 (p_id p)) @ [newline] @
     ''  Name: '' @ get_default [] (p_name p) @ [newline] @
     (case p_email p of None \<Rightarrow> [] | Some e \<Rightarrow> ''  E-mail address: '' @ e @ [newline]) @
     concat (map list_phone (phones p))"

definition ListPeople :: "AddressBook \<Rightarrow> string" where
  "ListPeople book = concat (map list_person (people book))"

section \<open>The two programs\<close>

record outcome =
  exit_code :: int
  stdout :: string
  stderr :: string
  book_file :: "bytes option"

definition write_main ::
    "(bytes \<Rightarrow> bool \<times> AddressBook) \<Rightarrow> (AddressBook \<Rightarrow> bool \<times> bytes) \<Rightarrow> string list \<Rightarrow> int \<Rightarrow>
     string \<Rightarrow> bytes option \<Rightarrow> outcome" where
  "write_main parse_stream ser_stream argv junk input f =
     (if length argv \<noteq> 2
      then \<lparr>exit_code = - 1, stdout = [],
            stderr = ''Usage: '' @ hd argv @ '' ADDRESS_BOOK_FILE'' @ [newline], book_file = f\<rparr>
      else
        let (o1, ok, book) =
              (case f of
                 None \<Rightarrow> (argv ! 1 @ '': File not found. Creating a new file.'' @ [newline], True, \<lparr>people = []\<rparr>)
               | Some bs \<Rightarrow> (let (ok, book) = parse_stream bs in ([], ok, book)))
        in if \<not> ok
           then \<lparr>exit_code = - 1, stdout = o1, stderr = ''Failed to parse address book.'' @ [newline], book_file = f\<rparr>
           else
             let (s, person, o2) = PromptForAddress junk \<lparr>rest = input, good = True\<rparr> Person_empty;
                 book = book\<lparr>people := people book @ [person]\<rparr>;
                 (ok, bs) = ser_stream book
             in if \<not> ok
                then \<lparr>exit_code = - 1, stdout = o1 @ o2,
                      stderr = ''Failed to write to address book.'' @ [newline], book_file = Some bs\<rparr>
                else \<lparr>exit_code = 0, stdout = o1 @ o2, stderr = [], book_file = Some bs\<rparr>)"

text \<open>
  Reading does not check whether the file exists: parsing a stream that failed to open
  is the argument \<open>parse_missing\<close>.
\<close>

definition read_main ::
    "(bytes \<Rightarrow> bool \<times> AddressBook) \<Rightarrow> bool \<times> AddressBook \<Rightarrow> string list \<Rightarrow> bytes option \<Rightarrow> outcome" where
  "read_main parse_stream parse_missing argv f =
     (if length argv \<noteq> 2
      then \<lparr>exit_code = - 1, stdout = [],
            stderr = ''Usage:  '' @ hd argv @ '' ADDRESS_BOOK_FILE'' @ [newline], book_file = f\<rparr>
      else
        let (ok, book) = (case f of None \<Rightarrow> parse_missing | Some bs \<Rightarrow> parse_stream bs)
        in if \<not> ok
           then \<lparr>exit_code = - 1, stdout = [], stderr = ''Failed to parse address book.'' @ [newline], book_file = f\<rparr>
           else \<lparr>exit_code = 0, stdout = ListPeople book, stderr = [], book_file = f\<rparr>)"

section \<open>Reading back what is typed\<close>

lemma span_digits:
  assumes "list_all is_digit ds"
  shows "takeWhile is_digit (ds @ newline # r) = ds" "dropWhile is_digit (ds @ newline # r) = newline # r"
  using assms by (induction ds) (simp_all add: is_digit_def newline_def)

lemma read_int_number:
  assumes "list_all is_digit ds" "ds \<noteq> []" "int (digits_value ds) \<le> int_max"
  shows "read_int old \<lparr>rest = ds @ newline # r, good = True\<rparr>
    = (\<lparr>rest = newline # r, good = True\<rparr>, int (digits_value ds))"
proof -
  obtain d ds' where d: "ds = d # ds'" "is_digit d"
    using assms(1,2) by (cases ds) auto
  have "dropWhile is_space (ds @ newline # r) = ds @ newline # r" "hd (ds @ newline # r) = d" "ds @ newline # r \<noteq> []"
    using digit_no_control [OF d(2)] by (simp_all add: d(1))
  then show ?thesis
    using assms digit_no_control [OF d(2)] span_digits [OF assms(1), of r]
    by (simp add: read_int_def int_max_def Let_def)
qed

lemma read_int_negative:
  assumes "list_all is_digit ds" "ds \<noteq> []" "int (digits_value ds) \<le> int_max + 1"
  shows "read_int old \<lparr>rest = CHR ''-'' # ds @ newline # r, good = True\<rparr>
    = (\<lparr>rest = newline # r, good = True\<rparr>, - int (digits_value ds))"
  using assms span_digits [OF assms(1), of r]
  by (simp add: read_int_def int_max_def is_space_def Let_def)

lemma read_int_shown:
  assumes "- int_max - 1 \<le> i" "i \<le> int_max"
  shows "read_int old \<lparr>rest = show_int i @ newline # r, good = True\<rparr> = (\<lparr>rest = newline # r, good = True\<rparr>, i)"
proof (cases "i < 0")
  case True
  then show ?thesis
    using show_nat_digits [of "nat (- i)"] read_int_negative [of "show_nat (nat (- i))" old r] assms(1)
    by (simp add: show_int_def)
next
  case False
  then show ?thesis
    using show_nat_digits [of "nat i"] read_int_number [of "show_nat (nat i)" old r] assms(2)
    by (simp add: show_int_def)
qed

lemma getline_line:
  assumes "newline \<notin> set line"
  shows "getline \<lparr>rest = line @ newline # r, good = True\<rparr> = (\<lparr>rest = r, good = True\<rparr>, line)"
proof -
  have "takeWhile (\<lambda>ch. ch \<noteq> newline) (line @ newline # r) = line"
    "dropWhile (\<lambda>ch. ch \<noteq> newline) (line @ newline # r) = newline # r"
    using assms by (induction line) auto
  then show ?thesis by (simp add: getline_def)
qed

lemma getline_bad: "\<not> good s \<Longrightarrow> getline s = (s, [])"
  by (simp add: getline_def)

definition typed_phones :: "(string \<times> string) list \<Rightarrow> string" where
  "typed_phones phs = concat (map (\<lambda>(n, t). n @ newline # t @ [newline]) phs)"

definition typed_person :: "int \<Rightarrow> string \<Rightarrow> string \<Rightarrow> (string \<times> string) list \<Rightarrow> string" where
  "typed_person i name email phs =
     show_int i @ newline # name @ newline # email @ newline # typed_phones phs @ [newline]"

definition phone_of :: "string \<times> string \<Rightarrow> PhoneNumber" where
  "phone_of = (\<lambda>(n, t). \<lparr>ph_number = Some n, ph_type = type_of_answer t\<rparr>)"

lemma read_phones_typed:
  assumes "list_all (\<lambda>(n, t). n \<noteq> [] \<and> newline \<notin> set n \<and> newline \<notin> set t) phs"
  shows "\<exists>o2. read_phones \<lparr>rest = typed_phones phs @ newline # r, good = True\<rparr> acc o1
    = (\<lparr>rest = r, good = True\<rparr>, acc @ map phone_of phs, o2)"
  using assms
proof (induction phs arbitrary: acc o1)
  case Nil
  then show ?case
    using getline_line [of "[]" r] by (simp add: read_phones.simps typed_phones_def)
next
  case (Cons ph phs)
  obtain n t where ph: "ph = (n, t)" by force
  with Cons.prems have n: "n \<noteq> []" "newline \<notin> set n" "newline \<notin> set t"
    and phs: "list_all (\<lambda>(n, t). n \<noteq> [] \<and> newline \<notin> set n \<and> newline \<notin> set t) phs"
    by auto
  have typed: "typed_phones (ph # phs) @ newline # r = n @ newline # t @ newline # typed_phones phs @ newline # r"
    by (simp add: typed_phones_def ph)
  have "\<exists>o4. read_phones \<lparr>rest = typed_phones (ph # phs) @ newline # r, good = True\<rparr> acc o1
      = read_phones \<lparr>rest = typed_phones phs @ newline # r, good = True\<rparr> (acc @ [phone_of ph]) o4"
    unfolding typed by (subst read_phones.simps)
      (auto simp: getline_line [OF n(2)] getline_line [OF n(3)] n(1) phone_of_def ph Let_def)
  then obtain o4 where step: "read_phones \<lparr>rest = typed_phones (ph # phs) @ newline # r, good = True\<rparr> acc o1
      = read_phones \<lparr>rest = typed_phones phs @ newline # r, good = True\<rparr> (acc @ [phone_of ph]) o4" ..
  show ?case
    using Cons.IH [OF phs, of "acc @ [phone_of ph]" o4] unfolding step by simp
qed

lemma ignore_newline: "ignore_line 256 \<lparr>rest = newline # r, good = True\<rparr> = \<lparr>rest = r, good = True\<rparr>"
  by (simp add: ignore_line_def numeral_eq_Suc)

lemma PromptForAddress_typed:
  assumes "- int_max - 1 \<le> i" "i \<le> int_max" "newline \<notin> set name" "newline \<notin> set email"
    and "list_all (\<lambda>(n, t). n \<noteq> [] \<and> newline \<notin> set n \<and> newline \<notin> set t) phs"
  shows "\<exists>o1. PromptForAddress junk \<lparr>rest = typed_person i name email phs @ r, good = True\<rparr> Person_empty
    = (\<lparr>rest = r, good = True\<rparr>,
       \<lparr>p_name = Some name, p_id = Some i, p_email = (if email = [] then None else Some email),
        phones = map phone_of phs\<rparr>, o1)"
proof -
  have typed: "typed_person i name email phs @ r
      = show_int i @ newline # name @ newline # email @ newline # typed_phones phs @ newline # r"
    by (simp add: typed_person_def)
  obtain o2 where "read_phones \<lparr>rest = typed_phones phs @ newline # r, good = True\<rparr> []
      (ask_id @ ask_name @ ask_email)
      = (\<lparr>rest = r, good = True\<rparr>, map phone_of phs, o2)"
    using read_phones_typed [OF assms(5), of r "[]"] by fastforce
  then show ?thesis
    by (simp add: typed PromptForAddress_def Person_empty_def read_int_shown [OF assms(1,2)] ignore_newline
        getline_line [OF assms(3)] getline_line [OF assms(4)])
qed

lemma read_phones_bad: "\<not> good s \<Longrightarrow> \<exists>o2. read_phones s phs o1 = (s, phs, o2)"
  by (simp add: read_phones.simps getline_bad)

section \<open>The file format\<close>

text \<open>
  What the two programs rely on from the library: a book written to a stream is read
  back as it is. The locale states it for the books a predicate admits; the
  interpretation is the wire format of \<^verbatim>\<open>addressbook.proto\<close>, for ids of 32 bits.
\<close>

locale book_codec =
  fixes ser_stream :: "AddressBook \<Rightarrow> bool \<times> bytes"
    and parse_stream :: "bytes \<Rightarrow> bool \<times> AddressBook"
    and wf_book :: "AddressBook \<Rightarrow> bool"
  assumes ser_ok: "wf_book b \<Longrightarrow> fst (ser_stream b)"
    and parse_ser: "wf_book b \<Longrightarrow> parse_stream (snd (ser_stream b)) = (True, b)"
begin

lemma write_adds:
  assumes "f = None \<and> old = [] \<or> (\<exists>bs. f = Some bs \<and> parse_stream bs = (True, \<lparr>people = old\<rparr>))"
    and "PromptForAddress junk \<lparr>rest = input, good = True\<rparr> Person_empty = (s, p, o1)"
    and "wf_book \<lparr>people = old @ [p]\<rparr>"
  shows "exit_code (write_main parse_stream ser_stream [w, path] junk input f) = 0
    \<and> book_file (write_main parse_stream ser_stream [w, path] junk input f)
      = Some (snd (ser_stream \<lparr>people = old @ [p]\<rparr>))"
  using assms(1)
proof
  assume "f = None \<and> old = []"
  then show ?thesis
    using ser_ok [OF assms(3)] assms(2) by (simp add: write_main_def Let_def case_prod_beta)
next
  assume "\<exists>bs. f = Some bs \<and> parse_stream bs = (True, \<lparr>people = old\<rparr>)"
  then show ?thesis
    using ser_ok [OF assms(3)] assms(2) by (auto simp: write_main_def Let_def case_prod_beta)
qed

lemma read_lists:
  assumes "wf_book b"
  shows "read_main parse_stream missing [w, path] (Some (snd (ser_stream b)))
    = \<lparr>exit_code = 0, stdout = ListPeople b, stderr = [], book_file = Some (snd (ser_stream b))\<rparr>"
  by (simp add: read_main_def parse_ser [OF assms])

end

definition put_int :: "nat \<Rightarrow> int option \<Rightarrow> wire_field list" where
  "put_int k x = (case x of None \<Rightarrow> [] | Some i \<Rightarrow> [(k, Varint (nat (i mod 2 ^ 64)))])"

definition get_int :: "nat \<Rightarrow> wire_field list \<Rightarrow> int option" where
  "get_int k fs = map_option (\<lambda>n. sint (word_of_nat n :: 32 word)) (last_opt (varints k fs))"

fun PhoneType_number :: "PhoneType \<Rightarrow> u32" where
  "PhoneType_number PHONE_TYPE_UNSPECIFIED = 0"
| "PhoneType_number PHONE_TYPE_MOBILE = 1"
| "PhoneType_number PHONE_TYPE_HOME = 2"
| "PhoneType_number PHONE_TYPE_WORK = 3"

definition PhoneType_of :: "u32 \<Rightarrow> PhoneType option" where
  "PhoneType_of n = find (\<lambda>t. PhoneType_number t = n)
     [PHONE_TYPE_UNSPECIFIED, PHONE_TYPE_MOBILE, PHONE_TYPE_HOME, PHONE_TYPE_WORK]"

definition PhoneNumber_fields :: "PhoneNumber \<Rightarrow> wire_field list" where
  "PhoneNumber_fields ph =
     put_string 1 (ph_number ph) @ put_u32 2 (map_option PhoneType_number (ph_type ph))"

definition PhoneNumber_of_fields :: "wire_field list \<Rightarrow> PhoneNumber" where
  "PhoneNumber_of_fields fs =
     \<lparr>ph_number = get_string 1 fs, ph_type = Option.bind (get_u32 2 fs) PhoneType_of\<rparr>"

definition Person_fields :: "Person \<Rightarrow> wire_field list" where
  "Person_fields p = put_string 1 (p_name p) @ put_int 2 (p_id p) @ put_string 3 (p_email p)
     @ put_rep PhoneNumber_fields 4 (phones p)"

definition Person_of_fields :: "wire_field list \<Rightarrow> Person" where
  "Person_of_fields fs =
     \<lparr>p_name = get_string 1 fs, p_id = get_int 2 fs, p_email = get_string 3 fs,
      phones = get_rep PhoneNumber_of_fields 4 fs\<rparr>"

definition book_ser :: "AddressBook \<Rightarrow> bool \<times> bytes" where
  "book_ser b = (True, enc_fields (put_rep Person_fields 1 (people b)))"

text \<open>The parser reads what it can and never reports a failure, unlike the library's.\<close>

definition book_parse :: "bytes \<Rightarrow> bool \<times> AddressBook" where
  "book_parse bs = (True, \<lparr>people = get_rep Person_of_fields 1 (dec_fields bs)\<rparr>)"

definition wf_id :: "int option \<Rightarrow> bool" where
  "wf_id x \<longleftrightarrow> pred_option (\<lambda>i. - int_max - 1 \<le> i \<and> i \<le> int_max) x"

definition wf_book_wire :: "AddressBook \<Rightarrow> bool" where
  "wf_book_wire b \<longleftrightarrow> list_all (\<lambda>p. wf_id (p_id p)) (people b)"

lemma put_int_shape [codec_simps]:
  "0 < k \<Longrightarrow> numbered (put_int k x)" "lens j (put_int k x) = []"
  "varints j (put_int k x) = (if k = j then map (\<lambda>i. nat (i mod 2 ^ 64)) (case x of None \<Rightarrow> [] | Some i \<Rightarrow> [i]) else [])"
  by (auto simp: put_int_def numbered_def split: option.splits)

lemma int32_back:
  assumes "- int_max - 1 \<le> i" "i \<le> int_max"
  shows "sint (word_of_nat (nat (i mod 2 ^ 64)) :: 32 word) = i"
proof -
  have "(word_of_nat (nat (i mod 2 ^ 64)) :: 32 word) = word_of_int i"
    by transfer (simp add: take_bit_eq_mod mod_mod_cancel)
  moreover have "sint (word_of_int i :: 32 word) = i"
    using assms by (simp add: signed_of_int signed_take_bit_int_eq_self int_max_def)
  ultimately show ?thesis by simp
qed

lemma get_int_back:
  assumes "varints k fs = map (\<lambda>i. nat (i mod 2 ^ 64)) (case x of None \<Rightarrow> [] | Some i \<Rightarrow> [i])" "wf_id x"
  shows "get_int k fs = x"
  using assms int32_back by (cases x) (auto simp: get_int_def last_opt_def wf_id_def)

lemma PhoneType_back [simp]: "PhoneType_of (PhoneType_number t) = Some t"
  by (cases t) (simp_all add: PhoneType_of_def)

lemma PhoneNumber_numbered [codec_simps]: "numbered (PhoneNumber_fields ph)"
  by (simp add: PhoneNumber_fields_def codec_simps)

lemma PhoneNumber_back [codec_simps]: "PhoneNumber_of_fields (PhoneNumber_fields ph) = ph"
proof -
  have "get_u32 2 (PhoneNumber_fields ph) = map_option PhoneType_number (ph_type ph)"
    "get_string 1 (PhoneNumber_fields ph) = ph_number ph"
    by (simp_all add: PhoneNumber_fields_def codec_simps)
  then show ?thesis
    by (cases ph, cases "ph_type ph") (simp_all add: PhoneNumber_of_fields_def)
qed

lemma Person_numbered: "numbered (Person_fields p)"
  by (simp add: Person_fields_def codec_simps)

lemma Person_back: "wf_id (p_id p) \<Longrightarrow> Person_of_fields (Person_fields p) = p"
proof -
  assume "wf_id (p_id p)"
  then have "get_int 2 (Person_fields p) = p_id p"
    by (intro get_int_back) (simp_all add: Person_fields_def codec_simps)
  moreover have "get_string 1 (Person_fields p) = p_name p" "get_string 3 (Person_fields p) = p_email p"
    "get_rep PhoneNumber_of_fields 4 (Person_fields p) = phones p"
    by (simp_all add: Person_fields_def codec_simps)
  ultimately show ?thesis by (simp add: Person_of_fields_def)
qed

interpretation book_wire: book_codec book_ser book_parse wf_book_wire
proof unfold_locales
  fix b :: AddressBook
  show "fst (book_ser b)" by (simp add: book_ser_def)
  assume wf: "wf_book_wire b"
  have "dec_fields (enc_fields (put_rep Person_fields 1 (people b))) = put_rep Person_fields 1 (people b)"
    by (simp add: codec_simps)
  moreover have "map (\<lambda>bs. Person_of_fields (dec_fields bs)) (map (\<lambda>v. enc_fields (Person_fields v)) (people b))
      = people b"
    using wf by (simp add: comp_def wf_book_wire_def list_all_iff dec_fields_numbered Person_numbered Person_back
        map_idI)
  ultimately show "book_parse (snd (book_ser b)) = (True, b)"
    by (simp add: book_ser_def book_parse_def get_rep_def lens_put)
qed

section \<open>Properties\<close>

text \<open>
  What the user types is what the address book gets: the id, over the whole range
  of a 32-bit integer, the name, the email unless it is blank, and every phone number
  with its type, and only these lines are read.
\<close>

lemma prompt_reads_person:
  assumes "- int_max - 1 \<le> i" "i \<le> int_max" "newline \<notin> set name" "newline \<notin> set email"
    and "list_all (\<lambda>(n, t). n \<noteq> [] \<and> newline \<notin> set n \<and> newline \<notin> set t) phs"
  shows "\<exists>o1. PromptForAddress junk \<lparr>rest = typed_person i name email phs @ r, good = True\<rparr> Person_empty
    = (\<lparr>rest = r, good = True\<rparr>,
       \<lparr>p_name = Some name, p_id = Some i, p_email = (if email = [] then None else Some email),
        phones = map phone_of phs\<rparr>, o1)"
  using PromptForAddress_typed [OF assms] .

lemma prompt_reads_person_example:
  "\<exists>o1. PromptForAddress 99 \<lparr>rest = typed_person (- 12) ''al'' [] [(''555'', ''work''), (''7'', ''fax'')] @ ''x'', good = True\<rparr> Person_empty
    = (\<lparr>rest = ''x'', good = True\<rparr>,
       \<lparr>p_name = Some ''al'', p_id = Some (- 12), p_email = None,
        phones = [\<lparr>ph_number = Some ''555'', ph_type = Some PHONE_TYPE_WORK\<rparr>,
                  \<lparr>ph_number = Some ''7'', ph_type = None\<rparr>]\<rparr>, o1)"
  using prompt_reads_person [of "- 12" "''al''" "[]" "[(''555'', ''work''), (''7'', ''fax'')]" 99 "''x''"]
  by (simp add: int_max_def newline_def phone_of_def type_of_answer_def)

text \<open>
  When the answer for the id does not start with a number, the failed conversion
  disables the input: whatever else was typed, the person stored has id 0, an empty
  name, no email and no phone.
\<close>

lemma prompt_bad_id:
  assumes "\<not> is_space ch" "\<not> is_digit ch" "ch \<noteq> CHR ''-''" "ch \<noteq> CHR ''+''"
  shows "\<exists>s o1. PromptForAddress junk \<lparr>rest = ch # input, good = True\<rparr> Person_empty
    = (s, \<lparr>p_name = Some [], p_id = Some 0, p_email = None, phones = []\<rparr>, o1)"
proof -
  have "read_int junk \<lparr>rest = ch # input, good = True\<rparr> = (\<lparr>rest = ch # input, good = False\<rparr>, 0)"
    using assms by (simp add: read_int_def Let_def)
  then show ?thesis
    by (simp add: PromptForAddress_def Person_empty_def ignore_line_def getline_bad read_phones.simps)
qed

lemma prompt_bad_id_example:
  "\<exists>s o1. PromptForAddress 99 \<lparr>rest = ''al'' @ [newline] @ ''bo'', good = True\<rparr> Person_empty
    = (s, \<lparr>p_name = Some [], p_id = Some 0, p_email = None, phones = []\<rparr>, o1)"
  using prompt_bad_id [of "CHR ''a''" 99 "''l'' @ [newline] @ ''bo''"]
  by (simp add: is_space_def is_digit_def)

text \<open>
  C19. Writing and then reading: when the library reads back what it wrote, adding a person
  to an address book file, or to a file that does not exist yet, succeeds, and the
  reader then lists everybody who was in the file, followed by the person typed.
\<close>

theorem write_then_list:
  assumes "book_codec ser_stream parse_stream wf_book"
    and "f = None \<and> old = [] \<or> (\<exists>bs. f = Some bs \<and> parse_stream bs = (True, \<lparr>people = old\<rparr>))"
    and "- int_max - 1 \<le> i" "i \<le> int_max" "newline \<notin> set name" "newline \<notin> set email"
    and "list_all (\<lambda>(n, t). n \<noteq> [] \<and> newline \<notin> set n \<and> newline \<notin> set t) phs"
    and "p = \<lparr>p_name = Some name, p_id = Some i, p_email = (if email = [] then None else Some email),
              phones = map phone_of phs\<rparr>"
    and "wf_book \<lparr>people = old @ [p]\<rparr>"
    and "r = write_main parse_stream ser_stream [w, path] junk (typed_person i name email phs) f"
  shows "exit_code r = 0 \<and> exit_code (read_main parse_stream missing [w', path] (book_file r)) = 0
    \<and> stdout (read_main parse_stream missing [w', path] (book_file r))
      = ListPeople \<lparr>people = old\<rparr> @ list_person p"
proof -
  obtain o1 where o1: "PromptForAddress junk \<lparr>rest = typed_person i name email phs, good = True\<rparr> Person_empty
      = (\<lparr>rest = [], good = True\<rparr>, p, o1)"
    using PromptForAddress_typed [OF assms(3-7), of junk "[]"] assms(8) by auto
  show ?thesis
    using book_codec.write_adds [OF assms(1,2) o1 assms(9), of w path]
      book_codec.read_lists [OF assms(1,9), of missing w' path]
    by (simp add: assms(10) ListPeople_def)
qed

theorem write_then_list_witness:
  "stdout (read_main book_parse (False, \<lparr>people = []\<rparr>) [''r'', ''f'']
     (book_file (write_main book_parse book_ser [''w'', ''f''] 99 (typed_person (- 3) ''al'' [] [(''7'', ''fax'')]) None)))
   = list_person \<lparr>p_name = Some ''al'', p_id = Some (- 3), p_email = None,
                  phones = [\<lparr>ph_number = Some ''7'', ph_type = None\<rparr>]\<rparr>"
proof -
  let ?p = "\<lparr>p_name = Some ''al'', p_id = Some (- 3), p_email = (if [] = ([] :: string) then None else Some []),
    phones = map phone_of [(''7'', ''fax'')]\<rparr>"
  have "wf_book_wire \<lparr>people = [] @ [?p]\<rparr>"
    by (simp add: wf_book_wire_def wf_id_def int_max_def)
  from write_then_list [OF book_wire.book_codec_axioms _ _ _ _ _ _ refl this refl, of None "''w''" "''f''" 99]
  have "stdout (read_main book_parse (False, \<lparr>people = []\<rparr>) [''r'', ''f'']
     (book_file (write_main book_parse book_ser [''w'', ''f''] 99 (typed_person (- 3) ''al'' [] [(''7'', ''fax'')]) None)))
     = ListPeople \<lparr>people = []\<rparr> @ list_person ?p"
    by (simp add: int_max_def newline_def)
  then show ?thesis
    by (simp add: ListPeople_def phone_of_def type_of_answer_def)
qed

end
