(* ===== verification/Addressbook_Pb.thy ===== *)
theory Addressbook_Pb
  imports Addressbook
begin

unbundle bit_operations_syntax

text \<open>
  \<^verbatim>\<open>protobuf-tutorial/addressbook.pb.h\<close> and \<^verbatim>\<open>addressbook.pb.cc\<close>, the message classes of the
  address book as they are checked in: the constructors, the accessors over the presence bits, \<^verbatim>\<open>Clear\<close>,
  \<^verbatim>\<open>_InternalSerialize\<close>, \<^verbatim>\<open>ByteSizeLong\<close>, \<^verbatim>\<open>MergeImpl\<close>, \<^verbatim>\<open>CopyFrom\<close> and \<^verbatim>\<open>InternalSwap\<close>. A record
  holds the members of \<^verbatim>\<open>Impl_\<close>; \<open>unknown\<close> stands for the unknown fields of the message's
  metadata, as the bytes they serialise to. What these functions call of the
  library is the wire format of theory \<open>Wire\<close>, strings and repeated fields are HOL's
  strings and lists, and arenas, UTF-8 warnings and thread sanitising are left out. The
  abstraction to the records with optional fields of theory \<open>Addressbook\<close> says what
  each function means. A cached size is a natural number, which differs from the \<^verbatim>\<open>int\<close> of the
  code only for messages above 2 GB.
\<close>

section \<open>State\<close>

record PhoneNumber_pb =
  pn_has_bits :: u32
  pn_cached_size :: nat
  pn_number :: string
  pn_type :: int
  pn_unknown :: bytes

record Person_pb =
  pp_has_bits :: u32
  pp_cached_size :: nat
  pp_phones :: "PhoneNumber_pb list"
  pp_name :: string
  pp_email :: string
  pp_id :: int
  pp_unknown :: bytes

record AddressBook_pb =
  bk_people :: "Person_pb list"
  bk_cached_size :: nat
  bk_unknown :: bytes

definition PhoneNumber_new :: PhoneNumber_pb where
  "PhoneNumber_new = \<lparr>pn_has_bits = 0, pn_cached_size = 0, pn_number = [], pn_type = 2, pn_unknown = []\<rparr>"

definition Person_new :: Person_pb where
  "Person_new = \<lparr>pp_has_bits = 0, pp_cached_size = 0, pp_phones = [], pp_name = [], pp_email = [],
     pp_id = 0, pp_unknown = []\<rparr>"

definition AddressBook_new :: AddressBook_pb where
  "AddressBook_new = \<lparr>bk_people = [], bk_cached_size = 0, bk_unknown = []\<rparr>"

section \<open>Accessors\<close>

text \<open>
  For a string field: \<open>mutable\<close> hands out a pointer, so it takes what the caller does
  with the string; \<open>release\<close> gives the string away; \<open>set_allocated\<close> takes a string or null.
\<close>

definition PhoneNumber_has_number :: "PhoneNumber_pb \<Rightarrow> bool" where
  "PhoneNumber_has_number m \<longleftrightarrow> pn_has_bits m AND 1 \<noteq> 0"

definition PhoneNumber_clear_number :: "PhoneNumber_pb \<Rightarrow> PhoneNumber_pb" where
  "PhoneNumber_clear_number m = m\<lparr>pn_number := [], pn_has_bits := pn_has_bits m AND NOT 1\<rparr>"

definition PhoneNumber_get_number :: "PhoneNumber_pb \<Rightarrow> string" where
  "PhoneNumber_get_number m = pn_number m"

definition PhoneNumber_set_number :: "string \<Rightarrow> PhoneNumber_pb \<Rightarrow> PhoneNumber_pb" where
  "PhoneNumber_set_number s m = m\<lparr>pn_has_bits := pn_has_bits m OR 1, pn_number := s\<rparr>"

definition PhoneNumber_mutable_number :: "(string \<Rightarrow> string) \<Rightarrow> PhoneNumber_pb \<Rightarrow> PhoneNumber_pb" where
  "PhoneNumber_mutable_number f m = m\<lparr>pn_has_bits := pn_has_bits m OR 1, pn_number := f (pn_number m)\<rparr>"

definition PhoneNumber_release_number :: "PhoneNumber_pb \<Rightarrow> PhoneNumber_pb \<times> string option" where
  "PhoneNumber_release_number m =
     (if pn_has_bits m AND 1 = 0 then (m, None)
      else (m\<lparr>pn_has_bits := pn_has_bits m AND NOT 1, pn_number := []\<rparr>, Some (pn_number m)))"

definition PhoneNumber_set_allocated_number :: "string option \<Rightarrow> PhoneNumber_pb \<Rightarrow> PhoneNumber_pb" where
  "PhoneNumber_set_allocated_number v m =
     (let m = (if v \<noteq> None then m\<lparr>pn_has_bits := pn_has_bits m OR 1\<rparr>
               else m\<lparr>pn_has_bits := pn_has_bits m AND NOT 1\<rparr>)
      in m\<lparr>pn_number := get_default [] v\<rparr>)"

text \<open>An enumeration field: setting a value that is not an enumerator fails an assertion.\<close>

definition Person_PhoneType_IsValid :: "int \<Rightarrow> bool" where
  "Person_PhoneType_IsValid v \<longleftrightarrow> 0 \<le> v \<and> v \<le> 3"

definition PhoneNumber_has_type :: "PhoneNumber_pb \<Rightarrow> bool" where
  "PhoneNumber_has_type m \<longleftrightarrow> pn_has_bits m AND 2 \<noteq> 0"

definition PhoneNumber_clear_type :: "PhoneNumber_pb \<Rightarrow> PhoneNumber_pb" where
  "PhoneNumber_clear_type m = m\<lparr>pn_type := 2, pn_has_bits := pn_has_bits m AND NOT 2\<rparr>"

definition PhoneNumber_get_type :: "PhoneNumber_pb \<Rightarrow> int" where
  "PhoneNumber_get_type m = pn_type m"

definition PhoneNumber_set_type :: "int \<Rightarrow> PhoneNumber_pb \<Rightarrow> PhoneNumber_pb result" where
  "PhoneNumber_set_type v m =
     (if \<not> Person_PhoneType_IsValid v then Inl AssertFailure
      else let m = m\<lparr>pn_type := v\<rparr> in Inr (m\<lparr>pn_has_bits := pn_has_bits m OR 2\<rparr>))"

definition Person_has_name :: "Person_pb \<Rightarrow> bool" where
  "Person_has_name m \<longleftrightarrow> pp_has_bits m AND 1 \<noteq> 0"

definition Person_clear_name :: "Person_pb \<Rightarrow> Person_pb" where
  "Person_clear_name m = m\<lparr>pp_name := [], pp_has_bits := pp_has_bits m AND NOT 1\<rparr>"

definition Person_get_name :: "Person_pb \<Rightarrow> string" where
  "Person_get_name m = pp_name m"

definition Person_set_name :: "string \<Rightarrow> Person_pb \<Rightarrow> Person_pb" where
  "Person_set_name s m = m\<lparr>pp_has_bits := pp_has_bits m OR 1, pp_name := s\<rparr>"

definition Person_mutable_name :: "(string \<Rightarrow> string) \<Rightarrow> Person_pb \<Rightarrow> Person_pb" where
  "Person_mutable_name f m = m\<lparr>pp_has_bits := pp_has_bits m OR 1, pp_name := f (pp_name m)\<rparr>"

definition Person_release_name :: "Person_pb \<Rightarrow> Person_pb \<times> string option" where
  "Person_release_name m =
     (if pp_has_bits m AND 1 = 0 then (m, None)
      else (m\<lparr>pp_has_bits := pp_has_bits m AND NOT 1, pp_name := []\<rparr>, Some (pp_name m)))"

definition Person_set_allocated_name :: "string option \<Rightarrow> Person_pb \<Rightarrow> Person_pb" where
  "Person_set_allocated_name v m =
     (let m = (if v \<noteq> None then m\<lparr>pp_has_bits := pp_has_bits m OR 1\<rparr>
               else m\<lparr>pp_has_bits := pp_has_bits m AND NOT 1\<rparr>)
      in m\<lparr>pp_name := get_default [] v\<rparr>)"

definition Person_has_id :: "Person_pb \<Rightarrow> bool" where
  "Person_has_id m \<longleftrightarrow> pp_has_bits m AND 4 \<noteq> 0"

definition Person_clear_id :: "Person_pb \<Rightarrow> Person_pb" where
  "Person_clear_id m = m\<lparr>pp_id := 0, pp_has_bits := pp_has_bits m AND NOT 4\<rparr>"

definition Person_get_id :: "Person_pb \<Rightarrow> int" where
  "Person_get_id m = pp_id m"

definition Person_set_id :: "int \<Rightarrow> Person_pb \<Rightarrow> Person_pb" where
  "Person_set_id v m = (let m = m\<lparr>pp_id := v\<rparr> in m\<lparr>pp_has_bits := pp_has_bits m OR 4\<rparr>)"

definition Person_has_email :: "Person_pb \<Rightarrow> bool" where
  "Person_has_email m \<longleftrightarrow> pp_has_bits m AND 2 \<noteq> 0"

definition Person_clear_email :: "Person_pb \<Rightarrow> Person_pb" where
  "Person_clear_email m = m\<lparr>pp_email := [], pp_has_bits := pp_has_bits m AND NOT 2\<rparr>"

definition Person_get_email :: "Person_pb \<Rightarrow> string" where
  "Person_get_email m = pp_email m"

definition Person_set_email :: "string \<Rightarrow> Person_pb \<Rightarrow> Person_pb" where
  "Person_set_email s m = m\<lparr>pp_has_bits := pp_has_bits m OR 2, pp_email := s\<rparr>"

definition Person_mutable_email :: "(string \<Rightarrow> string) \<Rightarrow> Person_pb \<Rightarrow> Person_pb" where
  "Person_mutable_email f m = m\<lparr>pp_has_bits := pp_has_bits m OR 2, pp_email := f (pp_email m)\<rparr>"

definition Person_release_email :: "Person_pb \<Rightarrow> Person_pb \<times> string option" where
  "Person_release_email m =
     (if pp_has_bits m AND 2 = 0 then (m, None)
      else (m\<lparr>pp_has_bits := pp_has_bits m AND NOT 2, pp_email := []\<rparr>, Some (pp_email m)))"

definition Person_set_allocated_email :: "string option \<Rightarrow> Person_pb \<Rightarrow> Person_pb" where
  "Person_set_allocated_email v m =
     (let m = (if v \<noteq> None then m\<lparr>pp_has_bits := pp_has_bits m OR 2\<rparr>
               else m\<lparr>pp_has_bits := pp_has_bits m AND NOT 2\<rparr>)
      in m\<lparr>pp_email := get_default [] v\<rparr>)"

text \<open>A repeated field; \<open>add\<close> appends a new message and lets the caller fill it.\<close>

definition Person_phones_size :: "Person_pb \<Rightarrow> nat" where
  "Person_phones_size m = length (pp_phones m)"

definition Person_clear_phones :: "Person_pb \<Rightarrow> Person_pb" where
  "Person_clear_phones m = m\<lparr>pp_phones := []\<rparr>"

definition Person_get_phones :: "Person_pb \<Rightarrow> nat \<Rightarrow> PhoneNumber_pb result" where
  "Person_get_phones m i = (if i < length (pp_phones m) then Inr (pp_phones m ! i) else Inl OutOfBounds)"

definition Person_mutable_phones :: "nat \<Rightarrow> (PhoneNumber_pb \<Rightarrow> PhoneNumber_pb) \<Rightarrow> Person_pb \<Rightarrow> Person_pb result" where
  "Person_mutable_phones i f m =
     (if i < length (pp_phones m) then Inr (m\<lparr>pp_phones := (pp_phones m)[i := f (pp_phones m ! i)]\<rparr>)
      else Inl OutOfBounds)"

definition Person_add_phones :: "(PhoneNumber_pb \<Rightarrow> PhoneNumber_pb) \<Rightarrow> Person_pb \<Rightarrow> Person_pb" where
  "Person_add_phones f m = m\<lparr>pp_phones := pp_phones m @ [f PhoneNumber_new]\<rparr>"

definition AddressBook_people_size :: "AddressBook_pb \<Rightarrow> nat" where
  "AddressBook_people_size m = length (bk_people m)"

definition AddressBook_clear_people :: "AddressBook_pb \<Rightarrow> AddressBook_pb" where
  "AddressBook_clear_people m = m\<lparr>bk_people := []\<rparr>"

definition AddressBook_get_people :: "AddressBook_pb \<Rightarrow> nat \<Rightarrow> Person_pb result" where
  "AddressBook_get_people m i = (if i < length (bk_people m) then Inr (bk_people m ! i) else Inl OutOfBounds)"

definition AddressBook_mutable_people :: "nat \<Rightarrow> (Person_pb \<Rightarrow> Person_pb) \<Rightarrow> AddressBook_pb \<Rightarrow> AddressBook_pb result" where
  "AddressBook_mutable_people i f m =
     (if i < length (bk_people m) then Inr (m\<lparr>bk_people := (bk_people m)[i := f (bk_people m ! i)]\<rparr>)
      else Inl OutOfBounds)"

definition AddressBook_add_people :: "(Person_pb \<Rightarrow> Person_pb) \<Rightarrow> AddressBook_pb \<Rightarrow> AddressBook_pb" where
  "AddressBook_add_people f m = m\<lparr>bk_people := bk_people m @ [f Person_new]\<rparr>"

section \<open>Clearing\<close>

definition PhoneNumber_Clear :: "PhoneNumber_pb \<Rightarrow> PhoneNumber_pb" where
  "PhoneNumber_Clear m =
     (let cached_has_bits = pn_has_bits m;
          m = (if cached_has_bits AND 3 \<noteq> 0
               then (if cached_has_bits AND 1 \<noteq> 0 then m\<lparr>pn_number := []\<rparr> else m)\<lparr>pn_type := 2\<rparr>
               else m)
      in m\<lparr>pn_has_bits := 0, pn_unknown := []\<rparr>)"

definition Person_Clear :: "Person_pb \<Rightarrow> Person_pb" where
  "Person_Clear m =
     (let m = m\<lparr>pp_phones := []\<rparr>;
          cached_has_bits = pp_has_bits m;
          m = (if cached_has_bits AND 3 \<noteq> 0
               then let m = (if cached_has_bits AND 1 \<noteq> 0 then m\<lparr>pp_name := []\<rparr> else m)
                    in (if cached_has_bits AND 2 \<noteq> 0 then m\<lparr>pp_email := []\<rparr> else m)
               else m)
      in m\<lparr>pp_id := 0, pp_has_bits := 0, pp_unknown := []\<rparr>)"

definition AddressBook_Clear :: "AddressBook_pb \<Rightarrow> AddressBook_pb" where
  "AddressBook_Clear m = m\<lparr>bk_people := [], bk_unknown := []\<rparr>"

section \<open>Sizes\<close>

text \<open>
  The library's size functions: the length of a varint, of a string or message with
  its length in front, and of a sign-extended 32-bit value. \<^verbatim>\<open>ByteSizeLong\<close> returns the size
  and remembers it in \<^verbatim>\<open>_cached_size_\<close>, for the message and every message in it.
\<close>

definition varint_size :: "nat \<Rightarrow> nat" where
  "varint_size n = length (enc_varint n)"

definition sign_extended :: "int \<Rightarrow> nat" where
  "sign_extended i = nat (i mod 2 ^ 64)"

definition StringSize :: "string \<Rightarrow> nat" where
  "StringSize s = varint_size (length s) + length s"

definition PhoneNumber_ByteSizeLong :: "PhoneNumber_pb \<Rightarrow> nat \<times> PhoneNumber_pb" where
  "PhoneNumber_ByteSizeLong m =
     (let total_size = 0;
          cached_has_bits = pn_has_bits m;
          total_size =
            (if cached_has_bits AND 3 \<noteq> 0
             then let total_size = (if cached_has_bits AND 1 \<noteq> 0
                                    then total_size + (1 + StringSize (pn_number m)) else total_size)
                  in (if cached_has_bits AND 2 \<noteq> 0
                      then total_size + (1 + varint_size (sign_extended (pn_type m))) else total_size)
             else total_size);
          total_size = total_size + length (pn_unknown m)
      in (total_size, m\<lparr>pn_cached_size := total_size\<rparr>))"

text \<open>The loop over a repeated message field, with the size function of its class.\<close>

fun repeated_size :: "('m \<Rightarrow> nat \<times> 'm) \<Rightarrow> 'm list \<Rightarrow> nat \<Rightarrow> nat \<times> 'm list" where
  "repeated_size byte_size [] total_size = (total_size, [])"
| "repeated_size byte_size (m # ms) total_size =
     (let (n, m') = byte_size m;
          (total_size, ms') = repeated_size byte_size ms (total_size + (varint_size n + n))
      in (total_size, m' # ms'))"

definition Person_ByteSizeLong :: "Person_pb \<Rightarrow> nat \<times> Person_pb" where
  "Person_ByteSizeLong m =
     (let total_size = 1 * Person_phones_size m;
          (total_size, phs) = repeated_size PhoneNumber_ByteSizeLong (pp_phones m) total_size;
          m = m\<lparr>pp_phones := phs\<rparr>;
          cached_has_bits = pp_has_bits m;
          total_size =
            (if cached_has_bits AND 7 \<noteq> 0
             then let total_size = (if cached_has_bits AND 1 \<noteq> 0
                                    then total_size + (1 + StringSize (pp_name m)) else total_size);
                      total_size = (if cached_has_bits AND 2 \<noteq> 0
                                    then total_size + (1 + StringSize (pp_email m)) else total_size)
                  in (if cached_has_bits AND 4 \<noteq> 0
                      then total_size + (1 + varint_size (sign_extended (pp_id m))) else total_size)
             else total_size);
          total_size = total_size + length (pp_unknown m)
      in (total_size, m\<lparr>pp_cached_size := total_size\<rparr>))"

definition AddressBook_ByteSizeLong :: "AddressBook_pb \<Rightarrow> nat \<times> AddressBook_pb" where
  "AddressBook_ByteSizeLong m =
     (let total_size = 1 * AddressBook_people_size m;
          (total_size, ps) = repeated_size Person_ByteSizeLong (bk_people m) total_size;
          total_size = total_size + length (bk_unknown m)
      in (total_size, m\<lparr>bk_people := ps, bk_cached_size := total_size\<rparr>))"

section \<open>Serialising\<close>

text \<open>
  The length in front of a message in a message is its cached size, not the length of
  what is written. \<open>target\<close> is what has been written so far.
\<close>

definition WriteString :: "nat \<Rightarrow> string \<Rightarrow> bytes \<Rightarrow> bytes" where
  "WriteString k s target = target @ enc_field (k, Len (bytes_of_string s))"

definition WriteVarint :: "nat \<Rightarrow> int \<Rightarrow> bytes \<Rightarrow> bytes" where
  "WriteVarint k i target = target @ enc_field (k, Varint (sign_extended i))"

definition WriteMessageStart :: "nat \<Rightarrow> nat \<Rightarrow> bytes \<Rightarrow> bytes" where
  "WriteMessageStart k cached_size target = target @ enc_varint (8 * k + 2) @ enc_varint cached_size"

definition PhoneNumber_serialize :: "PhoneNumber_pb \<Rightarrow> bytes \<Rightarrow> bytes" where
  "PhoneNumber_serialize m target =
     (let cached_has_bits = pn_has_bits m;
          target = (if cached_has_bits AND 1 \<noteq> 0 then WriteString 1 (pn_number m) target else target);
          target = (if cached_has_bits AND 2 \<noteq> 0 then WriteVarint 2 (pn_type m) target else target)
      in if pn_unknown m \<noteq> [] then target @ pn_unknown m else target)"

text \<open>The loop over a repeated message field \<open>k\<close>.\<close>

fun repeated_serialize :: "('m \<Rightarrow> nat) \<Rightarrow> ('m \<Rightarrow> bytes \<Rightarrow> bytes) \<Rightarrow> nat \<Rightarrow> 'm list \<Rightarrow> bytes \<Rightarrow> bytes" where
  "repeated_serialize cached ser k [] target = target"
| "repeated_serialize cached ser k (m # ms) target =
     repeated_serialize cached ser k ms (ser m (WriteMessageStart k (cached m) target))"

definition Person_serialize :: "Person_pb \<Rightarrow> bytes \<Rightarrow> bytes" where
  "Person_serialize m target =
     (let cached_has_bits = pp_has_bits m;
          target = (if cached_has_bits AND 1 \<noteq> 0 then WriteString 1 (pp_name m) target else target);
          target = (if cached_has_bits AND 4 \<noteq> 0 then WriteVarint 2 (pp_id m) target else target);
          target = (if cached_has_bits AND 2 \<noteq> 0 then WriteString 3 (pp_email m) target else target);
          target = repeated_serialize pn_cached_size PhoneNumber_serialize 4 (pp_phones m) target
      in if pp_unknown m \<noteq> [] then target @ pp_unknown m else target)"

definition AddressBook_serialize :: "AddressBook_pb \<Rightarrow> bytes \<Rightarrow> bytes" where
  "AddressBook_serialize m target =
     (let target = repeated_serialize pp_cached_size Person_serialize 1 (bk_people m) target
      in if bk_unknown m \<noteq> [] then target @ bk_unknown m else target)"

section \<open>Merging, copying, swapping\<close>

definition PhoneNumber_MergeImpl :: "PhoneNumber_pb \<Rightarrow> PhoneNumber_pb \<Rightarrow> PhoneNumber_pb" where
  "PhoneNumber_MergeImpl m from_msg =
     (let cached_has_bits = pn_has_bits from_msg;
          m = (if cached_has_bits AND 3 \<noteq> 0
               then let m = (if cached_has_bits AND 1 \<noteq> 0
                             then PhoneNumber_set_number (pn_number from_msg) m else m)
                    in (if cached_has_bits AND 2 \<noteq> 0 then m\<lparr>pn_type := pn_type from_msg\<rparr> else m)
               else m)
      in m\<lparr>pn_has_bits := pn_has_bits m OR cached_has_bits, pn_unknown := pn_unknown m @ pn_unknown from_msg\<rparr>)"

text \<open>Merging a repeated field merges each message of the source into a new one.\<close>

definition phone_copy :: "PhoneNumber_pb \<Rightarrow> PhoneNumber_pb" where
  "phone_copy ph = PhoneNumber_MergeImpl PhoneNumber_new ph"

definition Person_MergeImpl :: "Person_pb \<Rightarrow> Person_pb \<Rightarrow> Person_pb" where
  "Person_MergeImpl m from_msg =
     (let m = m\<lparr>pp_phones := pp_phones m @ map phone_copy (pp_phones from_msg)\<rparr>;
          cached_has_bits = pp_has_bits from_msg;
          m = (if cached_has_bits AND 7 \<noteq> 0
               then let m = (if cached_has_bits AND 1 \<noteq> 0 then Person_set_name (pp_name from_msg) m else m);
                        m = (if cached_has_bits AND 2 \<noteq> 0 then Person_set_email (pp_email from_msg) m else m)
                    in (if cached_has_bits AND 4 \<noteq> 0 then m\<lparr>pp_id := pp_id from_msg\<rparr> else m)
               else m)
      in m\<lparr>pp_has_bits := pp_has_bits m OR cached_has_bits, pp_unknown := pp_unknown m @ pp_unknown from_msg\<rparr>)"

definition person_copy :: "Person_pb \<Rightarrow> Person_pb" where
  "person_copy p = Person_MergeImpl Person_new p"

definition AddressBook_MergeImpl :: "AddressBook_pb \<Rightarrow> AddressBook_pb \<Rightarrow> AddressBook_pb" where
  "AddressBook_MergeImpl m from_msg =
     m\<lparr>bk_people := bk_people m @ map person_copy (bk_people from_msg), bk_unknown := bk_unknown m @ bk_unknown from_msg\<rparr>"

text \<open>\<open>same\<close>: the source and the target of the copy are one object.\<close>

definition PhoneNumber_CopyFrom :: "bool \<Rightarrow> PhoneNumber_pb \<Rightarrow> PhoneNumber_pb \<Rightarrow> PhoneNumber_pb" where
  "PhoneNumber_CopyFrom same m from_msg = (if same then m else PhoneNumber_MergeImpl (PhoneNumber_Clear m) from_msg)"

definition Person_CopyFrom :: "bool \<Rightarrow> Person_pb \<Rightarrow> Person_pb \<Rightarrow> Person_pb" where
  "Person_CopyFrom same m from_msg = (if same then m else Person_MergeImpl (Person_Clear m) from_msg)"

definition AddressBook_CopyFrom :: "bool \<Rightarrow> AddressBook_pb \<Rightarrow> AddressBook_pb \<Rightarrow> AddressBook_pb" where
  "AddressBook_CopyFrom same m from_msg = (if same then m else AddressBook_MergeImpl (AddressBook_Clear m) from_msg)"

text \<open>The copy constructors. Members are copied, whether the field is set or not.\<close>

definition PhoneNumber_from :: "PhoneNumber_pb \<Rightarrow> PhoneNumber_pb" where
  "PhoneNumber_from from_msg =
     \<lparr>pn_has_bits = pn_has_bits from_msg, pn_cached_size = 0, pn_number = pn_number from_msg,
      pn_type = pn_type from_msg, pn_unknown = pn_unknown from_msg\<rparr>"

definition Person_from :: "Person_pb \<Rightarrow> Person_pb" where
  "Person_from from_msg =
     \<lparr>pp_has_bits = pp_has_bits from_msg, pp_cached_size = 0, pp_phones = map phone_copy (pp_phones from_msg),
      pp_name = pp_name from_msg, pp_email = pp_email from_msg, pp_id = pp_id from_msg, pp_unknown = pp_unknown from_msg\<rparr>"

definition AddressBook_from :: "AddressBook_pb \<Rightarrow> AddressBook_pb" where
  "AddressBook_from from_msg =
     \<lparr>bk_people = map person_copy (bk_people from_msg), bk_cached_size = 0, bk_unknown = bk_unknown from_msg\<rparr>"

definition PhoneNumber_InternalSwap :: "PhoneNumber_pb \<times> PhoneNumber_pb \<Rightarrow> PhoneNumber_pb \<times> PhoneNumber_pb" where
  "PhoneNumber_InternalSwap = (\<lambda>(a, b).
     (a\<lparr>pn_unknown := pn_unknown b, pn_has_bits := pn_has_bits b, pn_number := pn_number b, pn_type := pn_type b\<rparr>,
      b\<lparr>pn_unknown := pn_unknown a, pn_has_bits := pn_has_bits a, pn_number := pn_number a, pn_type := pn_type a\<rparr>))"

definition Person_InternalSwap :: "Person_pb \<times> Person_pb \<Rightarrow> Person_pb \<times> Person_pb" where
  "Person_InternalSwap = (\<lambda>(a, b).
     (a\<lparr>pp_unknown := pp_unknown b, pp_has_bits := pp_has_bits b, pp_phones := pp_phones b,
        pp_name := pp_name b, pp_email := pp_email b, pp_id := pp_id b\<rparr>,
      b\<lparr>pp_unknown := pp_unknown a, pp_has_bits := pp_has_bits a, pp_phones := pp_phones a,
        pp_name := pp_name a, pp_email := pp_email a, pp_id := pp_id a\<rparr>))"

definition AddressBook_InternalSwap :: "AddressBook_pb \<times> AddressBook_pb \<Rightarrow> AddressBook_pb \<times> AddressBook_pb" where
  "AddressBook_InternalSwap = (\<lambda>(a, b).
     (a\<lparr>bk_unknown := bk_unknown b, bk_people := bk_people b\<rparr>,
      b\<lparr>bk_unknown := bk_unknown a, bk_people := bk_people a\<rparr>))"

section \<open>Presence bits\<close>

lemma bit_masks:
  "bit (1 :: u32) n \<longleftrightarrow> n = 0" "bit (2 :: u32) n \<longleftrightarrow> n = 1" "bit (4 :: u32) n \<longleftrightarrow> n = 2"
  "bit (3 :: u32) n \<longleftrightarrow> n = 0 \<or> n = 1" "bit (7 :: u32) n \<longleftrightarrow> n = 0 \<or> n = 1 \<or> n = 2"
proof -
  have exp: "bit ((2 :: u32) ^ k) n \<longleftrightarrow> n = k" if "k < 32" for k
    using that by (auto simp: bit_exp_iff)
  have mask: "bit (mask k :: u32) n \<longleftrightarrow> n < k" if "k < 32" for k
    using that by (auto simp: bit_mask_iff)
  show "bit (1 :: u32) n \<longleftrightarrow> n = 0" "bit (2 :: u32) n \<longleftrightarrow> n = 1" "bit (4 :: u32) n \<longleftrightarrow> n = 2"
    using exp [of 0] exp [of 1] exp [of 2] by simp_all
  show "bit (3 :: u32) n \<longleftrightarrow> n = 0 \<or> n = 1"
    using mask [of 2] by (auto simp: mask_eq_exp_minus_1)
  show "bit (7 :: u32) n \<longleftrightarrow> n = 0 \<or> n = 1 \<or> n = 2"
    using mask [of 3] by (auto simp: mask_eq_exp_minus_1)
qed

lemma and_eq_0_iff: "(w :: u32) AND v = 0 \<longleftrightarrow> (\<forall>n. \<not> (bit w n \<and> bit v n))"
proof
  assume "w AND v = 0"
  then have "\<not> bit (w AND v) n" for n by simp
  then show "\<forall>n. \<not> (bit w n \<and> bit v n)" by (simp add: bit_and_iff)
next
  assume "\<forall>n. \<not> (bit w n \<and> bit v n)"
  then show "w AND v = 0" by (intro bit_eqI) (simp add: bit_and_iff)
qed

lemma and_masks [simp]:
  fixes w :: u32
  shows "w AND 1 = 0 \<longleftrightarrow> \<not> bit w 0" "w AND 2 = 0 \<longleftrightarrow> \<not> bit w 1" "w AND 4 = 0 \<longleftrightarrow> \<not> bit w 2"
    "w AND 3 = 0 \<longleftrightarrow> \<not> bit w 0 \<and> \<not> bit w 1" "w AND 7 = 0 \<longleftrightarrow> \<not> bit w 0 \<and> \<not> bit w 1 \<and> \<not> bit w 2"
  unfolding and_eq_0_iff bit_masks by (metis, metis, metis, metis, metis)

text \<open>
  The rules by which presence bits are computed; \<open>NOT 1\<close> and its like are written as the
  simplifier writes them.
\<close>

lemma bit_updates [simp]:
  fixes w :: u32
  shows "bit (w OR 1) n \<longleftrightarrow> bit w n \<or> n = 0" "bit (w OR 2) n \<longleftrightarrow> bit w n \<or> n = 1" "bit (w OR 4) n \<longleftrightarrow> bit w n \<or> n = 2"
    "bit (w OR v) n \<longleftrightarrow> bit w n \<or> bit v n"
  unfolding bit_or_iff bit_masks by (rule refl)+

lemma bit_clears [simp]:
  fixes w :: u32
  shows "bit (w AND - 2) n \<longleftrightarrow> bit w n \<and> n \<noteq> 0" "bit (w AND - 3) n \<longleftrightarrow> bit w n \<and> n \<noteq> 1"
    "bit (w AND - 5) n \<longleftrightarrow> bit w n \<and> n \<noteq> 2"
proof -
  have clear: "bit (w AND NOT v) n \<longleftrightarrow> bit w n \<and> \<not> bit v n" for v :: u32
    by (auto simp: bit_and_iff bit_not_iff possible_bit_def dest: bit_imp_le_length)
  have "(- 2 :: u32) = NOT 1" "(- 3 :: u32) = NOT 2" "(- 5 :: u32) = NOT 4"
    by simp_all
  then show "bit (w AND - 2) n \<longleftrightarrow> bit w n \<and> n \<noteq> 0" "bit (w AND - 3) n \<longleftrightarrow> bit w n \<and> n \<noteq> 1"
    "bit (w AND - 5) n \<longleftrightarrow> bit w n \<and> n \<noteq> 2"
    by (simp_all only: clear bit_masks)
qed

section \<open>Abstraction\<close>

definition PhoneType_of_int :: "int \<Rightarrow> PhoneType option" where
  "PhoneType_of_int i = PhoneType_of (word_of_int i)"

definition phone_abs :: "PhoneNumber_pb \<Rightarrow> PhoneNumber" where
  "phone_abs m =
     \<lparr>ph_number = (if bit (pn_has_bits m) 0 then Some (pn_number m) else None),
      ph_type = (if bit (pn_has_bits m) 1 then PhoneType_of_int (pn_type m) else None)\<rparr>"

definition person_abs :: "Person_pb \<Rightarrow> Person" where
  "person_abs m =
     \<lparr>p_name = (if bit (pp_has_bits m) 0 then Some (pp_name m) else None),
      p_id = (if bit (pp_has_bits m) 2 then Some (pp_id m) else None),
      p_email = (if bit (pp_has_bits m) 1 then Some (pp_email m) else None),
      phones = map phone_abs (pp_phones m)\<rparr>"

definition book_abs :: "AddressBook_pb \<Rightarrow> AddressBook" where
  "book_abs m = \<lparr>people = map person_abs (bk_people m)\<rparr>"

text \<open>
  The invariant of a message: an unset field holds its default, which the getters return
  without looking at the presence bits, a set phone type is an enumerator, and an id
  is a 32-bit integer.
\<close>

definition phone_inv :: "PhoneNumber_pb \<Rightarrow> bool" where
  "phone_inv m \<longleftrightarrow> (\<not> bit (pn_has_bits m) 0 \<longrightarrow> pn_number m = []) \<and>
     (\<not> bit (pn_has_bits m) 1 \<longrightarrow> pn_type m = 2) \<and> Person_PhoneType_IsValid (pn_type m)"

definition person_inv :: "Person_pb \<Rightarrow> bool" where
  "person_inv m \<longleftrightarrow> (\<not> bit (pp_has_bits m) 0 \<longrightarrow> pp_name m = []) \<and>
     (\<not> bit (pp_has_bits m) 1 \<longrightarrow> pp_email m = []) \<and> (\<not> bit (pp_has_bits m) 2 \<longrightarrow> pp_id m = 0) \<and>
     - int_max - 1 \<le> pp_id m \<and> pp_id m \<le> int_max \<and> list_all phone_inv (pp_phones m)"

lemma valid_types: "Person_PhoneType_IsValid v \<longleftrightarrow> v = 0 \<or> v = 1 \<or> v = 2 \<or> v = 3"
  by (auto simp: Person_PhoneType_IsValid_def)

lemma PhoneType_of_int_valid:
  "Person_PhoneType_IsValid v \<Longrightarrow> \<exists>t. PhoneType_of_int v = Some t \<and> PhoneType_number t = word_of_int v"
  by (auto simp: valid_types PhoneType_of_int_def PhoneType_of_def)

section \<open>The accessors\<close>

lemmas phone_accessors =
  PhoneNumber_has_number_def PhoneNumber_clear_number_def PhoneNumber_get_number_def
  PhoneNumber_set_number_def PhoneNumber_mutable_number_def PhoneNumber_release_number_def
  PhoneNumber_set_allocated_number_def PhoneNumber_has_type_def PhoneNumber_clear_type_def
  PhoneNumber_get_type_def PhoneNumber_set_type_def

lemmas person_accessors =
  Person_has_name_def Person_clear_name_def Person_get_name_def Person_set_name_def
  Person_mutable_name_def Person_release_name_def Person_set_allocated_name_def
  Person_has_email_def Person_clear_email_def Person_get_email_def Person_set_email_def
  Person_mutable_email_def Person_release_email_def Person_set_allocated_email_def
  Person_has_id_def Person_clear_id_def Person_get_id_def Person_set_id_def
  Person_phones_size_def Person_clear_phones_def Person_get_phones_def Person_mutable_phones_def
  Person_add_phones_def

lemma phone_has_abs:
  "PhoneNumber_has_number m \<longleftrightarrow> ph_number (phone_abs m) \<noteq> None"
  "phone_inv m \<Longrightarrow> PhoneNumber_has_type m \<longleftrightarrow> ph_type (phone_abs m) \<noteq> None"
  "phone_inv m \<Longrightarrow> PhoneNumber_get_number m = get_default [] (ph_number (phone_abs m))"
  "phone_inv m \<Longrightarrow> PhoneType_of_int (PhoneNumber_get_type m) = Some (phone_type (phone_abs m))"
  using PhoneType_of_int_valid [of "pn_type m"]
  by (auto simp: phone_accessors phone_abs_def phone_inv_def get_default_def phone_type_def
      PhoneType_of_int_def PhoneType_of_def)

lemma phone_set_abs:
  "phone_abs (PhoneNumber_set_number s m) = (phone_abs m)\<lparr>ph_number := Some s\<rparr>"
  "phone_abs (PhoneNumber_clear_number m) = (phone_abs m)\<lparr>ph_number := None\<rparr>"
  "phone_abs (PhoneNumber_clear_type m) = (phone_abs m)\<lparr>ph_type := None\<rparr>"
  "PhoneNumber_set_type v m = Inr m' \<Longrightarrow> phone_abs m' = (phone_abs m)\<lparr>ph_type := PhoneType_of_int v\<rparr>"
  "phone_inv m \<Longrightarrow> phone_abs (PhoneNumber_mutable_number f m)
     = (phone_abs m)\<lparr>ph_number := Some (f (get_default [] (ph_number (phone_abs m))))\<rparr>"
  "phone_abs (fst (PhoneNumber_release_number m)) = (phone_abs m)\<lparr>ph_number := None\<rparr>"
  "snd (PhoneNumber_release_number m) = ph_number (phone_abs m)"
  "phone_abs (PhoneNumber_set_allocated_number x m) = (phone_abs m)\<lparr>ph_number := x\<rparr>"
  by (auto simp: phone_accessors phone_abs_def phone_inv_def get_default_def Let_def
      split: if_splits option.splits)

lemma person_has_abs:
  "Person_has_name m \<longleftrightarrow> p_name (person_abs m) \<noteq> None"
  "Person_has_email m \<longleftrightarrow> p_email (person_abs m) \<noteq> None"
  "Person_has_id m \<longleftrightarrow> p_id (person_abs m) \<noteq> None"
  "person_inv m \<Longrightarrow> Person_get_name m = get_default [] (p_name (person_abs m))"
  "person_inv m \<Longrightarrow> Person_get_email m = get_default [] (p_email (person_abs m))"
  "person_inv m \<Longrightarrow> Person_get_id m = get_default 0 (p_id (person_abs m))"
  "Person_phones_size m = length (phones (person_abs m))"
  by (auto simp: person_accessors person_abs_def person_inv_def get_default_def)

lemma person_set_abs:
  "person_abs (Person_set_name s m) = (person_abs m)\<lparr>p_name := Some s\<rparr>"
  "person_abs (Person_clear_name m) = (person_abs m)\<lparr>p_name := None\<rparr>"
  "person_abs (Person_set_email s m) = (person_abs m)\<lparr>p_email := Some s\<rparr>"
  "person_abs (Person_clear_email m) = (person_abs m)\<lparr>p_email := None\<rparr>"
  "person_abs (Person_set_id v m) = (person_abs m)\<lparr>p_id := Some v\<rparr>"
  "person_abs (Person_clear_id m) = (person_abs m)\<lparr>p_id := None\<rparr>"
  "person_inv m \<Longrightarrow> person_abs (Person_mutable_name f m)
     = (person_abs m)\<lparr>p_name := Some (f (get_default [] (p_name (person_abs m))))\<rparr>"
  "person_inv m \<Longrightarrow> person_abs (Person_mutable_email f m)
     = (person_abs m)\<lparr>p_email := Some (f (get_default [] (p_email (person_abs m))))\<rparr>"
  "person_abs (fst (Person_release_name m)) = (person_abs m)\<lparr>p_name := None\<rparr>"
  "person_abs (fst (Person_release_email m)) = (person_abs m)\<lparr>p_email := None\<rparr>"
  "snd (Person_release_name m) = p_name (person_abs m)"
  "snd (Person_release_email m) = p_email (person_abs m)"
  "person_abs (Person_set_allocated_name x m) = (person_abs m)\<lparr>p_name := x\<rparr>"
  "person_abs (Person_set_allocated_email x m) = (person_abs m)\<lparr>p_email := x\<rparr>"
  "person_abs (Person_clear_phones m) = (person_abs m)\<lparr>phones := []\<rparr>"
  "person_abs (Person_add_phones g m)
     = (person_abs m)\<lparr>phones := phones (person_abs m) @ [phone_abs (g PhoneNumber_new)]\<rparr>"
  by (auto simp: person_accessors person_abs_def person_inv_def get_default_def Let_def
      split: if_splits option.splits)

end
