(* ===== verification/Addressbook_Pb_Wire.thy ===== *)
theory Addressbook_Pb_Wire
  imports Addressbook_Pb
begin

text \<open>
  What the generated message classes of theory \<open>Addressbook_Pb\<close> guarantee: every message built
  with their operations satisfies its invariant, the bytes written after a size
  computation are the wire format of the message and as many as the size says, and
  merging two messages is parsing one after the other.
\<close>

declare bit_masks [simp] bit_numeral_word_iff [simp del]

section \<open>Messages with a cached size\<close>

text \<open>
  What the class of a message needs of the class of a message inside it: the size
  function returns the length of the bytes of the message and caches it, and serialising
  the message it has cached appends these bytes. The loops over repeated fields do the
  same for the fields of all the messages.
\<close>

definition msg_field :: "nat \<Rightarrow> bytes \<Rightarrow> bytes" where
  "msg_field k bs = enc_field (k, Len bs)"

lemma small_tag: "n < 128 \<Longrightarrow> length (enc_varint n) = 1"
  by (simp add: enc_varint.simps)

locale sized_message =
  fixes byte_size :: "'m \<Rightarrow> nat \<times> 'm" and ser :: "'m \<Rightarrow> bytes \<Rightarrow> bytes" and cached :: "'m \<Rightarrow> nat"
    and msg_bytes :: "'m \<Rightarrow> bytes"
  assumes size_bytes: "fst (byte_size m) = length (msg_bytes m)"
    and size_cached: "cached (snd (byte_size m)) = length (msg_bytes m)"
    and ser_sized: "ser (snd (byte_size m)) t = t @ msg_bytes m"
begin

lemma repeated_sized: "snd (repeated_size byte_size ms n) = map (\<lambda>m. snd (byte_size m)) ms"
  by (induction ms arbitrary: n) (simp_all add: case_prod_beta Let_def)

lemma repeated_size_bytes:
  "k < 15 \<Longrightarrow> fst (repeated_size byte_size ms (n + length ms))
    = n + length (concat (map (\<lambda>m. msg_field k (msg_bytes m)) ms))"
proof (induction ms arbitrary: n)
  case (Cons m ms)
  let ?s = "varint_size (length (msg_bytes m)) + length (msg_bytes m)"
  have "length (msg_field k (msg_bytes m)) = 1 + ?s"
    using Cons.prems by (simp add: msg_field_def varint_size_def small_tag)
  then show ?case
    using Cons.IH [of "n + (1 + ?s)"] Cons.prems
    by (simp add: case_prod_beta Let_def size_bytes ac_simps)
qed simp

lemma repeated_ser_sized:
  "repeated_serialize cached ser k (snd (repeated_size byte_size ms n)) t
    = t @ concat (map (\<lambda>m. msg_field k (msg_bytes m)) ms)"
  unfolding repeated_sized
  by (induction ms arbitrary: t) (simp_all add: size_cached ser_sized WriteMessageStart_def msg_field_def)

end

section \<open>Sizes and bytes of a phone number\<close>

lemma enc_fields_simps [simp]:
  "enc_fields [] = []" "enc_fields (f # fs) = enc_field f @ enc_fields fs"
  by (simp_all add: enc_fields_def)

lemma Write_simps:
  "WriteString k s t = t @ enc_fields (put_string k (Some s))"
  "WriteVarint k i t = t @ enc_fields (put_int k (Some i))"
  by (simp_all add: WriteString_def WriteVarint_def put_string_def put_int_def sign_extended_def)

lemma field_sizes:
  "k < 15 \<Longrightarrow> length (enc_fields (put_string k (Some s))) = 1 + StringSize s"
  "k < 15 \<Longrightarrow> length (enc_fields (put_int k (Some i))) = 1 + varint_size (sign_extended i)"
  by (simp_all add: put_string_def put_int_def StringSize_def varint_size_def sign_extended_def small_tag)

lemma put_None [simp]: "put_string k None = []" "put_int k None = []" "put_u32 k None = []"
  by (simp_all add: put_string_def put_int_def put_u32_def)

text \<open>The fields of a message as its presence bits select them, with the type as its number.\<close>

definition opt_bit :: "u32 \<Rightarrow> nat \<Rightarrow> 'a \<Rightarrow> 'a option" where
  "opt_bit w n x = (if bit w n then Some x else None)"

definition phone_fields_pb :: "PhoneNumber_pb \<Rightarrow> wire_field list" where
  "phone_fields_pb m =
     put_string 1 (opt_bit (pn_has_bits m) 0 (pn_number m)) @ put_int 2 (opt_bit (pn_has_bits m) 1 (pn_type m))"

lemma phone_serialize_fields:
  "PhoneNumber_serialize m t = t @ enc_fields (phone_fields_pb m) @ pn_unknown m"
  by (simp add: PhoneNumber_serialize_def phone_fields_pb_def Write_simps opt_bit_def Let_def)

lemma phone_size: "fst (PhoneNumber_ByteSizeLong m) = length (PhoneNumber_serialize m [])"
  by (simp add: phone_serialize_fields PhoneNumber_ByteSizeLong_def phone_fields_pb_def opt_bit_def
      field_sizes Let_def)

lemma phone_size_keeps:
  "PhoneNumber_serialize (snd (PhoneNumber_ByteSizeLong m)) t = PhoneNumber_serialize m t"
  "phone_abs (snd (PhoneNumber_ByteSizeLong m)) = phone_abs m"
  "phone_inv (snd (PhoneNumber_ByteSizeLong m)) = phone_inv m"
  "pn_unknown (snd (PhoneNumber_ByteSizeLong m)) = pn_unknown m"
  "pn_cached_size (snd (PhoneNumber_ByteSizeLong m)) = fst (PhoneNumber_ByteSizeLong m)"
  by (simp_all add: PhoneNumber_ByteSizeLong_def PhoneNumber_serialize_def phone_abs_def phone_inv_def Let_def)

lemma phone_fields_abs: "phone_inv m \<Longrightarrow> phone_fields_pb m = PhoneNumber_fields (phone_abs m)"
  by (auto simp: phone_fields_pb_def PhoneNumber_fields_def phone_abs_def phone_inv_def opt_bit_def valid_types
      PhoneType_of_int_def PhoneType_of_def put_int_def put_u32_def)

interpretation phone: sized_message PhoneNumber_ByteSizeLong PhoneNumber_serialize pn_cached_size
  "\<lambda>m. PhoneNumber_serialize m []"
proof unfold_locales
  fix m t
  show "PhoneNumber_serialize (snd (PhoneNumber_ByteSizeLong m)) t = t @ PhoneNumber_serialize m []"
    by (simp add: phone_size_keeps) (simp add: phone_serialize_fields)
qed (simp_all add: phone_size phone_size_keeps)

section \<open>Sizes and bytes of a person\<close>

definition person_fields_pb :: "Person_pb \<Rightarrow> wire_field list" where
  "person_fields_pb m = put_string 1 (opt_bit (pp_has_bits m) 0 (pp_name m))
     @ put_int 2 (opt_bit (pp_has_bits m) 2 (pp_id m)) @ put_string 3 (opt_bit (pp_has_bits m) 1 (pp_email m))"

definition person_bytes :: "Person_pb \<Rightarrow> bytes" where
  "person_bytes m = enc_fields (person_fields_pb m)
     @ concat (map (\<lambda>ph. msg_field 4 (PhoneNumber_serialize ph [])) (pp_phones m)) @ pp_unknown m"

lemma Person_serialize_fields:
  "Person_serialize m t
    = repeated_serialize pn_cached_size PhoneNumber_serialize 4 (pp_phones m) (t @ enc_fields (person_fields_pb m))
      @ pp_unknown m"
  by (simp add: Person_serialize_def person_fields_pb_def Write_simps opt_bit_def Let_def)

lemma Person_sized:
  "snd (Person_ByteSizeLong m)
    = m\<lparr>pp_phones := snd (repeated_size PhoneNumber_ByteSizeLong (pp_phones m) (length (pp_phones m))),
        pp_cached_size := fst (Person_ByteSizeLong m)\<rparr>"
  by (simp add: Person_ByteSizeLong_def Person_phones_size_def case_prod_beta Let_def)

lemma person_size: "fst (Person_ByteSizeLong m) = length (person_bytes m)"
  using phone.repeated_size_bytes [of 4 "pp_phones m" 0]
  by (simp add: Person_ByteSizeLong_def Person_phones_size_def person_bytes_def person_fields_pb_def opt_bit_def
      field_sizes case_prod_beta Let_def)

interpretation person: sized_message Person_ByteSizeLong Person_serialize pp_cached_size person_bytes
proof unfold_locales
  fix m t
  show "Person_serialize (snd (Person_ByteSizeLong m)) t = t @ person_bytes m"
    by (simp add: Person_sized Person_serialize_fields person_fields_pb_def phone.repeated_ser_sized person_bytes_def)
qed (simp_all add: person_size Person_sized)

section \<open>Sizes and bytes of a book\<close>

definition book_bytes :: "AddressBook_pb \<Rightarrow> bytes" where
  "book_bytes m = concat (map (\<lambda>p. msg_field 1 (person_bytes p)) (bk_people m)) @ bk_unknown m"

lemma book_size: "fst (AddressBook_ByteSizeLong m) = length (book_bytes m)"
  using person.repeated_size_bytes [of 1 "bk_people m" 0]
  by (simp add: AddressBook_ByteSizeLong_def AddressBook_people_size_def book_bytes_def case_prod_beta Let_def)

interpretation book: sized_message AddressBook_ByteSizeLong AddressBook_serialize bk_cached_size book_bytes
proof unfold_locales
  fix m t
  show "AddressBook_serialize (snd (AddressBook_ByteSizeLong m)) t = t @ book_bytes m"
    by (simp add: AddressBook_ByteSizeLong_def AddressBook_serialize_def AddressBook_people_size_def
        person.repeated_ser_sized book_bytes_def case_prod_beta Let_def)
  show "bk_cached_size (snd (AddressBook_ByteSizeLong m)) = length (book_bytes m)"
    using book_size [of m] by (simp add: AddressBook_ByteSizeLong_def case_prod_beta Let_def)
qed (rule book_size)

section \<open>The bytes are the wire format\<close>

definition no_unknown :: "AddressBook_pb \<Rightarrow> bool" where
  "no_unknown b \<longleftrightarrow> bk_unknown b = [] \<and>
     list_all (\<lambda>p. pp_unknown p = [] \<and> list_all (\<lambda>ph. pn_unknown ph = []) (pp_phones p)) (bk_people b)"

definition book_inv :: "AddressBook_pb \<Rightarrow> bool" where
  "book_inv b \<longleftrightarrow> list_all person_inv (bk_people b)"

lemma enc_fields_rep: "enc_fields (put_rep enc k xs) = concat (map (\<lambda>x. msg_field k (enc_fields (enc x))) xs)"
  by (induction xs) (simp_all add: put_rep_def msg_field_def)

lemma person_fields_abs:
  "person_inv p \<Longrightarrow> enc_fields (Person_fields (person_abs p))
    = enc_fields (person_fields_pb p)
      @ concat (map (\<lambda>ph. msg_field 4 (enc_fields (phone_fields_pb ph))) (pp_phones p))"
  by (auto simp: Person_fields_def person_fields_pb_def person_abs_def person_inv_def opt_bit_def enc_fields_rep
      list_all_iff phone_fields_abs intro!: arg_cong [where f = concat])

lemma person_bytes_wire:
  assumes "person_inv p" "pp_unknown p = []" "list_all (\<lambda>ph. pn_unknown ph = []) (pp_phones p)"
  shows "person_bytes p = enc_fields (Person_fields (person_abs p))"
proof -
  have "map (\<lambda>ph. msg_field 4 (PhoneNumber_serialize ph [])) (pp_phones p)
      = map (\<lambda>ph. msg_field 4 (enc_fields (phone_fields_pb ph))) (pp_phones p)"
    using assms(3) by (simp add: list_all_iff phone_serialize_fields)
  then show ?thesis
    by (simp only: person_fields_abs [OF assms(1)] person_bytes_def assms(2) append_Nil2)
qed

lemma book_bytes_wire:
  assumes "book_inv b" "no_unknown b"
  shows "book_bytes b = snd (book_ser (book_abs b))"
proof -
  have "map (\<lambda>p. msg_field 1 (person_bytes p)) (bk_people b)
      = map (\<lambda>p. msg_field 1 (enc_fields (Person_fields (person_abs p)))) (bk_people b)"
    using assms by (simp add: book_inv_def no_unknown_def list_all_iff person_bytes_wire)
  moreover have "bk_unknown b = []"
    using assms(2) by (simp add: no_unknown_def)
  ultimately show ?thesis
    by (simp only: book_bytes_def append_Nil2) (simp add: book_ser_def book_abs_def enc_fields_rep comp_def)
qed

section \<open>Merging\<close>

lemma get_default_simps [simp]: "get_default d None = d" "get_default d (Some x) = x"
  by (simp_all add: get_default_def)

definition or_else :: "'a option \<Rightarrow> 'a option \<Rightarrow> 'a option" where
  "or_else x y = (case y of None \<Rightarrow> x | Some v \<Rightarrow> Some v)"

text \<open>Merging on the abstraction: the set fields of the source win, repeated fields are appended.\<close>

definition merge_phone :: "PhoneNumber \<Rightarrow> PhoneNumber \<Rightarrow> PhoneNumber" where
  "merge_phone a b = \<lparr>ph_number = or_else (ph_number a) (ph_number b), ph_type = or_else (ph_type a) (ph_type b)\<rparr>"

definition merge_person :: "Person \<Rightarrow> Person \<Rightarrow> Person" where
  "merge_person a b = \<lparr>p_name = or_else (p_name a) (p_name b), p_id = or_else (p_id a) (p_id b),
     p_email = or_else (p_email a) (p_email b), phones = phones a @ phones b\<rparr>"

definition merge_book :: "AddressBook \<Rightarrow> AddressBook \<Rightarrow> AddressBook" where
  "merge_book a b = \<lparr>people = people a @ people b\<rparr>"

lemma phone_merge_fields [simp]:
  "bit (pn_has_bits (PhoneNumber_MergeImpl a b)) n \<longleftrightarrow> bit (pn_has_bits a) n \<or> bit (pn_has_bits b) n"
  "pn_number (PhoneNumber_MergeImpl a b) = (if bit (pn_has_bits b) 0 then pn_number b else pn_number a)"
  "pn_type (PhoneNumber_MergeImpl a b) = (if bit (pn_has_bits b) 1 then pn_type b else pn_type a)"
  "pn_unknown (PhoneNumber_MergeImpl a b) = pn_unknown a @ pn_unknown b"
  by (auto simp: PhoneNumber_MergeImpl_def PhoneNumber_set_number_def Let_def)

lemma phone_merge_abs:
  assumes "phone_inv b"
  shows "phone_abs (PhoneNumber_MergeImpl a b) = merge_phone (phone_abs a) (phone_abs b)"
proof -
  obtain t where "PhoneType_of_int (pn_type b) = Some t"
    using PhoneType_of_int_valid [of "pn_type b"] assms by (auto simp: phone_inv_def)
  then show ?thesis
    by (simp add: phone_abs_def merge_phone_def or_else_def)
qed

lemma phone_new_abs: "phone_abs PhoneNumber_new = \<lparr>ph_number = None, ph_type = None\<rparr>" "phone_inv PhoneNumber_new"
  by (simp_all add: phone_abs_def phone_inv_def PhoneNumber_new_def valid_types)

lemma or_else_None [simp]: "or_else None y = y"
  by (cases y) (simp_all add: or_else_def)

lemma phone_copy_abs: "phone_inv ph \<Longrightarrow> phone_abs (phone_copy ph) = phone_abs ph"
  by (simp add: phone_copy_def phone_merge_abs phone_new_abs merge_phone_def)

lemma person_merge_fields [simp]:
  "bit (pp_has_bits (Person_MergeImpl a b)) n \<longleftrightarrow> bit (pp_has_bits a) n \<or> bit (pp_has_bits b) n"
  "pp_name (Person_MergeImpl a b) = (if bit (pp_has_bits b) 0 then pp_name b else pp_name a)"
  "pp_email (Person_MergeImpl a b) = (if bit (pp_has_bits b) 1 then pp_email b else pp_email a)"
  "pp_id (Person_MergeImpl a b) = (if bit (pp_has_bits b) 2 then pp_id b else pp_id a)"
  "pp_phones (Person_MergeImpl a b) = pp_phones a @ map phone_copy (pp_phones b)"
  "pp_unknown (Person_MergeImpl a b) = pp_unknown a @ pp_unknown b"
  by (auto simp: Person_MergeImpl_def Person_set_name_def Person_set_email_def Let_def)

lemma person_merge_abs:
  assumes "person_inv b"
  shows "person_abs (Person_MergeImpl a b) = merge_person (person_abs a) (person_abs b)"
proof -
  have "map (phone_abs \<circ> phone_copy) (pp_phones b) = map phone_abs (pp_phones b)"
    using assms by (simp add: person_inv_def list_all_iff phone_copy_abs)
  then show ?thesis
    by (simp add: person_abs_def merge_person_def or_else_def)
qed

lemma person_new_abs: "person_abs Person_new = Person_empty" "person_inv Person_new"
  by (simp_all add: person_abs_def person_inv_def Person_new_def Person_empty_def int_max_def)

lemma person_copy_abs: "person_inv p \<Longrightarrow> person_abs (person_copy p) = person_abs p"
  by (simp add: person_copy_def person_merge_abs person_new_abs merge_person_def Person_empty_def)

lemma book_merge_abs:
  "book_inv b \<Longrightarrow> book_abs (AddressBook_MergeImpl a b) = merge_book (book_abs a) (book_abs b)"
  by (simp add: AddressBook_MergeImpl_def book_abs_def merge_book_def book_inv_def person_copy_abs list_all_iff)

text \<open>Parsing two messages one after the other merges them.\<close>

lemma last_opt_append: "last_opt (xs @ ys) = or_else (last_opt xs) (last_opt ys)"
  by (simp add: last_opt_def or_else_def)

lemma or_else_map: "map_option f (or_else x y) = or_else (map_option f x) (map_option f y)"
  by (cases y) (simp_all add: or_else_def)

lemma get_append:
  "get_string k (fs @ gs) = or_else (get_string k fs) (get_string k gs)"
  "get_int k (fs @ gs) = or_else (get_int k fs) (get_int k gs)"
  "get_u32 k (fs @ gs) = or_else (get_u32 k fs) (get_u32 k gs)"
  "get_rep dec k (fs @ gs) = get_rep dec k fs @ get_rep dec k gs"
  by (simp_all add: get_string_def get_int_def get_u32_def get_rep_def codec_simps last_opt_append or_else_map)

lemma Person_of_fields_append: "Person_of_fields (fs @ gs) = merge_person (Person_of_fields fs) (Person_of_fields gs)"
  by (simp add: Person_of_fields_def merge_person_def get_append)

lemma person_inv_id: "person_inv p \<Longrightarrow> wf_id (p_id (person_abs p))"
  by (simp add: person_inv_def person_abs_def wf_id_def)

lemma book_wf: "book_inv b \<Longrightarrow> wf_book_wire (book_abs b)"
  by (auto simp: book_inv_def wf_book_wire_def book_abs_def list_all_iff person_inv_id)

lemma person_parse_append:
  assumes "wf_id (p_id a)" "wf_id (p_id b)"
  shows "Person_of_fields (dec_fields (enc_fields (Person_fields a) @ enc_fields (Person_fields b))) = merge_person a b"
proof -
  have "numbered (Person_fields a @ Person_fields b)"
    by (simp add: codec_simps Person_numbered)
  then have "dec_fields (enc_fields (Person_fields a) @ enc_fields (Person_fields b)) = Person_fields a @ Person_fields b"
    using dec_fields_numbered [of "Person_fields a @ Person_fields b"] by simp
  then show ?thesis
    using assms by (simp add: Person_of_fields_append Person_back)
qed

lemma phone_parse_append:
  "PhoneNumber_of_fields (dec_fields (enc_fields (PhoneNumber_fields a) @ enc_fields (PhoneNumber_fields b))) = merge_phone a b"
proof -
  have "numbered (PhoneNumber_fields a @ PhoneNumber_fields b)"
    by (simp add: codec_simps)
  then have dec: "dec_fields (enc_fields (PhoneNumber_fields a) @ enc_fields (PhoneNumber_fields b))
      = PhoneNumber_fields a @ PhoneNumber_fields b"
    using dec_fields_numbered [of "PhoneNumber_fields a @ PhoneNumber_fields b"] by simp
  have fields: "get_u32 2 (PhoneNumber_fields p) = map_option PhoneType_number (ph_type p)"
    "get_string (Suc 0) (PhoneNumber_fields p) = ph_number p" for p
    by (simp_all add: PhoneNumber_fields_def codec_simps)
  show ?thesis
    unfolding dec by (cases "ph_type b"; cases "ph_type a")
      (simp_all add: PhoneNumber_of_fields_def get_append fields merge_phone_def or_else_def)
qed

lemma put_rep_append: "put_rep enc k (xs @ ys) = put_rep enc k xs @ put_rep enc k ys"
  by (simp add: put_rep_def)

lemma book_ser_append: "snd (book_ser a) @ snd (book_ser b) = snd (book_ser (merge_book a b))"
  by (simp add: book_ser_def merge_book_def put_rep_append)

section \<open>The messages a program can build\<close>

inductive phone_built :: "PhoneNumber_pb \<Rightarrow> bool" where
  phone_new: "phone_built PhoneNumber_new"
| phone_clear_number: "phone_built m \<Longrightarrow> phone_built (PhoneNumber_clear_number m)"
| phone_set_number: "phone_built m \<Longrightarrow> phone_built (PhoneNumber_set_number s m)"
| phone_mutable_number: "phone_built m \<Longrightarrow> phone_built (PhoneNumber_mutable_number f m)"
| phone_release_number: "phone_built m \<Longrightarrow> phone_built (fst (PhoneNumber_release_number m))"
| phone_set_allocated: "phone_built m \<Longrightarrow> phone_built (PhoneNumber_set_allocated_number x m)"
| phone_clear_type: "phone_built m \<Longrightarrow> phone_built (PhoneNumber_clear_type m)"
| phone_set_type: "phone_built m \<Longrightarrow> PhoneNumber_set_type v m = Inr m' \<Longrightarrow> phone_built m'"
| phone_Clear: "phone_built m \<Longrightarrow> phone_built (PhoneNumber_Clear m)"
| phone_sized: "phone_built m \<Longrightarrow> phone_built (snd (PhoneNumber_ByteSizeLong m))"
| phone_merge: "phone_built m \<Longrightarrow> phone_built m' \<Longrightarrow> phone_built (PhoneNumber_MergeImpl m m')"
| phone_copy_from: "phone_built m \<Longrightarrow> phone_built m' \<Longrightarrow> phone_built (PhoneNumber_CopyFrom same m m')"
| phone_from: "phone_built m \<Longrightarrow> phone_built (PhoneNumber_from m)"
| phone_swap: "phone_built m \<Longrightarrow> phone_built m' \<Longrightarrow> phone_built (fst (PhoneNumber_InternalSwap (m, m')))"

lemma phone_merge_inv: "phone_inv a \<Longrightarrow> phone_inv b \<Longrightarrow> phone_inv (PhoneNumber_MergeImpl a b)"
  by (simp add: phone_inv_def)

lemma phone_Clear_eq:
  "phone_inv m \<Longrightarrow> PhoneNumber_Clear m = PhoneNumber_new\<lparr>pn_cached_size := pn_cached_size m\<rparr>"
  by (cases m) (simp add: PhoneNumber_Clear_def PhoneNumber_new_def phone_inv_def Let_def)

lemma phone_Clear_inv: "phone_inv m \<Longrightarrow> phone_inv (PhoneNumber_Clear m)"
  by (simp add: phone_Clear_eq) (simp add: phone_inv_def PhoneNumber_new_def valid_types)

lemma phone_accessor_inv:
  assumes "phone_inv m"
  shows "phone_inv (PhoneNumber_clear_number m)" "phone_inv (PhoneNumber_set_number s m)"
    "phone_inv (PhoneNumber_mutable_number f m)" "phone_inv (PhoneNumber_clear_type m)"
  using assms by (simp_all add: phone_accessors phone_inv_def valid_types)

lemma phone_release_inv: "phone_inv m \<Longrightarrow> phone_inv (fst (PhoneNumber_release_number m))"
  by (cases "bit (pn_has_bits m) 0") (simp_all add: phone_accessors phone_inv_def)

lemma phone_allocated_inv: "phone_inv m \<Longrightarrow> phone_inv (PhoneNumber_set_allocated_number x m)"
  by (cases x) (simp_all add: phone_accessors phone_inv_def Let_def)

lemma phone_set_type_inv: "phone_inv m \<Longrightarrow> PhoneNumber_set_type v m = Inr m' \<Longrightarrow> phone_inv m'"
  by (cases "Person_PhoneType_IsValid v") (auto simp: phone_accessors phone_inv_def Let_def)

lemma phone_copy_inv: "phone_inv m \<Longrightarrow> phone_inv m' \<Longrightarrow> phone_inv (PhoneNumber_CopyFrom same m m')"
  by (simp add: PhoneNumber_CopyFrom_def phone_merge_inv phone_Clear_inv)

lemma phone_swap_inv: "phone_inv m' \<Longrightarrow> phone_inv (fst (PhoneNumber_InternalSwap (m, m')))"
  by (simp add: PhoneNumber_InternalSwap_def phone_inv_def)

lemma phone_from_inv: "phone_inv m \<Longrightarrow> phone_inv (PhoneNumber_from m)"
  by (simp add: PhoneNumber_from_def phone_inv_def)

lemma phone_built_inv: "phone_built m \<Longrightarrow> phone_inv m"
  by (induction rule: phone_built.induct)
    (simp_all add: phone_accessor_inv phone_release_inv phone_allocated_inv phone_set_type_inv phone_copy_inv
      phone_swap_inv phone_from_inv phone_merge_inv phone_Clear_inv phone_new_abs phone_size_keeps)

text \<open>A value for the id is a C++ \<^verbatim>\<open>int32_t\<close>.\<close>

definition int32 :: "int \<Rightarrow> bool" where
  "int32 v \<longleftrightarrow> - int_max - 1 \<le> v \<and> v \<le> int_max"

inductive person_built :: "Person_pb \<Rightarrow> bool" where
  person_new: "person_built Person_new"
| person_clear_name: "person_built m \<Longrightarrow> person_built (Person_clear_name m)"
| person_set_name: "person_built m \<Longrightarrow> person_built (Person_set_name s m)"
| person_mutable_name: "person_built m \<Longrightarrow> person_built (Person_mutable_name f m)"
| person_release_name: "person_built m \<Longrightarrow> person_built (fst (Person_release_name m))"
| person_allocated_name: "person_built m \<Longrightarrow> person_built (Person_set_allocated_name x m)"
| person_clear_email: "person_built m \<Longrightarrow> person_built (Person_clear_email m)"
| person_set_email: "person_built m \<Longrightarrow> person_built (Person_set_email s m)"
| person_mutable_email: "person_built m \<Longrightarrow> person_built (Person_mutable_email f m)"
| person_release_email: "person_built m \<Longrightarrow> person_built (fst (Person_release_email m))"
| person_allocated_email: "person_built m \<Longrightarrow> person_built (Person_set_allocated_email x m)"
| person_clear_id: "person_built m \<Longrightarrow> person_built (Person_clear_id m)"
| person_set_id: "person_built m \<Longrightarrow> int32 v \<Longrightarrow> person_built (Person_set_id v m)"
| person_clear_phones: "person_built m \<Longrightarrow> person_built (Person_clear_phones m)"
| person_add_phones: "person_built m \<Longrightarrow> phone_built ph \<Longrightarrow> person_built (Person_add_phones (\<lambda>_. ph) m)"
| person_mutable_phones:
    "person_built m \<Longrightarrow> phone_built ph \<Longrightarrow> Person_mutable_phones i (\<lambda>_. ph) m = Inr m' \<Longrightarrow> person_built m'"
| person_Clear: "person_built m \<Longrightarrow> person_built (Person_Clear m)"
| person_sized: "person_built m \<Longrightarrow> person_built (snd (Person_ByteSizeLong m))"
| person_merge: "person_built m \<Longrightarrow> person_built m' \<Longrightarrow> person_built (Person_MergeImpl m m')"
| person_copy_from: "person_built m \<Longrightarrow> person_built m' \<Longrightarrow> person_built (Person_CopyFrom same m m')"
| person_from: "person_built m \<Longrightarrow> person_built (Person_from m)"
| person_swap: "person_built m \<Longrightarrow> person_built m' \<Longrightarrow> person_built (fst (Person_InternalSwap (m, m')))"

lemma phone_copy_kept: "phone_inv ph \<Longrightarrow> phone_inv (phone_copy ph)"
  by (simp add: phone_copy_def phone_merge_inv phone_new_abs)

lemma person_merge_inv:
  assumes "person_inv a" "person_inv b"
  shows "person_inv (Person_MergeImpl a b)"
proof -
  have "list_all phone_inv (pp_phones (Person_MergeImpl a b))"
    using assms by (auto simp: person_inv_def list_all_iff phone_copy_kept)
  then show ?thesis
    using assms by (simp add: person_inv_def)
qed

lemma person_Clear_eq:
  "person_inv m \<Longrightarrow> Person_Clear m = Person_new\<lparr>pp_cached_size := pp_cached_size m\<rparr>"
  by (cases m) (simp add: Person_Clear_def Person_new_def person_inv_def Let_def)

lemma person_Clear_inv: "person_inv m \<Longrightarrow> person_inv (Person_Clear m)"
  by (simp add: person_Clear_eq) (simp add: person_inv_def Person_new_def int_max_def)

lemma person_accessor_inv:
  assumes "person_inv m"
  shows "person_inv (Person_clear_name m)" "person_inv (Person_set_name s m)" "person_inv (Person_mutable_name f m)"
    "person_inv (Person_clear_email m)" "person_inv (Person_set_email s m)" "person_inv (Person_mutable_email f m)"
    "person_inv (Person_clear_id m)" "int32 v \<Longrightarrow> person_inv (Person_set_id v m)"
    "person_inv (Person_clear_phones m)"
  using assms by (simp_all add: person_accessors person_inv_def int32_def int_max_def)

lemma person_release_inv:
  assumes "person_inv m"
  shows "person_inv (fst (Person_release_name m))" "person_inv (fst (Person_release_email m))"
  using assms
  by (cases "bit (pp_has_bits m) 0"; simp add: person_accessors person_inv_def)
    (use assms in \<open>cases "bit (pp_has_bits m) 1"; simp add: person_accessors person_inv_def\<close>)

lemma person_allocated_inv:
  assumes "person_inv m"
  shows "person_inv (Person_set_allocated_name x m)" "person_inv (Person_set_allocated_email x m)"
  using assms by (cases x; simp add: person_accessors person_inv_def Let_def)+

lemma person_phones_inv:
  assumes "person_inv m" "phone_inv ph"
  shows "person_inv (Person_add_phones (\<lambda>_. ph) m)"
    "Person_mutable_phones i (\<lambda>_. ph) m = Inr m' \<Longrightarrow> person_inv m'"
proof -
  show "person_inv (Person_add_phones (\<lambda>_. ph) m)"
    using assms by (simp add: person_accessors person_inv_def)
  assume "Person_mutable_phones i (\<lambda>_. ph) m = Inr m'"
  then have "m' = m\<lparr>pp_phones := (pp_phones m)[i := ph]\<rparr>"
    by (simp add: Person_mutable_phones_def split: if_splits)
  moreover have "list_all phone_inv ((pp_phones m)[i := ph])"
    using assms set_update_subset_insert [of "pp_phones m" i ph] by (auto simp: person_inv_def list_all_iff)
  ultimately show "person_inv m'"
    using assms(1) by (simp add: person_inv_def)
qed

lemma person_sized_keeps:
  "person_abs (snd (Person_ByteSizeLong m)) = person_abs m"
  "person_inv (snd (Person_ByteSizeLong m)) = person_inv m"
  by (simp_all add: Person_sized phone.repeated_sized person_abs_def person_inv_def phone_size_keeps list_all_iff)

lemma person_copy_inv: "person_inv m \<Longrightarrow> person_inv m' \<Longrightarrow> person_inv (Person_CopyFrom same m m')"
  by (simp add: Person_CopyFrom_def person_merge_inv person_Clear_inv)

lemma person_swap_inv: "person_inv m' \<Longrightarrow> person_inv (fst (Person_InternalSwap (m, m')))"
  by (simp add: Person_InternalSwap_def person_inv_def)

lemma person_from_inv: "person_inv m \<Longrightarrow> person_inv (Person_from m)"
  by (auto simp: Person_from_def person_inv_def list_all_iff phone_copy_kept)

lemma person_built_inv: "person_built m \<Longrightarrow> person_inv m"
  by (induction rule: person_built.induct)
    (simp_all add: person_new_abs person_accessor_inv person_release_inv person_allocated_inv phone_built_inv
      person_phones_inv(1) person_Clear_inv person_sized_keeps person_merge_inv person_copy_inv person_swap_inv
      person_from_inv,
      blast intro: person_phones_inv(2) phone_built_inv)

inductive book_built :: "AddressBook_pb \<Rightarrow> bool" where
  book_new: "book_built AddressBook_new"
| book_clear_people: "book_built m \<Longrightarrow> book_built (AddressBook_clear_people m)"
| book_add_people: "book_built m \<Longrightarrow> person_built p \<Longrightarrow> book_built (AddressBook_add_people (\<lambda>_. p) m)"
| book_mutable_people:
    "book_built m \<Longrightarrow> person_built p \<Longrightarrow> AddressBook_mutable_people i (\<lambda>_. p) m = Inr m' \<Longrightarrow> book_built m'"
| book_Clear: "book_built m \<Longrightarrow> book_built (AddressBook_Clear m)"
| book_sized: "book_built m \<Longrightarrow> book_built (snd (AddressBook_ByteSizeLong m))"
| book_merge: "book_built m \<Longrightarrow> book_built m' \<Longrightarrow> book_built (AddressBook_MergeImpl m m')"
| book_copy_from: "book_built m \<Longrightarrow> book_built m' \<Longrightarrow> book_built (AddressBook_CopyFrom same m m')"
| book_from: "book_built m \<Longrightarrow> book_built (AddressBook_from m)"
| book_swap: "book_built m \<Longrightarrow> book_built m' \<Longrightarrow> book_built (fst (AddressBook_InternalSwap (m, m')))"

lemma person_copy_kept: "person_inv p \<Longrightarrow> person_inv (person_copy p)"
  by (simp add: person_copy_def person_merge_inv person_new_abs)

lemma book_merge_inv: "book_inv a \<Longrightarrow> book_inv b \<Longrightarrow> book_inv (AddressBook_MergeImpl a b)"
  by (auto simp: AddressBook_MergeImpl_def book_inv_def list_all_iff person_copy_kept)

lemma book_sized_keeps:
  "book_abs (snd (AddressBook_ByteSizeLong m)) = book_abs m"
  "book_inv (snd (AddressBook_ByteSizeLong m)) = book_inv m"
  by (simp_all add: AddressBook_ByteSizeLong_def case_prod_beta Let_def person.repeated_sized book_abs_def book_inv_def
      person_sized_keeps list_all_iff)

lemma book_mutable_inv:
  assumes "book_inv m" "person_inv p" "AddressBook_mutable_people i (\<lambda>_. p) m = Inr m'"
  shows "book_inv m'"
proof -
  have "bk_people m' = (bk_people m)[i := p]"
    using assms(3) by (auto simp: AddressBook_mutable_people_def split: if_splits)
  then show ?thesis
    using assms(1,2) set_update_subset_insert [of "bk_people m" i p] by (auto simp: book_inv_def list_all_iff)
qed

lemma book_Clear_inv: "book_inv (AddressBook_Clear m)"
  by (simp add: AddressBook_Clear_def book_inv_def)

lemma book_built_inv: "book_built m \<Longrightarrow> book_inv m"
proof (induction rule: book_built.induct)
  case (book_mutable_people m p i m')
  then show ?case by (blast intro: book_mutable_inv person_built_inv)
next
  case (book_copy_from m m' same)
  then show ?case by (simp add: AddressBook_CopyFrom_def book_merge_inv book_Clear_inv)
next
  case (book_from m)
  then show ?case by (auto simp: AddressBook_from_def book_inv_def list_all_iff person_copy_kept)
qed (simp_all add: AddressBook_new_def AddressBook_clear_people_def AddressBook_add_people_def book_inv_def [of "_ :: AddressBook_pb"]
    AddressBook_InternalSwap_def person_built_inv book_sized_keeps [unfolded book_inv_def]
    book_Clear_inv [unfolded book_inv_def] book_merge_inv [unfolded book_inv_def])

section \<open>Properties\<close>

text \<open>
  C23. The address book classes keep the invariant their getters rely on: in every message
  built from the empty ones with the public operations (stated for a person of a book and one
  of its phones), an unset field holds its default,
  so that reading it without looking at the presence bits gives the default, a phone type
  is one of the four enumerators and an id is a 32-bit integer.
\<close>

theorem built_messages_valid:
  assumes "book_built b" "p \<in> set (bk_people b)" "ph \<in> set (pp_phones p)"
  shows "Person_get_name p = get_default [] (p_name (person_abs p))
    \<and> Person_get_email p = get_default [] (p_email (person_abs p))
    \<and> Person_get_id p = get_default 0 (p_id (person_abs p)) \<and> int32 (Person_get_id p)
    \<and> PhoneNumber_get_number ph = get_default [] (ph_number (phone_abs ph))
    \<and> PhoneType_of_int (PhoneNumber_get_type ph) = Some (phone_type (phone_abs ph))
    \<and> (PhoneNumber_has_type ph \<longleftrightarrow> ph_type (phone_abs ph) \<noteq> None)"
proof -
  have p: "person_inv p"
    using book_built_inv [OF assms(1)] assms(2) by (simp add: book_inv_def list_all_iff)
  then have "phone_inv ph" "int32 (Person_get_id p)"
    using assms(3) by (simp_all add: person_inv_def list_all_iff int32_def Person_get_id_def)
  with p show ?thesis
    by (simp add: person_has_abs phone_has_abs)
qed

theorem built_messages_valid_witness:
  "Person_get_email (Person_add_phones (\<lambda>_. PhoneNumber_set_number ''7'' PhoneNumber_new) (Person_set_name ''al'' Person_new)) = []
    \<and> PhoneNumber_get_type (PhoneNumber_set_number ''7'' PhoneNumber_new) = 2"
proof -
  let ?ph = "PhoneNumber_set_number ''7'' PhoneNumber_new"
  let ?p = "Person_add_phones (\<lambda>_. ?ph) (Person_set_name ''al'' Person_new)"
  have "book_built (AddressBook_add_people (\<lambda>_. ?p) AddressBook_new)"
    by (intro book_add_people book_new person_add_phones person_set_name person_new phone_set_number phone_new)
  then have "Person_get_email ?p = get_default [] (p_email (person_abs ?p))"
    using built_messages_valid [of "AddressBook_add_people (\<lambda>_. ?p) AddressBook_new" ?p ?ph]
    by (simp add: AddressBook_add_people_def AddressBook_new_def Person_add_phones_def Person_set_name_def Person_new_def)
  then show ?thesis
    by (simp add: person_set_abs person_new_abs Person_empty_def PhoneNumber_get_type_def PhoneNumber_set_number_def
        PhoneNumber_new_def)
qed

text \<open>
  C21. Serialising is the wire format: for every book built with the public operations that
  holds no unknown fields, the bytes written after a size computation are the published
  encoding of the book, exactly as many as the computed size, and parsing them gives the
  book back; computing the size changes no field.
\<close>

theorem serialize_is_wire_format:
  assumes "book_built b" "no_unknown b" "AddressBook_ByteSizeLong b = (n, b')"
  shows "AddressBook_serialize b' [] = snd (book_ser (book_abs b)) \<and> length (AddressBook_serialize b' []) = n
    \<and> book_parse (AddressBook_serialize b' []) = (True, book_abs b) \<and> book_abs b' = book_abs b"
proof -
  have inv: "book_inv b" by (rule book_built_inv [OF assms(1)])
  have bytes: "AddressBook_serialize b' [] = book_bytes b" "n = length (book_bytes b)"
    using book.ser_sized [of b "[]"] book_size [of b] assms(3) by simp_all
  show ?thesis
    using book_wire.parse_ser [OF book_wf [OF inv]] book_sized_keeps(1) [of b] assms(3)
    by (simp add: bytes book_bytes_wire [OF inv assms(2)])
qed

text \<open>A person with a phone, in a book, and the book's bytes.\<close>

definition example_person :: Person_pb where
  "example_person = Person_add_phones (\<lambda>_. PhoneNumber_set_number ''7'' PhoneNumber_new) (Person_set_name ''al'' Person_new)"

definition example_book :: AddressBook_pb where
  "example_book = AddressBook_add_people (\<lambda>_. example_person) AddressBook_new"

lemma example_book_built: "book_built example_book"
  unfolding example_book_def example_person_def
  by (intro book_add_people book_new person_add_phones person_set_name person_new phone_set_number phone_new)

lemma example_book_plain: "no_unknown example_book"
  by (simp add: no_unknown_def example_book_def example_person_def AddressBook_add_people_def AddressBook_new_def
      Person_add_phones_def Person_set_name_def Person_new_def PhoneNumber_set_number_def PhoneNumber_new_def)

lemma example_person_abs:
  "person_abs example_person = \<lparr>p_name = Some ''al'', p_id = None, p_email = None,
    phones = [\<lparr>ph_number = Some ''7'', ph_type = None\<rparr>]\<rparr>"
  by (simp add: example_person_def person_set_abs phone_set_abs person_new_abs phone_new_abs Person_empty_def)

lemma example_book_abs: "book_abs example_book = \<lparr>people = [person_abs example_person]\<rparr>"
  by (simp add: example_book_def AddressBook_add_people_def AddressBook_new_def book_abs_def)

theorem serialize_is_wire_format_witness:
  "length (AddressBook_serialize (snd (AddressBook_ByteSizeLong example_book)) [])
     = fst (AddressBook_ByteSizeLong example_book)
    \<and> book_parse (AddressBook_serialize (snd (AddressBook_ByteSizeLong example_book)) [])
     = (True, \<lparr>people = [person_abs example_person]\<rparr>)"
  using serialize_is_wire_format [OF example_book_built example_book_plain prod.collapse [symmetric]]
  unfolding example_book_abs by blast

text \<open>
  C22. Merging is concatenation, for each of the three message classes: what a merge leaves in
  a phone number, or in a person, is what parsing the bytes of the two one after the
  other gives, a set field of the source replacing, one that is not set leaving the target's,
  and the phones of a person appending; and the files of two address books, one behind the
  other, are the file of the merged book.
\<close>

theorem merge_is_concatenation:
  assumes "phone_built ph" "phone_built ph'" "person_built p" "person_built q"
    and "book_built a" "book_built b" "no_unknown a" "no_unknown b"
  shows "PhoneNumber_of_fields (dec_fields (enc_fields (PhoneNumber_fields (phone_abs ph)) @ enc_fields (PhoneNumber_fields (phone_abs ph'))))
      = phone_abs (PhoneNumber_MergeImpl ph ph')
    \<and> Person_of_fields (dec_fields (enc_fields (Person_fields (person_abs p)) @ enc_fields (Person_fields (person_abs q))))
      = person_abs (Person_MergeImpl p q)
    \<and> AddressBook_serialize (snd (AddressBook_ByteSizeLong a)) [] @ AddressBook_serialize (snd (AddressBook_ByteSizeLong b)) []
      = snd (book_ser (book_abs (AddressBook_MergeImpl a b)))"
  using assms
  by (simp add: phone_built_inv phone_parse_append phone_merge_abs person_built_inv book_built_inv person_parse_append
      person_inv_id person_merge_abs book_merge_abs book.ser_sized book_bytes_wire book_ser_append)

theorem merge_is_concatenation_witness:
  "\<exists>ph'. PhoneNumber_set_type 2 PhoneNumber_new = Inr ph'
    \<and> phone_abs (PhoneNumber_MergeImpl (PhoneNumber_set_number ''7'' PhoneNumber_new) ph')
      = \<lparr>ph_number = Some ''7'', ph_type = Some PHONE_TYPE_HOME\<rparr>
    \<and> Person_of_fields (dec_fields (enc_fields (Person_fields (person_abs example_person))
      @ enc_fields (Person_fields (person_abs (Person_set_id 5 Person_new)))))
    = \<lparr>p_name = Some ''al'', p_id = Some 5, p_email = None, phones = [\<lparr>ph_number = Some ''7'', ph_type = None\<rparr>]\<rparr>"
proof -
  obtain ph' where ph': "PhoneNumber_set_type 2 PhoneNumber_new = Inr ph'"
    by (simp add: PhoneNumber_set_type_def valid_types)
  have "PhoneType_of_int 2 = Some PHONE_TYPE_HOME" by code_simp
  then have abs: "phone_abs ph' = \<lparr>ph_number = None, ph_type = Some PHONE_TYPE_HOME\<rparr>"
    by (simp add: phone_set_abs(4) [OF ph'] phone_new_abs)
  have built: "phone_built (PhoneNumber_set_number ''7'' PhoneNumber_new)" "phone_built ph'"
    using ph' by (blast intro: phone_set_number phone_set_type phone_new)+
  have p: "person_built example_person" "person_built (Person_set_id 5 Person_new)"
    unfolding example_person_def
    by (intro person_add_phones person_set_name person_set_id person_new phone_set_number phone_new;
        simp add: int32_def int_max_def)+
  have "person_abs (Person_MergeImpl example_person (Person_set_id 5 Person_new))
      = merge_person (person_abs example_person) (person_abs (Person_set_id 5 Person_new))"
    by (rule person_merge_abs [OF person_built_inv [OF p(2)]])
  then show ?thesis
    using merge_is_concatenation [OF built p example_book_built example_book_built example_book_plain example_book_plain] ph'
    by (simp add: phone_parse_append phone_set_abs phone_new_abs abs merge_phone_def example_person_abs person_set_abs
        person_new_abs Person_empty_def merge_person_def or_else_def)
qed

text \<open>
  Copying, clearing and swapping do what they say: a copy equals its source and holds no
  field of the old target, also when source and target are one object; a cleared
  message is the empty one; swapping exchanges the two.
\<close>

lemma copy_clear_swap:
  assumes "person_built m" "person_built m'" "same \<Longrightarrow> m' = m"
  shows "person_abs (Person_CopyFrom same m m') = person_abs m'
    \<and> pp_unknown (Person_CopyFrom same m m') = pp_unknown m'
    \<and> Person_Clear m = Person_new\<lparr>pp_cached_size := pp_cached_size m\<rparr>
    \<and> map_prod person_abs person_abs (Person_InternalSwap (m, m')) = (person_abs m', person_abs m)"
proof -
  have inv: "person_inv m" "person_inv m'"
    using assms(1,2) by (simp_all add: person_built_inv)
  have "person_abs (Person_Clear m) = Person_empty" "pp_unknown (Person_Clear m) = []"
    by (simp_all add: person_Clear_eq [OF inv(1)]) (simp_all add: person_abs_def Person_empty_def Person_new_def)
  then have "person_abs (Person_CopyFrom same m m') = person_abs m'"
    "pp_unknown (Person_CopyFrom same m m') = pp_unknown m'"
    using assms(3) by (auto simp: Person_CopyFrom_def person_merge_abs inv merge_person_def Person_empty_def)
  then show ?thesis
    by (simp add: person_Clear_eq inv Person_InternalSwap_def person_abs_def)
qed

text \<open>A message made by a copy constructor has the fields and the unknown fields of its source.\<close>

lemma copy_constructors:
  "phone_abs (PhoneNumber_from ph) = phone_abs ph"
  "person_built p \<Longrightarrow> person_abs (Person_from p) = person_abs p"
  "book_built b \<Longrightarrow> book_abs (AddressBook_from b) = book_abs b"
proof -
  show "phone_abs (PhoneNumber_from ph) = phone_abs ph"
    by (simp add: PhoneNumber_from_def phone_abs_def)
next
  assume "person_built p"
  then have "map (phone_abs \<circ> phone_copy) (pp_phones p) = map phone_abs (pp_phones p)"
    using person_built_inv [of p] by (simp add: person_inv_def list_all_iff phone_copy_abs)
  then show "person_abs (Person_from p) = person_abs p"
    by (simp add: Person_from_def person_abs_def)
next
  assume "book_built b"
  then have "map (person_abs \<circ> person_copy) (bk_people b) = map person_abs (bk_people b)"
    using book_built_inv [of b] by (simp add: book_inv_def list_all_iff person_copy_abs)
  then show "book_abs (AddressBook_from b) = book_abs b"
    by (simp add: AddressBook_from_def book_abs_def)
qed

lemma copy_clear_swap_example:
  "person_abs (Person_CopyFrom False (Person_set_email ''e'' Person_new) (Person_set_name ''al'' Person_new))
    = Person_empty\<lparr>p_name := Some ''al''\<rparr>"
  using copy_clear_swap [of "Person_set_email ''e'' Person_new" "Person_set_name ''al'' Person_new" False]
  by (simp add: person_set_name person_set_email person_new person_set_abs person_new_abs)

text \<open>
  The length in front of a message is the cached one: a phone number that has changed since
  the sizes were computed is written with the old length, and the person read back
  is another one.
\<close>

lemma stale_size_misread:
  "Person_of_fields (dec_fields (Person_serialize example_person [])) \<noteq> person_abs example_person"
proof -
  have "Person_serialize example_person [] = [10, 2, 97, 108, 34, 0, 10, 1, 55]"
    by code_simp
  then have "phones (Person_of_fields (dec_fields (Person_serialize example_person []))) = [\<lparr>ph_number = None, ph_type = None\<rparr>]"
    by simp code_simp
  then show ?thesis by (auto simp: example_person_abs)
qed

end
