(* ===== verification/Addressbook_Run.thy ===== *)
theory Addressbook_Run
  imports Addressbook_Pb_Wire
begin

text \<open>
  The two tutorial programs on the generated message classes, call by call, and the proof that
  they are the programs of theory \<open>Addressbook\<close> on the wire format. The library's parser
  is an argument, and so is whether the output stream took what was written.
\<close>

section \<open>Asking for a person\<close>

text \<open>\<^verbatim>\<open>getline\<close> into a string that may hold something: a stream that is not good leaves it as it is.\<close>

definition getline_into :: "string \<Rightarrow> istream \<Rightarrow> istream \<times> string" where
  "getline_into old s = (if good s then getline s else (s, old))"

definition set_type_answer :: "string \<Rightarrow> PhoneNumber_pb \<Rightarrow> PhoneNumber_pb result" where
  "set_type_answer answer ph =
     (if answer = ''mobile'' then PhoneNumber_set_type 1 ph
      else if answer = ''home'' then PhoneNumber_set_type 2 ph
      else if answer = ''work'' then PhoneNumber_set_type 3 ph
      else Inr ph)"

text \<open>The loop; \<open>phone_number\<close> points to the phone added last.\<close>

function read_phones_pb :: "istream \<Rightarrow> Person_pb \<Rightarrow> string \<Rightarrow> (istream \<times> Person_pb \<times> string) result" where
  "read_phones_pb s person o1 =
     (let o2 = o1 @ ask_number;
          (s1, num) = getline s
      in if num = [] then Inr (s1, person, o2)
         else
           let person = Person_add_phones (PhoneNumber_set_number num) person;
               last_phone = Person_phones_size person - 1;
               o3 = o2 @ ask_type;
               (s2, answer) = getline s1;
               o4 = (if type_of_answer answer = None then o3 @ unknown_type else o3)
           in (case set_type_answer answer (pp_phones person ! last_phone) of
                 Inl e \<Rightarrow> Inl e
               | Inr ph \<Rightarrow>
                   (case Person_mutable_phones last_phone (\<lambda>_. ph) person of
                      Inl e \<Rightarrow> Inl e
                    | Inr person \<Rightarrow> read_phones_pb s2 person o4)))"
  by pat_completeness auto
termination
proof (relation "measure (\<lambda>(s, person, o1). length (rest s))", goal_cases)
  case (2 s person o1 o2 xa s1 num xp last_phone o3 xb s2 answer)
  then have "length (rest s1) < length (rest s)"
    using getline_shorter [of s s1 num] by simp
  moreover have "length (rest s2) \<le> length (rest s1)"
    using getline_le [of s1] 2 by (metis fst_conv)
  ultimately show ?case by simp
qed simp

declare read_phones_pb.simps [simp del]

definition PromptForAddress_pb :: "int \<Rightarrow> istream \<Rightarrow> Person_pb \<Rightarrow> (istream \<times> Person_pb \<times> string) result" where
  "PromptForAddress_pb junk s person =
     (let o1 = ask_id;
          (s, i) = read_int junk s;
          person = Person_set_id i person;
          s = ignore_line 256 s;
          o1 = o1 @ ask_name;
          (s', name) = getline_into (pp_name person) s;
          person = Person_mutable_name (\<lambda>_. name) person;
          o1 = o1 @ ask_email;
          (s'', email) = getline s';
          person = (if email \<noteq> [] then Person_set_email email person else person)
      in read_phones_pb s'' person o1)"

section \<open>Listing people\<close>

definition list_phone_pb :: "PhoneNumber_pb \<Rightarrow> string" where
  "list_phone_pb ph =
     (let t = PhoneNumber_get_type ph
      in if t = 1 then ''  Mobile phone #: ''
         else if t = 2 then ''  Home phone #: ''
         else if t = 3 then ''  Work phone #: ''
         else [])
     @ PhoneNumber_get_number ph @ [newline]"

definition list_person_pb :: "Person_pb \<Rightarrow> string" where
  "list_person_pb p =
     ''Person ID: '' @ show_int (Person_get_id p) @ [newline] @
     ''  Name: '' @ Person_get_name p @ [newline] @
     (if Person_has_email p then ''  E-mail address: '' @ Person_get_email p @ [newline] else []) @
     concat (map (\<lambda>j. list_phone_pb (pp_phones p ! j)) [0..<Person_phones_size p])"

definition ListPeople_pb :: "AddressBook_pb \<Rightarrow> string" where
  "ListPeople_pb b = concat (map (\<lambda>i. list_person_pb (bk_people b ! i)) [0..<AddressBook_people_size b])"

section \<open>The two programs\<close>

text \<open>\<^verbatim>\<open>SerializeToOstream\<close> computes the sizes and then writes.\<close>

definition SerializeToOstream :: "bool \<Rightarrow> AddressBook_pb \<Rightarrow> bool \<times> bytes" where
  "SerializeToOstream written b =
     (let (n, b') = AddressBook_ByteSizeLong b in (written, AddressBook_serialize b' []))"

definition write_main_pb ::
    "(bytes \<Rightarrow> bool \<times> AddressBook_pb) \<Rightarrow> bool \<Rightarrow> string list \<Rightarrow> int \<Rightarrow> string \<Rightarrow> bytes option \<Rightarrow> outcome result" where
  "write_main_pb parse_stream written argv junk input f =
     (if length argv \<noteq> 2
      then Inr \<lparr>exit_code = - 1, stdout = [],
                stderr = ''Usage: '' @ hd argv @ '' ADDRESS_BOOK_FILE'' @ [newline], book_file = f\<rparr>
      else
        let (o1, ok, book) =
              (case f of
                 None \<Rightarrow> (argv ! 1 @ '': File not found. Creating a new file.'' @ [newline], True, AddressBook_new)
               | Some bs \<Rightarrow> (let (ok, book) = parse_stream bs in ([], ok, book)))
        in if \<not> ok
           then Inr \<lparr>exit_code = - 1, stdout = o1, stderr = ''Failed to parse address book.'' @ [newline], book_file = f\<rparr>
           else
             (case PromptForAddress_pb junk \<lparr>rest = input, good = True\<rparr> Person_new of
                Inl e \<Rightarrow> Inl e
              | Inr (s, person, o2) \<Rightarrow>
                  let book = AddressBook_add_people (\<lambda>_. person) book;
                      (ok, bs) = SerializeToOstream written book
                  in if \<not> ok
                     then Inr \<lparr>exit_code = - 1, stdout = o1 @ o2,
                               stderr = ''Failed to write to address book.'' @ [newline], book_file = Some bs\<rparr>
                     else Inr \<lparr>exit_code = 0, stdout = o1 @ o2, stderr = [], book_file = Some bs\<rparr>))"

definition read_main_pb ::
    "(bytes \<Rightarrow> bool \<times> AddressBook_pb) \<Rightarrow> bool \<times> AddressBook_pb \<Rightarrow> string list \<Rightarrow> bytes option \<Rightarrow> outcome" where
  "read_main_pb parse_stream parse_missing argv f =
     (if length argv \<noteq> 2
      then \<lparr>exit_code = - 1, stdout = [],
            stderr = ''Usage:  '' @ hd argv @ '' ADDRESS_BOOK_FILE'' @ [newline], book_file = f\<rparr>
      else
        let (ok, book) = (case f of None \<Rightarrow> parse_missing | Some bs \<Rightarrow> parse_stream bs)
        in if \<not> ok
           then \<lparr>exit_code = - 1, stdout = [], stderr = ''Failed to parse address book.'' @ [newline], book_file = f\<rparr>
           else \<lparr>exit_code = 0, stdout = ListPeople_pb book, stderr = [], book_file = f\<rparr>)"

section \<open>The listing\<close>

lemma map_nth_upt: "map (\<lambda>i. f (xs ! i)) [0..<length xs] = map f xs"
  by (rule nth_equalityI) simp_all

lemma list_phone_pb_abs: "phone_inv ph \<Longrightarrow> list_phone_pb ph = list_phone (phone_abs ph)"
proof -
  assume inv: "phone_inv ph"
  then have "pn_type ph = 0 \<or> pn_type ph = 1 \<or> pn_type ph = 2 \<or> pn_type ph = 3"
    by (simp add: phone_inv_def valid_types)
  moreover have "PhoneType_of_int (pn_type ph) = Some (phone_type (phone_abs ph))"
    using phone_has_abs(4) [OF inv] by (simp add: PhoneNumber_get_type_def)
  ultimately have "(let t = PhoneNumber_get_type ph
      in if t = 1 then ''  Mobile phone #: '' else if t = 2 then ''  Home phone #: ''
         else if t = 3 then ''  Work phone #: '' else []) = phone_label (phone_type (phone_abs ph))"
    by (auto simp: PhoneType_of_int_def PhoneType_of_def phone_label_def PhoneNumber_get_type_def Let_def
        split: PhoneType.splits)
  then show ?thesis
    by (simp add: list_phone_pb_def list_phone_def phone_has_abs(3) [OF inv])
qed

lemma list_person_pb_abs:
  assumes "person_inv p"
  shows "list_person_pb p = list_person (person_abs p)"
proof -
  have "map list_phone_pb (pp_phones p) = map list_phone (phones (person_abs p))"
    using assms by (simp add: person_abs_def person_inv_def list_all_iff list_phone_pb_abs)
  moreover have "(if Person_has_email p then ''  E-mail address: '' @ Person_get_email p @ [newline] else [])
      = (case p_email (person_abs p) of None \<Rightarrow> [] | Some e \<Rightarrow> ''  E-mail address: '' @ e @ [newline])"
    using assms by (auto simp: person_has_abs split: option.splits)
  ultimately show ?thesis
    using assms by (simp add: list_person_pb_def list_person_def map_nth_upt Person_phones_size_def person_has_abs)
qed

lemma ListPeople_pb_abs: "book_inv b \<Longrightarrow> ListPeople_pb b = ListPeople (book_abs b)"
  by (simp add: ListPeople_pb_def ListPeople_def AddressBook_people_size_def map_nth_upt book_abs_def book_inv_def
      list_all_iff list_person_pb_abs comp_def cong: map_cong)

section \<open>The dialogue\<close>

definition person_plain :: "Person_pb \<Rightarrow> bool" where
  "person_plain p \<longleftrightarrow> pp_unknown p = [] \<and> list_all (\<lambda>ph. pn_unknown ph = []) (pp_phones p)"

lemma add_then_mutate:
  "pp_phones (Person_add_phones g m) ! (Person_phones_size (Person_add_phones g m) - 1) = g PhoneNumber_new"
  "Person_mutable_phones (Person_phones_size (Person_add_phones g m) - 1) (\<lambda>_. ph) (Person_add_phones g m)
    = Inr (Person_add_phones (\<lambda>_. ph) m)"
  by (simp_all add: Person_add_phones_def Person_phones_size_def Person_mutable_phones_def)

lemma typed_phone:
  "\<exists>ph. set_type_answer answer (PhoneNumber_set_number num PhoneNumber_new) = Inr ph \<and> phone_built ph
    \<and> pn_unknown ph = [] \<and> phone_abs ph = \<lparr>ph_number = Some num, ph_type = type_of_answer answer\<rparr>"
proof -
  let ?ph = "PhoneNumber_set_number num PhoneNumber_new"
  have new: "phone_built ?ph" "pn_unknown ?ph = []" "phone_abs ?ph = \<lparr>ph_number = Some num, ph_type = None\<rparr>"
    by (simp_all add: phone_set_number phone_new phone_set_abs phone_new_abs)
      (simp add: PhoneNumber_set_number_def PhoneNumber_new_def)
  have set: "\<exists>ph. PhoneNumber_set_type v ?ph = Inr ph \<and> phone_built ph \<and> pn_unknown ph = []
      \<and> phone_abs ph = \<lparr>ph_number = Some num, ph_type = PhoneType_of_int v\<rparr>" if v: "Person_PhoneType_IsValid v" for v
  proof -
    obtain ph where ph: "PhoneNumber_set_type v ?ph = Inr ph" "pn_unknown ph = pn_unknown ?ph"
      using v by (simp add: PhoneNumber_set_type_def Let_def)
    then show ?thesis
      using phone_set_type [OF new(1) ph(1)] phone_set_abs(4) [OF ph(1)] new by auto
  qed
  have numbers: "PhoneType_of_int 1 = Some PHONE_TYPE_MOBILE" "PhoneType_of_int 2 = Some PHONE_TYPE_HOME"
    "PhoneType_of_int 3 = Some PHONE_TYPE_WORK"
    by (simp_all add: PhoneType_of_int_def PhoneType_of_def)
  show ?thesis
    using set [of 1] set [of 2] set [of 3] new
    by (simp add: set_type_answer_def type_of_answer_def valid_types numbers)
qed

lemma read_phones_pb_refines:
  assumes "person_built m" "person_plain m"
  shows "\<exists>s' m' o'. read_phones_pb s m o1 = Inr (s', m', o') \<and> person_built m' \<and> person_plain m'
    \<and> read_phones s (phones (person_abs m)) o1 = (s', phones (person_abs m'), o')
    \<and> person_abs m' = (person_abs m)\<lparr>phones := phones (person_abs m')\<rparr>"
  using assms
proof (induction "length (rest s)" arbitrary: s m o1 rule: less_induct)
  case less
  obtain s1 num where line: "getline s = (s1, num)" by force
  show ?case
  proof (cases "num = []")
    case True
    then have "read_phones_pb s m o1 = Inr (s1, m, o1 @ ask_number)"
      "read_phones s (phones (person_abs m)) o1 = (s1, phones (person_abs m), o1 @ ask_number)"
      by (simp_all add: read_phones_pb.simps read_phones.simps line)
    then show ?thesis using less.prems by simp
  next
    case False
    obtain s2 answer where ans: "getline s1 = (s2, answer)" by force
    obtain ph where ph: "set_type_answer answer (PhoneNumber_set_number num PhoneNumber_new) = Inr ph"
      "phone_built ph" "pn_unknown ph = []" "phone_abs ph = \<lparr>ph_number = Some num, ph_type = type_of_answer answer\<rparr>"
      using typed_phone by blast
    let ?m = "Person_add_phones (\<lambda>_. ph) m"
    let ?o = "if type_of_answer answer = None then (o1 @ ask_number) @ ask_type @ unknown_type else (o1 @ ask_number) @ ask_type"
    have step: "read_phones_pb s m o1 = read_phones_pb s2 ?m ?o"
      using False by (simp add: read_phones_pb.simps [of s] line ans add_then_mutate [unfolded One_nat_def] ph(1) Let_def)
    have step': "read_phones s (phones (person_abs m)) o1 = read_phones s2 (phones (person_abs ?m)) ?o"
      using False by (simp add: read_phones.simps [of s] line ans person_set_abs ph(4) Let_def)
    have "length (rest s2) < length (rest s)"
      using getline_shorter [OF line False] getline_le [of s1] ans by simp
    moreover have "person_built ?m" "person_plain ?m"
      using less.prems ph(2,3) person_add_phones by (auto simp: person_plain_def Person_add_phones_def)
    ultimately obtain s' m' o' where ih: "read_phones_pb s2 ?m ?o = Inr (s', m', o')" "person_built m'" "person_plain m'"
      "read_phones s2 (phones (person_abs ?m)) ?o = (s', phones (person_abs m'), o')"
      "person_abs m' = (person_abs ?m)\<lparr>phones := phones (person_abs m')\<rparr>"
      using less.hyps by blast
    moreover from ih(5) have "person_abs m' = (person_abs m)\<lparr>phones := phones (person_abs m')\<rparr>"
      by (simp add: person_set_abs)
    ultimately show ?thesis unfolding step step' by blast
  qed
qed

lemma read_int_range: "int32 old \<Longrightarrow> int32 (snd (read_int old s))"
  by (auto simp: read_int_def int32_def int_max_def Let_def)

lemma getline_into_empty: "getline_into [] s = getline s"
  by (simp add: getline_into_def getline_def)

lemma PromptForAddress_pb_refines:
  assumes "int32 junk"
  shows "\<exists>s' p o1. PromptForAddress_pb junk s Person_new = Inr (s', p, o1) \<and> person_built p \<and> person_plain p
    \<and> PromptForAddress junk s Person_empty = (s', person_abs p, o1)"
proof -
  obtain s1 i where i: "read_int junk s = (s1, i)" by force
  have i32: "int32 i" using read_int_range [OF assms, of s] by (simp add: i)
  obtain s2 name where name: "getline (ignore_line 256 s1) = (s2, name)" by force
  obtain s3 email where email: "getline s2 = (s3, email)" by force
  let ?p1 = "Person_mutable_name (\<lambda>_. name) (Person_set_id i Person_new)"
  let ?p = "if email \<noteq> [] then Person_set_email email ?p1 else ?p1"
  have inv: "person_inv (Person_set_id i Person_new)"
    using person_built_inv [OF person_set_id [OF person_new i32]] .
  have p: "person_built ?p" "person_plain ?p"
    using i32 by (simp_all add: person_set_email person_mutable_name person_set_id person_new)
      (simp add: person_plain_def person_accessors Person_new_def)
  have abs: "person_abs ?p = \<lparr>p_name = Some name, p_id = Some i, p_email = (if email = [] then None else Some email), phones = []\<rparr>"
    by (simp add: person_set_abs inv person_new_abs Person_empty_def)
  have "pp_name (Person_set_id i Person_new) = []"
    by (simp add: person_accessors Person_new_def)
  then have pb: "PromptForAddress_pb junk s Person_new = read_phones_pb s3 ?p (ask_id @ ask_name @ ask_email)"
    by (simp add: PromptForAddress_pb_def i name email getline_into_empty)
  obtain s' m' o' where r: "read_phones_pb s3 ?p (ask_id @ ask_name @ ask_email) = Inr (s', m', o')"
    "person_built m'" "person_plain m'"
    "read_phones s3 (phones (person_abs ?p)) (ask_id @ ask_name @ ask_email) = (s', phones (person_abs m'), o')"
    "person_abs m' = (person_abs ?p)\<lparr>phones := phones (person_abs m')\<rparr>"
    using read_phones_pb_refines [OF p] by blast
  define phs where "phs = phones (person_abs m')"
  have m': "person_abs m' = \<lparr>p_name = Some name, p_id = Some i, p_email = (if email = [] then None else Some email), phones = phs\<rparr>"
    using r(5) unfolding abs phs_def by simp
  have "read_phones s3 [] (ask_id @ ask_name @ ask_email) = (s', phs, o')"
    using r(4) by (simp add: abs phs_def)
  then have "PromptForAddress junk s Person_empty = (s', person_abs m', o')"
    by (simp add: m' PromptForAddress_def i name email Person_empty_def)
  then show ?thesis
    using pb r(1-3) by simp
qed

section \<open>Properties\<close>

lemma book_new_abs: "book_abs AddressBook_new = \<lparr>people = []\<rparr>" "no_unknown AddressBook_new"
  by (simp_all add: AddressBook_new_def book_abs_def no_unknown_def)

lemma book_abs_update: "(book_abs b)\<lparr>people := ps\<rparr> = \<lparr>people = ps\<rparr>"
  by (simp add: book_abs_def)

lemma add_person_written:
  assumes "book_built b" "no_unknown b" "person_built p" "person_plain p"
  shows "SerializeToOstream True (AddressBook_add_people (\<lambda>_. p) b)
    = (True, snd (book_ser \<lparr>people = people (book_abs b) @ [person_abs p]\<rparr>))"
proof -
  let ?b = "AddressBook_add_people (\<lambda>_. p) b"
  have "book_inv ?b"
    by (rule book_built_inv [OF book_add_people [OF assms(1,3)]])
  moreover have "no_unknown ?b"
    using assms(2,4) by (simp add: no_unknown_def person_plain_def AddressBook_add_people_def)
  moreover have "book_abs ?b = \<lparr>people = people (book_abs b) @ [person_abs p]\<rparr>"
    by (simp add: AddressBook_add_people_def book_abs_def)
  ultimately show ?thesis
    using book_bytes_wire [of ?b] by (simp add: SerializeToOstream_def case_prod_beta book.ser_sized)
qed

text \<open>
  C20. The tutorial programs on the generated classes are the abstract ones: when the library's
  parser reads the file as the wire format says, the writer, call by call on the presence
  bits, cached sizes and serialisers of the generated code, never fails an assertion,
  writes the same file with the same dialogue and exit code as the program on records with
  optional fields and the published encoding, and the reader prints the same listing. This is for
  files that the parser accepts and that hold no unknown fields; the exit on a file that does not
  parse is in \<open>write_main\<close> and \<open>read_main\<close>, but the wire format's \<open>book_parse\<close> never takes it.
\<close>

theorem programs_refine:
  assumes "int32 junk"
    and "f = None \<or> (\<exists>bs. f = Some bs \<and> parse bs = (True, b) \<and> book_built b \<and> no_unknown b
      \<and> book_parse bs = (True, book_abs b))"
  shows "write_main_pb parse True argv junk input f = Inr (write_main book_parse book_ser argv junk input f)
    \<and> (f \<noteq> None \<longrightarrow> read_main_pb parse missing argv' f = read_main book_parse missing' argv' f)"
proof -
  obtain s p o1 where ask: "PromptForAddress_pb junk \<lparr>rest = input, good = True\<rparr> Person_new = Inr (s, p, o1)"
    "person_built p" "person_plain p"
    "PromptForAddress junk \<lparr>rest = input, good = True\<rparr> Person_empty = (s, person_abs p, o1)"
    using PromptForAddress_pb_refines [OF assms(1)] by blast
  have ser: "fst (book_ser b) = True" for b by (simp add: book_ser_def)
  show ?thesis
  proof (cases f)
    case None
    then show ?thesis
      using add_person_written [OF book_new book_new_abs(2) ask(2,3)] ask(1,4)
      by (simp add: write_main_pb_def write_main_def book_new_abs case_prod_beta ser Let_def)
  next
    case (Some bs)
    with assms(2) have b: "parse bs = (True, b)" "book_built b" "no_unknown b" "book_parse bs = (True, book_abs b)"
      by auto
    have "ListPeople_pb b = ListPeople (book_abs b)"
      by (rule ListPeople_pb_abs [OF book_built_inv [OF b(2)]])
    then show ?thesis
      using add_person_written [OF b(2,3) ask(2,3)] ask(1,4) Some b(1,4)
      by (simp add: book_abs_update write_main_pb_def write_main_def read_main_pb_def read_main_def case_prod_beta ser Let_def)
  qed
qed

theorem programs_refine_witness:
  "write_main_pb (\<lambda>bs. (True, example_book)) True [''w'', ''f''] 99 (typed_person 5 ''bo'' [] [])
      (Some (snd (book_ser (book_abs example_book))))
    = Inr (write_main book_parse book_ser [''w'', ''f''] 99 (typed_person 5 ''bo'' [] [])
        (Some (snd (book_ser (book_abs example_book)))))"
proof -
  have "book_parse (snd (book_ser (book_abs example_book))) = (True, book_abs example_book)"
    by (rule book_wire.parse_ser [OF book_wf [OF book_built_inv [OF example_book_built]]])
  moreover have "int32 99" by (simp add: int32_def int_max_def)
  ultimately show ?thesis
    using programs_refine [of 99 "Some (snd (book_ser (book_abs example_book)))" "\<lambda>bs. (True, example_book)" example_book
        "[''w'', ''f'']" "typed_person 5 ''bo'' [] []"]
      example_book_built example_book_plain by simp
qed

end
