(* ===== verification/Spec2Isabelle.thy ===== *)
theory Spec2Isabelle
  imports Mcc_System System_Late_Runs Server_Interleaved Client_Parser Programs Users_Race Names_Race Addressbook_Run
begin

text \<open>
  A chat application: a server that keeps the registered users and their waiting
  messages, a console client, and two protocols between them. This development models
  the C++ code under \<^verbatim>\<open>src/\<close> and proves what each part does and where it fails.

  \<^bold>\<open>The program.\<close> The server holds one \<^verbatim>\<open>Database\<close> (\<^verbatim>\<open>server/database.h\<close>). Two programs were
  written on top of it. The older one speaks a binary protocol of packed headers and
  little-endian integers: \<^verbatim>\<open>MccServer\<close> (\<^verbatim>\<open>server/server.cpp\<close>) parses a request and builds the
  response in a buffer, \<^verbatim>\<open>MccClient\<close> (\<^verbatim>\<open>client/client.cpp\<close>) encodes requests and reads
  responses. The newer one speaks protocol buffers (\<^verbatim>\<open>common/packet.proto\<close>):
  \<^verbatim>\<open>server/server_app.cpp\<close> accepts connections and handles each request in a thread,
  \<^verbatim>\<open>client/app.cpp\<close> registers a user, polls for online users and messages in two threads
  and lets the user chat. Both use the sockets of \<^verbatim>\<open>tcp_lib\<close>; the client draws its
  prompt with \<^verbatim>\<open>console\<close>. \<^verbatim>\<open>protobuf-tutorial\<close> holds two programs of its own.

  \<^bold>\<open>The theories.\<close>
  \<^item> \<open>Prelude\<close>: bytes and 32-bit words, faults, bounds-checked buffers and the write
    cursor that stands for \<^verbatim>\<open>memcpy\<close> through an advancing pointer, byte order, strings.
  \<^item> \<open>Common\<close>: \<^verbatim>\<open>common/common.h\<close>.
  \<^item> \<open>Database\<close>: the store. The locales \<open>mailbox\<close> and \<open>registry\<close> state what its clients
    rely on and are interpreted on it; \<open>db_inv\<close> is its invariant.
  \<^item> \<open>Register_Race\<close>: the statements of concurrent registrations, interleaved, and the
    increment of the counter taken apart. \<open>Users_Race\<close>: registrations in the middle of the
    server's loop over the users.
  \<^item> \<open>Packet\<close>: the messages of \<^verbatim>\<open>packet.proto\<close> and the locale \<open>packet_codec\<close>, the laws of the
    protocol-buffer library; \<open>Wire\<close>: the published wire format, which satisfies them.
  \<^item> \<open>Mcc_Spec\<close>: what the binary service promises, independent of buffers: a request is a
    value, serving it gives a response and a new database. \<open>Mcc_Server\<close>: the handlers of
    \<^verbatim>\<open>server.cpp\<close>, one function each, and the refinement to \<open>Mcc_Spec\<close> (locale
    \<open>mcc_service\<close>). \<open>Mcc_Client\<close>: \<^verbatim>\<open>client.cpp\<close>. \<open>Mcc_Protocol\<close>: calls from client to
    server and back. \<open>Mcc_System\<close>: the server and any number of users as a step relation
    with the history of what was sent (locale \<open>mcc_exact_service\<close>). \<open>Client_Parser\<close>:
    \<^verbatim>\<open>client/client_parser.cpp\<close> against the server's protocol-buffer registration.
  \<^item> \<open>Tcp_Socket\<close>: \<^verbatim>\<open>tcp_lib\<close>, over arbitrary results of the system calls.
  \<^item> \<open>Console\<close>: \<^verbatim>\<open>console\<close>, the interleaving of its critical sections, and a terminal.
  \<^item> \<open>Server_App\<close>: \<^verbatim>\<open>server_app.cpp\<close>; \<open>Server_Threads\<close>: its accept loop with the request
    threads and the descriptors they hold; \<open>Server_Interleaved\<close>: these threads, one statement
    at a time, and the server that handles requests in one order, which they refine while
    registrations do not overlap. \<open>App\<close>: \<^verbatim>\<open>client/app.cpp\<close>. \<open>App_Protocol\<close>: one exchange
    of a client with the server. \<open>System\<close>: the server and any number of clients as a step
    relation with its invariant (locale \<open>growing_codec\<close>), \<open>System_Runs\<close>: its properties.
    \<open>System_Late\<close>, \<open>System_Late_Runs\<close>: the same with answers read any time after they were sent.
    \<open>Names_Race\<close>: the threads of a client on its two maps. \<open>Programs\<close>: the \<^verbatim>\<open>main\<close>
    functions, with \<open>Decimal\<close> for the numbers of the command line.
  \<^item> \<open>Addressbook\<close>: the two tutorial programs, with the locale \<open>book_codec\<close>.
    \<open>Addressbook_Pb\<close>: the generated message classes they use (\<^verbatim>\<open>addressbook.pb.h\<close> and
    \<^verbatim>\<open>.cc\<close>), member by member, and their abstraction to the records of \<open>Addressbook\<close>;
    \<open>Addressbook_Pb_Wire\<close>: their invariant, sizes, bytes and merging (locale
    \<open>sized_message\<close>). \<open>Addressbook_Run\<close>: the tutorial programs on these classes, and their
    refinement to those of \<open>Addressbook\<close>.

  \<^bold>\<open>State and operations.\<close> A class is a record of its members, with what it prints
  added (\<open>log\<close>, \<open>lines\<close>, \<open>cerr\<close>, \<open>out\<close>); an operation is a function on the record under the
  name of the member function. Two definitions of the same name in different
  theories are told apart by a prefix (\<open>App_registerUser\<close>, \<open>Console_read\<close>). An unordered
  map is an association list with distinct keys, and code that iterates over it takes
  the order as an argument, any permutation of the entries. Undefined behaviour and failed
  assertions are the values \<open>Inl OutOfBounds\<close> and \<open>Inl AssertFailure\<close>; an operation that
  has not returned on the given input and system calls is \<open>None\<close>.

  \<^bold>\<open>What the lemmas show.\<close> For the database: fresh ids until the 32-bit counter wraps,
  first-in first-out inboxes, an invariant of every reachable state, and ids given twice
  and lost users when registrations race; an id of its own in every answer when the
  increment of the counter is whole, and serializability when registrations do not
  overlap; a list of users built meanwhile is complete while the hash table
  has room, and the loop breaks when it is rehashed. For the binary protocol: every
  handler, on every branch, does what the specification says when the response fits;
  calls from client to server return the right id, users and messages, and over any
  calls of any users no message is lost, doubled or misdelivered; the faults on long
  responses and malformed requests; the size that is five bytes too large; stale data
  read after a negative answer; the name lost by the protocol-buffer variant. For the
  sockets: complete delivery and reception under every segmentation, and the loops that
  spin at the end of the stream, each of which costs the server a descriptor.
  For the console: the prompt stays the last line under every interleaving. For the
  programs: registration and online users end to end, what the server and its clients keep
  true in every state they reach together, however late answers are, by exchanges that go well,
  the user each chat message on the wire is addressed to, messages on the screen under their
  senders' names, and what does not work: requests that are never
  answered, packets that arrive in two pieces, buffers that are overrun, headers that are
  missing, a name lost to an unlocked lookup, a port cut down to 16 bits. For the generated
  classes: the bytes they write are the wire format, merging is concatenation, and the
  tutorial programs on them are the abstract ones.

  \<^bold>\<open>Bounds and fuel.\<close> Ids, lengths and counters are 32-bit words and wrap around.
  Buffers have the program's sizes: 1024 bytes in the server, 1000 in the client. Only the
  range-for loop over the database has fuel; one unit more than there are entries is
  enough (\<open>for_each_from_drop\<close>). The retry loops of the sockets recurse over the results
  of the system calls, the dialogues over the keys typed, so their termination is a
  statement about these. \<open>run\<close> of the server and of the client never returns; they are
  modelled as the state after given events.

  \<^bold>\<open>Not modelled.\<close> Of the generated classes the arenas, destructors, descriptors and the
  tables that drive the library's parser, whose meaning is in the library; the tests and the
  build files; sleeping, signals and a failing creation of a thread; wrapping of long
  lines by the terminal, and control characters in what \<open>console_step\<close> shows; the check of
  string fields for valid UTF-8; the narrowing of the results of \<^verbatim>\<open>send\<close> and \<^verbatim>\<open>recv\<close> to \<^verbatim>\<open>int\<close>,
  which transfers below \<open>2 ^ 31\<close> bytes do not reach, and of cached sizes, which messages
  below 2 GB do not reach; a failure of the address book parser on the wire format
  (\<open>book_parse\<close> reads what it can). In \<open>System\<close> an exchange is one step, in \<open>System_Late\<close> the
  server's half and the client's half, in both only for exchanges of clients in which request
  and answer arrive whole, without a socket error, and fit the client's 1000 bytes; what
  single operations do outside this scope is in \<open>Tcp_Socket\<close>, \<open>Server_App\<close> and
  \<open>App_Protocol\<close>, for an answer the client cuts \<open>long_answer_cut\<close>. A chat is one call of
  \<open>chat_loop\<close>, from any state the other threads may have left the maps in. The
  threads of one client are interleaved in \<open>Names_Race\<close>, those of the server in
  \<open>Server_Interleaved\<close>, \<open>Register_Race\<close> and \<open>Users_Race\<close>, each at its own grain, with memory
  operations in one order. What is left of the source files is declarations whose
  definitions are modelled, includes and comments.
\<close>

end
